(* ===== verification/Diff_Lcs.thy ===== *)
theory Diff_Lcs
  imports Flow_Prelude "HOL-Library.Word"
begin

text \<open>
  Longest common subsequences, which both diff engines of the review screen are built on
  (\<open>web/src/lib/diff-computer.ts\<close> over lines, \<open>web/src/lib/word-diff.ts\<close> over characters).

  \<open>lcs\<close> is the reference definition. \<open>fill_table\<close> is the dynamic-programming table both sources
  fill from the bottom right corner, at the width of the typed array they store it in. The locale
  \<open>lcs_table\<close> is the contract of such a table; \<open>lcs_walk\<close> is the greedy walk that reads it, and
  everything about the walk is proved once, from the contract.
\<close>

subsection \<open>The reference definition\<close>

fun lcs :: "'a list \<Rightarrow> 'a list \<Rightarrow> nat" where
  "lcs [] ys = 0"
| "lcs xs [] = 0"
| "lcs (x # xs) (y # ys) =
     (if x = y then Suc (lcs xs ys) else max (lcs xs (y # ys)) (lcs (x # xs) ys))"

lemma lcs_Nil_right [simp]: "lcs xs [] = 0"
  by (cases xs) simp_all

lemma lcs_upper: "subseq zs xs \<Longrightarrow> subseq zs ys \<Longrightarrow> length zs \<le> lcs xs ys"
proof (induction xs ys arbitrary: zs rule: lcs.induct)
  case (3 x xs y ys)
  show ?case
  proof (cases zs)
    case Nil
    then show ?thesis by simp
  next
    case (Cons z zs')
    consider (both) "x = y" "z = x" | (neither) "x = y" "z \<noteq> x" | (left) "x \<noteq> y" "z \<noteq> x"
      | (right) "x \<noteq> y" "z \<noteq> y"
      by blast
    then show ?thesis
    proof cases
      case both
      with "3.prems" Cons have "subseq zs' xs" "subseq zs' ys" by auto
      with both have "length zs' \<le> lcs xs ys" by (intro "3.IH"(1)) auto
      with both Cons show ?thesis by simp
    next
      case neither
      with "3.prems" Cons have "subseq zs xs" "subseq zs ys" by auto
      with neither have "length zs \<le> lcs xs ys" by (intro "3.IH"(1)) auto
      with neither show ?thesis by simp
    next
      case left
      with "3.prems" Cons have "subseq zs xs" "subseq zs (y # ys)" by auto
      with left have "length zs \<le> lcs xs (y # ys)" by (intro "3.IH"(2)) auto
      with left show ?thesis by simp
    next
      case right
      with "3.prems" Cons have "subseq zs (x # xs)" "subseq zs ys" by auto
      with right have "length zs \<le> lcs (x # xs) ys" by (intro "3.IH"(3)) auto
      with right show ?thesis by simp
    qed
  qed
qed auto

lemma lcs_attained: "\<exists>zs. subseq zs xs \<and> subseq zs ys \<and> length zs = lcs xs ys"
proof (induction xs ys rule: lcs.induct)
  case (3 x xs y ys)
  show ?case
  proof (cases "x = y")
    case True
    with "3.IH"(1) obtain zs where "subseq zs xs" "subseq zs ys" "length zs = lcs xs ys" by blast
    with True show ?thesis by (intro exI [of _ "x # zs"]) auto
  next
    case False
    with "3.IH"(2,3) obtain zs1 zs2 where
      "subseq zs1 xs" "subseq zs1 (y # ys)" "length zs1 = lcs xs (y # ys)"
      "subseq zs2 (x # xs)" "subseq zs2 ys" "length zs2 = lcs (x # xs) ys" by blast
    then have "subseq zs1 (x # xs)" "subseq zs2 (y # ys)" by auto
    with False \<open>subseq zs1 (y # ys)\<close> \<open>subseq zs2 (x # xs)\<close>
      \<open>length zs1 = lcs xs (y # ys)\<close> \<open>length zs2 = lcs (x # xs) ys\<close> show ?thesis
      by (intro exI [of _ "if lcs xs (y # ys) \<ge> lcs (x # xs) ys then zs1 else zs2"])
         (simp add: max_def)
  qed
qed auto

lemma lcs_le_left: "lcs xs ys \<le> length xs"
  using lcs_attained [of xs ys] list_emb_length by fastforce

lemma lcs_le_right: "lcs xs ys \<le> length ys"
  using lcs_attained [of xs ys] list_emb_length by fastforce

lemma lcs_drop_match:
  "i < length a \<Longrightarrow> j < length b \<Longrightarrow> a ! i = b ! j \<Longrightarrow>
     lcs (drop i a) (drop j b) = Suc (lcs (drop (Suc i) a) (drop (Suc j) b))"
  by (simp flip: Cons_nth_drop_Suc)

lemma lcs_drop_skip:
  "i < length a \<Longrightarrow> j < length b \<Longrightarrow> a ! i \<noteq> b ! j \<Longrightarrow>
     lcs (drop i a) (drop j b) = max (lcs (drop (Suc i) a) (drop j b)) (lcs (drop i a) (drop (Suc j) b))"
  by (simp flip: Cons_nth_drop_Suc)

subsection \<open>The table\<close>

text \<open>
  One row, filled from the right, given the row below it: the cell is the diagonal one plus one
  where the elements agree, and the larger of the cell below and the cell to the right elsewhere.
\<close>

fun fill_row :: "'a \<Rightarrow> 'a list \<Rightarrow> 'l::len word list \<Rightarrow> 'l word list" where
  "fill_row x [] below = [0]"
| "fill_row x (y # ys) below =
     (let right = fill_row x ys (tl below)
      in (if x = y then hd (tl below) + 1 else max (hd below) (hd right)) # right)"

fun fill_table :: "'a list \<Rightarrow> 'a list \<Rightarrow> 'l::len word list list" where
  "fill_table [] b = [replicate (Suc (length b)) 0]"
| "fill_table (x # xs) b = (let rows = fill_table xs b in fill_row x b (hd rows) # rows)"

fun lcs_row :: "'a list \<Rightarrow> 'a list \<Rightarrow> nat list" where
  "lcs_row xs [] = [0]"
| "lcs_row xs (y # ys) = lcs xs (y # ys) # lcs_row xs ys"

lemma hd_lcs_row [simp]: "hd (lcs_row xs ys) = lcs xs ys"
  by (cases ys) simp_all

lemma lcs_row_Nil: "lcs_row [] ys = replicate (Suc (length ys)) 0"
  by (induction ys) simp_all

lemma nth_lcs_row: "j \<le> length ys \<Longrightarrow> lcs_row xs ys ! j = lcs xs (drop j ys)"
  by (induction xs ys arbitrary: j rule: lcs_row.induct) (auto simp: nth_Cons split: nat.splits)

lemma length_fill_row [simp]: "length (fill_row x ys below) = Suc (length ys)"
  by (induction x ys below rule: fill_row.induct) (simp_all add: Let_def)

lemma length_fill_table [simp]: "length (fill_table a b) = Suc (length a)"
  by (induction a b rule: fill_table.induct) (simp_all add: Let_def)

lemma fill_table_row_length: "r \<in> set (fill_table a b) \<Longrightarrow> length r = Suc (length b)"
  by (induction a b rule: fill_table.induct) (auto simp: Let_def)

lemma unat_Suc_word:
  fixes w :: "'l::len word"
  shows "Suc (unat w) < 2 ^ LENGTH('l) \<Longrightarrow> unat (w + 1) = Suc (unat w)"
  by (simp add: unat_word_ariths)

lemma unat_max_word: "unat (max u v) = max (unat u) (unat v)"
  by (simp add: max_def word_le_nat_alt)

lemma hd_map_unat: "xs \<noteq> [] \<Longrightarrow> map unat xs = ns \<Longrightarrow> unat (hd xs) = hd ns"
  by (cases xs) auto

lemma fill_row_lcs:
  fixes below :: "'l::len word list"
  assumes "Suc (length xs) < 2 ^ LENGTH('l)" and "map unat below = lcs_row xs ys"
  shows "map unat (fill_row x ys below) = lcs_row (x # xs) ys"
  using assms
proof (induction x ys below rule: fill_row.induct)
  case (2 x y ys below)
  let ?right = "fill_row x ys (tl below)"
  from "2.prems" obtain d ds where below: "below = d # ds" by (cases below) auto
  with "2.prems" have d: "unat d = lcs xs (y # ys)" and ds: "map unat ds = lcs_row xs ys" by auto
  with "2.IH" "2.prems" below have right: "map unat ?right = lcs_row (x # xs) ys" by simp
  have "ds \<noteq> []" using ds by (cases ys) auto
  with ds have hd_ds: "unat (hd ds) = lcs xs ys" by (simp add: hd_map_unat)
  have "?right \<noteq> []" by (metis length_fill_row list.size(3) nat.distinct(1))
  with right have hd_right: "unat (hd ?right) = lcs (x # xs) ys" by (simp add: hd_map_unat)
  have "Suc (unat (hd ds)) < 2 ^ LENGTH('l)"
    using hd_ds lcs_le_left [of xs ys] "2.prems"(1) by simp
  then show ?case
    using below d hd_ds right hd_right by (simp add: Let_def unat_Suc_word unat_max_word)
qed simp

lemma hd_fill_table_lcs:
  assumes "length a < 2 ^ LENGTH('l::len)"
  shows "map unat (hd (fill_table a b :: 'l word list list)) = lcs_row a b"
  using assms by (induction a b rule: fill_table.induct) (simp_all add: Let_def lcs_row_Nil fill_row_lcs)

lemma nth_fill_table: "i \<le> length a \<Longrightarrow> fill_table a b ! i = hd (fill_table (drop i a) b)"
proof (induction a arbitrary: i)
  case Nil
  then show ?case by simp
next
  case (Cons x a)
  then show ?case by (cases i) (simp_all add: Let_def)
qed

lemma fill_table_lcs:
  assumes "length a < 2 ^ LENGTH('l::len)" and "i \<le> length a" and "j \<le> length b"
  shows "unat ((fill_table a b :: 'l word list list) ! i ! j) = lcs (drop i a) (drop j b)"
proof -
  let ?row = "hd (fill_table (drop i a) b :: 'l word list list)"
  from assms(1) have row: "map unat ?row = lcs_row (drop i a) b"
    by (intro hd_fill_table_lcs) (simp add: less_imp_diff_less)
  have "length ?row = Suc (length b)"
    by (rule fill_table_row_length [of _ "drop i a"], rule hd_in_set)
       (metis length_fill_table list.size(3) nat.distinct(1))
  with row assms(3) have "unat (?row ! j) = lcs_row (drop i a) b ! j"
    by (metis le_imp_less_Suc nth_map)
  with assms(2,3) show ?thesis by (simp add: nth_fill_table nth_lcs_row)
qed

subsection \<open>The walk\<close>

text \<open>
  A step of the walk: the elements at the two positions are the same, or one side's element has no
  partner.
\<close>

datatype walk_step = Both nat nat | OnlyA nat | OnlyB nat

function lcs_walk :: "(nat \<Rightarrow> nat \<Rightarrow> nat) \<Rightarrow> 'a list \<Rightarrow> 'a list \<Rightarrow> nat \<Rightarrow> nat \<Rightarrow> walk_step list" where
  "lcs_walk t a b i j =
     (if i < length a \<and> j < length b then
        (if a ! i = b ! j then Both i j # lcs_walk t a b (Suc i) (Suc j)
         else if t (Suc i) j \<ge> t i (Suc j) then OnlyA i # lcs_walk t a b (Suc i) j
         else OnlyB j # lcs_walk t a b i (Suc j))
      else map OnlyA [i..<length a] @ map OnlyB [j..<length b])"
  by pat_completeness auto
termination
  by (relation "measure (\<lambda>(t, a, b, i, j). (length a - i) + (length b - j))") auto

declare lcs_walk.simps [simp del]

fun step_a :: "walk_step \<Rightarrow> nat list" where
  "step_a (Both i j) = [i]"
| "step_a (OnlyA i) = [i]"
| "step_a (OnlyB j) = []"

fun step_b :: "walk_step \<Rightarrow> nat list" where
  "step_b (Both i j) = [j]"
| "step_b (OnlyA i) = []"
| "step_b (OnlyB j) = [j]"

fun is_both :: "walk_step \<Rightarrow> bool" where
  "is_both (Both i j) = True"
| "is_both (OnlyA i) = False"
| "is_both (OnlyB j) = False"

lemma concat_map_step_OnlyA [simp]:
  "concat (map step_a (map OnlyA is)) = is" "concat (map step_b (map OnlyA is)) = []"
  "filter is_both (map OnlyA is) = []"
  by (induction "is") simp_all

lemma concat_map_step_OnlyB [simp]:
  "concat (map step_b (map OnlyB js)) = js" "concat (map step_a (map OnlyB js)) = []"
  "filter is_both (map OnlyB js) = []"
  by (induction js) simp_all

text \<open>Every element of either side is visited once, in order, whatever the table holds.\<close>

lemma lcs_walk_a: "i \<le> length a \<Longrightarrow> concat (map step_a (lcs_walk t a b i j)) = [i..<length a]"
proof (induction t a b i j rule: lcs_walk.induct)
  case (1 t a b i j)
  show ?case
    using 1 by (subst lcs_walk.simps) (simp add: upt_conv_Cons del: map_map)
qed

lemma lcs_walk_b: "j \<le> length b \<Longrightarrow> concat (map step_b (lcs_walk t a b i j)) = [j..<length b]"
proof (induction t a b i j rule: lcs_walk.induct)
  case (1 t a b i j)
  show ?case
    using 1 by (subst lcs_walk.simps) (simp add: upt_conv_Cons del: map_map)
qed

lemma lcs_walk_both: "Both p q \<in> set (lcs_walk t a b i j) \<Longrightarrow> p < length a \<and> q < length b \<and> a ! p = b ! q"
proof (induction t a b i j rule: lcs_walk.induct)
  case (1 t a b i j)
  from "1.prems" "1.IH" show ?case
    by (auto simp: lcs_walk.simps [of t a b i j] split: if_splits)
qed

subsection \<open>The contract of a table, and what a walk over it finds\<close>

locale lcs_table =
  fixes table :: "'a list \<Rightarrow> 'a list \<Rightarrow> nat \<Rightarrow> nat \<Rightarrow> nat"
    and capacity :: nat
  assumes table_lcs: "length a < capacity \<Longrightarrow> i \<le> length a \<Longrightarrow> j \<le> length b \<Longrightarrow>
    table a b i j = lcs (drop i a) (drop j b)"
begin

lemma walk_count:
  assumes "length a < capacity" and "i \<le> length a" and "j \<le> length b"
  shows "length (filter is_both (lcs_walk (table a b) a b i j)) = lcs (drop i a) (drop j b)"
  using assms
proof (induction "table a b" a b i j rule: lcs_walk.induct)
  case (1 a b i j)
  show ?case
  proof (cases "i < length a \<and> j < length b")
    case True
    then have ij: "i < length a" "j < length b" by auto
    show ?thesis
    proof (cases "a ! i = b ! j")
      case True
      with 1 ij show ?thesis
        by (subst lcs_walk.simps) (simp add: lcs_drop_match)
    next
      case False
      show ?thesis
      proof (cases "table a b (Suc i) j \<ge> table a b i (Suc j)")
        case True
        with False 1 ij have "lcs (drop i a) (drop j b) = lcs (drop (Suc i) a) (drop j b)"
          by (simp add: lcs_drop_skip table_lcs)
        with True False 1 ij show ?thesis by (subst lcs_walk.simps) simp
      next
        case less: False
        with False 1 ij have "lcs (drop i a) (drop j b) = lcs (drop i a) (drop (Suc j) b)"
          by (simp add: lcs_drop_skip table_lcs)
        with less False 1 ij show ?thesis by (subst lcs_walk.simps) simp
      qed
    qed
  next
    case False
    with 1 show ?thesis by (subst lcs_walk.simps) (auto simp: not_less simp del: map_map)
  qed
qed

text \<open>No common subsequence is longer than the part the walk keeps.\<close>

lemma walk_optimal:
  assumes "length a < capacity" and "subseq zs a" and "subseq zs b"
  shows "length zs \<le> length (filter is_both (lcs_walk (table a b) a b 0 0))"
  using walk_count [OF assms(1), of 0 0 b] lcs_upper [OF assms(2,3)] by simp

end

end
