(* ===== verification/Diff_Computer.thy ===== *)
theory Diff_Computer
  imports Diff_Lcs
begin

text \<open>
  \<open>web/src/lib/diff-computer.ts\<close>: the patch parser, the side-by-side pairing, the line diff of the
  structural variant and the assembly of a computed file diff. The \<open>DiffComputer\<close> class, which
  caches these, is in the theory \<open>Diff_Cache\<close>.

  Line numbers, counts and lengths are natural numbers. A \<open>Uint32Array\<close> of the source is a row of
  \<open>32 word\<close>. An optional field is an option; \<open>undefined\<close> and \<open>null\<close> are both \<open>None\<close>.
\<close>

subsection \<open>Data\<close>

datatype diff_line_kind = Add | Remove | Context

record diff_line =
  kind :: diff_line_kind
  content :: string
  oldNumber :: "nat option"
  newNumber :: "nat option"

record diff_hunk =
  oldStart :: nat
  oldCount :: nat
  newStart :: nat
  newCount :: nat
  header :: string
  hunkLines :: "diff_line list"

datatype diff_variant = Basic | Structural

datatype diff_compute_state = Pending | Computing | Ready | Failed

record diff_options =
  collapseUnchangedAreas :: bool
  enableStructuralDiff :: bool
  enableMoveDetection :: bool

text \<open>\<open>Partial<DiffOptions>\<close>: \<open>None\<close> is a field the object does not have.\<close>

record partial_diff_options =
  collapseUnchangedAreas_opt :: "bool option"
  enableStructuralDiff_opt :: "bool option"
  enableMoveDetection_opt :: "bool option"

definition BASIC_DIFF_OPTIONS :: diff_options where
  "BASIC_DIFF_OPTIONS =
     \<lparr>collapseUnchangedAreas = True, enableStructuralDiff = False, enableMoveDetection = False\<rparr>"

definition STRUCTURAL_DIFF_OPTIONS :: diff_options where
  "STRUCTURAL_DIFF_OPTIONS =
     \<lparr>collapseUnchangedAreas = True, enableStructuralDiff = True, enableMoveDetection = True\<rparr>"

fun optionsForVariant :: "diff_variant \<Rightarrow> diff_options" where
  "optionsForVariant Structural = STRUCTURAL_DIFF_OPTIONS"
| "optionsForVariant Basic = BASIC_DIFF_OPTIONS"

text \<open>The object spread \<open>{ ...base, ...partial }\<close>.\<close>

definition override_options :: "diff_options \<Rightarrow> partial_diff_options option \<Rightarrow> diff_options" where
  "override_options base p =
     (case p of
        None \<Rightarrow> base
      | Some o' \<Rightarrow>
          \<lparr>collapseUnchangedAreas =
             (case collapseUnchangedAreas_opt o' of Some b \<Rightarrow> b | None \<Rightarrow> collapseUnchangedAreas base),
           enableStructuralDiff =
             (case enableStructuralDiff_opt o' of Some b \<Rightarrow> b | None \<Rightarrow> enableStructuralDiff base),
           enableMoveDetection =
             (case enableMoveDetection_opt o' of Some b \<Rightarrow> b | None \<Rightarrow> enableMoveDetection base)\<rparr>)"

subsection \<open>Languages\<close>

text \<open>
  A lookup in a plain object finds the properties inherited from \<open>Object.prototype\<close> too. Of these,
  only \<open>constructor\<close> and \<open>__proto__\<close> are spelled in lower case, as the looked-up extension is.
\<close>

datatype language = Language string | Inherited string

definition LANGUAGE_BY_EXT :: "(string \<times> string) list" where
  "LANGUAGE_BY_EXT =
     [(''ts'', ''TypeScript''), (''tsx'', ''TypeScript''), (''js'', ''JavaScript''),
      (''jsx'', ''JavaScript''), (''mjs'', ''JavaScript''), (''cjs'', ''JavaScript''),
      (''go'', ''Go''), (''rs'', ''Rust''), (''py'', ''Python''), (''rb'', ''Ruby''),
      (''java'', ''Java''), (''kt'', ''Kotlin''), (''swift'', ''Swift''), (''css'', ''CSS''),
      (''scss'', ''CSS''), (''html'', ''HTML''), (''md'', ''Markdown''), (''json'', ''JSON''),
      (''yml'', ''YAML''), (''yaml'', ''YAML''), (''sh'', ''Shell''), (''bash'', ''Shell''),
      (''sql'', ''SQL'')]"

definition languageFromFilename :: "string \<Rightarrow> language" where
  "languageFromFilename filename =
     (let base = last (split_on (CHR ''/'') filename);
          ext = (if CHR ''.'' \<in> set base then map latin_lower (last (split_on (CHR ''.'') base)) else [])
      in case map_of LANGUAGE_BY_EXT ext of
           Some l \<Rightarrow> Language l
         | None \<Rightarrow> if ext = ''constructor'' \<or> ext = ''__proto__'' then Inherited ext else Language ''Text'')"

subsection \<open>The patch parser\<close>

text \<open>
  The regular expression \<open>@@ -(\d+)(?:,(\d+))? \+(\d+)(?:,(\d+))? @@(.*)\<close>, which is not anchored: the
  leftmost position where it matches counts.
\<close>

definition read_count :: "string \<Rightarrow> nat option \<times> string" where
  "read_count s =
     (case s of
        c # r \<Rightarrow>
          if c = CHR '','' then (case read_number r of Some (n, r') \<Rightarrow> (Some n, r') | None \<Rightarrow> (None, s))
          else (None, s)
      | [] \<Rightarrow> (None, s))"

definition match_header_at :: "string \<Rightarrow> (nat \<times> nat option \<times> nat \<times> nat option) option" where
  "match_header_at s =
     (case strip_prefix ''@@ -'' s of None \<Rightarrow> None | Some s1 \<Rightarrow>
      case read_number s1 of None \<Rightarrow> None | Some (os, s2) \<Rightarrow>
      case read_count s2 of (oc, s3) \<Rightarrow>
      case strip_prefix '' +'' s3 of None \<Rightarrow> None | Some s4 \<Rightarrow>
      case read_number s4 of None \<Rightarrow> None | Some (ns, s5) \<Rightarrow>
      case read_count s5 of (nc, s6) \<Rightarrow>
      case strip_prefix '' @@'' s6 of None \<Rightarrow> None | Some s7 \<Rightarrow>
      Some (os, oc, ns, nc))"

fun match_header :: "string \<Rightarrow> (nat \<times> nat option \<times> nat \<times> nat option) option" where
  "match_header [] = None"
| "match_header (c # s) =
     (case match_header_at (c # s) of Some r \<Rightarrow> Some r | None \<Rightarrow> match_header s)"

definition newline :: char where
  "newline = CHR 0x0A"

text \<open>
  The loop's variables. \<open>current\<close> of the source is \<open>null\<close> before the first hunk and the last pushed
  hunk afterwards, so it is the last element of \<open>parsedHunks\<close>.
\<close>

record parse_state =
  parsedHunks :: "diff_hunk list"
  nextOld :: nat
  nextNew :: nat

definition open_hunk :: "diff_hunk \<Rightarrow> parse_state \<Rightarrow> parse_state" where
  "open_hunk h st =
     st\<lparr>parsedHunks := parsedHunks st @ [h], nextOld := oldStart h, nextNew := newStart h\<rparr>"

definition push_line :: "diff_line \<Rightarrow> parse_state \<Rightarrow> parse_state" where
  "push_line l st =
     st\<lparr>parsedHunks := butlast (parsedHunks st) @
        [(last (parsedHunks st))\<lparr>hunkLines := hunkLines (last (parsedHunks st)) @ [l]\<rparr>]\<rparr>"

definition synthetic_hunk :: diff_hunk where
  "synthetic_hunk =
     \<lparr>oldStart = 1, oldCount = 0, newStart = 1, newCount = 0, header = ''@@ -1 +1 @@'', hunkLines = []\<rparr>"

definition skipped_line :: "string \<Rightarrow> bool" where
  "skipped_line raw \<longleftrightarrow>
     starts_with raw ''diff '' \<or> starts_with raw ''index '' \<or> starts_with raw ''--- '' \<or>
     starts_with raw ''+++ '' \<or> starts_with raw (CHR 0x5C # '' No newline'')"

definition body_line :: "string \<Rightarrow> parse_state \<Rightarrow> parse_state" where
  "body_line raw st =
     (if starts_with raw ''+'' then
        (push_line \<lparr>kind = Add, content = drop 1 raw, oldNumber = None, newNumber = Some (nextNew st)\<rparr> st)
          \<lparr>nextNew := Suc (nextNew st)\<rparr>
      else if starts_with raw ''-'' then
        (push_line \<lparr>kind = Remove, content = drop 1 raw, oldNumber = Some (nextOld st), newNumber = None\<rparr> st)
          \<lparr>nextOld := Suc (nextOld st)\<rparr>
      else
        (push_line \<lparr>kind = Context, content = (if starts_with raw '' '' then drop 1 raw else raw),
                    oldNumber = Some (nextOld st), newNumber = Some (nextNew st)\<rparr> st)
          \<lparr>nextOld := Suc (nextOld st), nextNew := Suc (nextNew st)\<rparr>)"

definition parse_line :: "parse_state \<Rightarrow> string \<Rightarrow> parse_state" where
  "parse_line st raw =
     (if raw = [] then st
      else if starts_with raw ''@@'' then
        (case match_header raw of
           None \<Rightarrow> st
         | Some (os, oc, ns, nc) \<Rightarrow>
             open_hunk \<lparr>oldStart = os, oldCount = (case oc of Some n \<Rightarrow> n | None \<Rightarrow> 1),
                        newStart = ns, newCount = (case nc of Some n \<Rightarrow> n | None \<Rightarrow> 1),
                        header = raw, hunkLines = []\<rparr> st)
      else if skipped_line raw then st
      else body_line raw (if parsedHunks st = [] then open_hunk synthetic_hunk st else st))"

definition parsePatchHunks :: "string option \<Rightarrow> diff_hunk list" where
  "parsePatchHunks patch =
     (case patch of
        None \<Rightarrow> []
      | Some p \<Rightarrow>
          if p = [] then []
          else parsedHunks (foldl parse_line \<lparr>parsedHunks = [], nextOld = 0, nextNew = 0\<rparr>
                              (split_on newline p)))"

definition parseDiff :: "string \<Rightarrow> diff_line list" where
  "parseDiff patch = concat (map hunkLines (parsePatchHunks (Some patch)))"

subsection \<open>Side by side\<close>

type_synonym diff_row = "diff_line option \<times> diff_line option"

definition nth_opt :: "'a list \<Rightarrow> nat \<Rightarrow> 'a option" where
  "nth_opt xs i = (if i < length xs then Some (xs ! i) else None)"

definition pair_rows :: "diff_line list \<Rightarrow> diff_line list \<Rightarrow> diff_row list" where
  "pair_rows removed added =
     map (\<lambda>offset. (nth_opt removed offset, nth_opt added offset)) [0..<max (length removed) (length added)]"

function pairDiffLines :: "diff_line list \<Rightarrow> diff_row list" where
  "pairDiffLines [] = []"
| "pairDiffLines (line # rest) =
     (if kind line = Context then (Some line, Some line) # pairDiffLines rest
      else
        (let removed = takeWhile (\<lambda>l. kind l = Remove) (line # rest);
             afterRemoved = dropWhile (\<lambda>l. kind l = Remove) (line # rest);
             added = takeWhile (\<lambda>l. kind l = Add) afterRemoved;
             afterAdded = dropWhile (\<lambda>l. kind l = Add) afterRemoved
         in pair_rows removed added @ pairDiffLines afterAdded))"
  by pat_completeness auto

lemma length_dropWhile_le_Suc: "length (dropWhile P (dropWhile Q xs)) \<le> length xs"
  using length_dropWhile_le [of P "dropWhile Q xs"] length_dropWhile_le [of Q xs] by linarith

lemma pair_block_shrinks:
  "kind line \<noteq> Context \<Longrightarrow>
     length (dropWhile (\<lambda>l. kind l = Add) (dropWhile (\<lambda>l. kind l = Remove) (line # rest))) < Suc (length rest)"
  using length_dropWhile_le_Suc [of "\<lambda>l. kind l = Add" "\<lambda>l. kind l = Remove" rest]
    length_dropWhile_le [of "\<lambda>l. kind l = Add" rest]
  by (cases "kind line") (simp_all add: le_imp_less_Suc)

termination pairDiffLines
  by (relation "measure length") (auto simp: pair_block_shrinks simp del: dropWhile.simps)

subsection \<open>Counts, commentable lines, collapsing\<close>

definition countChanges :: "diff_line list \<Rightarrow> nat \<times> nat" where
  "countChanges lines =
     foldl (\<lambda>(additions, deletions) line.
              (if kind line = Add then Suc additions else additions,
               if kind line = Remove then Suc deletions else deletions)) (0, 0) lines"

definition commentableFromLines :: "diff_line list \<Rightarrow> nat list \<times> nat list" where
  "commentableFromLines lines =
     (let original = js_uniq (concat (map (\<lambda>line.
            if kind line = Remove \<or> kind line = Context
            then (case oldNumber line of Some n \<Rightarrow> [n] | None \<Rightarrow> []) else []) lines));
          modified = js_uniq (concat (map (\<lambda>line.
            if kind line = Add \<or> kind line = Context
            then (case newNumber line of Some n \<Rightarrow> [n] | None \<Rightarrow> []) else []) lines))
      in (sort original, sort modified))"

definition kept_indices :: "diff_line list \<Rightarrow> nat \<Rightarrow> nat list" where
  "kept_indices lines keepContext =
     concat (map (\<lambda>i. if kind (lines ! i) \<noteq> Context
                      then [i - keepContext..<Suc (min (length lines - 1) (i + keepContext))] else [])
             [0..<length lines])"

definition collapseUnchanged :: "diff_line list \<Rightarrow> nat \<Rightarrow> diff_line list" where
  "collapseUnchanged lines keepContext =
     (if lines = [] then lines
      else
        (let keep = js_uniq (kept_indices lines keepContext)
         in if length keep = length lines then lines
            else map (\<lambda>i. lines ! i) (filter (\<lambda>i. i \<in> set keep) [0..<length lines])))"

subsection \<open>The structural line diff\<close>

text \<open>\<open>text.length ? text.replace(/\n$/, "").split("\n") : []\<close>.\<close>

definition text_lines :: "string \<Rightarrow> string list" where
  "text_lines t =
     (if t = [] then []
      else split_on newline (if last t = newline then butlast t else t))"

definition dp :: "'a list \<Rightarrow> 'a list \<Rightarrow> 32 word list list" where
  "dp a b = fill_table a b"

function structural_walk ::
  "32 word list list \<Rightarrow> string list \<Rightarrow> string list \<Rightarrow> nat \<Rightarrow> nat \<Rightarrow> nat \<Rightarrow> nat \<Rightarrow> diff_line list" where
  "structural_walk t a b i j oldN newN =
     (if i < length a \<and> j < length b then
        (if a ! i = b ! j then
           \<lparr>kind = Context, content = a ! i, oldNumber = Some oldN, newNumber = Some newN\<rparr>
             # structural_walk t a b (Suc i) (Suc j) (Suc oldN) (Suc newN)
         else if t ! Suc i ! j \<ge> t ! i ! Suc j then
           \<lparr>kind = Remove, content = a ! i, oldNumber = Some oldN, newNumber = None\<rparr>
             # structural_walk t a b (Suc i) j (Suc oldN) newN
         else
           \<lparr>kind = Add, content = b ! j, oldNumber = None, newNumber = Some newN\<rparr>
             # structural_walk t a b i (Suc j) oldN (Suc newN))
      else if i < length a then
        \<lparr>kind = Remove, content = a ! i, oldNumber = Some oldN, newNumber = None\<rparr>
          # structural_walk t a b (Suc i) j (Suc oldN) newN
      else if j < length b then
        \<lparr>kind = Add, content = b ! j, oldNumber = None, newNumber = Some newN\<rparr>
          # structural_walk t a b i (Suc j) oldN (Suc newN)
      else [])"
  by pat_completeness auto
termination
  by (relation "measure (\<lambda>(t, a, b, i, j, p, q). (length a - i) + (length b - j))") auto

declare structural_walk.simps [simp del]

definition computeStructuralLines :: "string \<Rightarrow> string \<Rightarrow> diff_line list" where
  "computeStructuralLines original modified =
     (let a = text_lines original; b = text_lines modified
      in if length a = 0 \<and> length b = 0 then [] else structural_walk (dp a b) a b 0 0 1 1)"

definition detectMoves :: "diff_line list \<Rightarrow> diff_line list" where
  "detectMoves lines = lines"

fun first_number :: "(diff_line \<Rightarrow> nat option) \<Rightarrow> diff_line list \<Rightarrow> nat" where
  "first_number f [] = 1"
| "first_number f (l # ls) = (case f l of Some n \<Rightarrow> n | None \<Rightarrow> first_number f ls)"

definition linesToSingleHunk :: "diff_line list \<Rightarrow> diff_hunk list" where
  "linesToSingleHunk lines =
     (if lines = [] then []
      else
        (let os = first_number oldNumber lines; ns = first_number newNumber lines;
             oc = length (filter (\<lambda>l. kind l \<noteq> Add) lines);
             nc = length (filter (\<lambda>l. kind l \<noteq> Remove) lines)
         in [\<lparr>oldStart = os, oldCount = oc, newStart = ns, newCount = nc,
              header = ''@@ -'' @ nat_str os @ '','' @ nat_str oc @ '' +'' @ nat_str ns @ '','' @ nat_str nc @ '' @@'',
              hunkLines = lines\<rparr>]))"

subsection \<open>The computed file diff\<close>

record diff_compute_input =
  in_filename :: string
  in_patch :: "string option"
  in_original :: "string option"
  in_modified :: "string option"
  in_options :: "partial_diff_options option"
  in_cacheKey :: "string option"

record computed_file_diff =
  cd_key :: string
  cd_filename :: string
  cd_variant :: diff_variant
  cd_state :: diff_compute_state
  cd_language :: language
  cd_hunks :: "diff_hunk list"
  cd_lines :: "diff_line list"
  cd_splitRows :: "diff_row list"
  cd_commentable :: "nat list \<times> nat list"
  cd_additions :: nat
  cd_deletions :: nat
  cd_error :: "string option"
  cd_computedAt :: nat
  cd_fromCache :: "bool option"

text \<open>\<open>Math.imul\<close> and \<open>| 0\<close> work modulo \<open>2\<^sup>3\<^sup>2\<close>; \<open>>>> 0\<close> reads the word as unsigned.\<close>

definition opt_length :: "string option \<Rightarrow> nat" where
  "opt_length s = (case s of Some t \<Rightarrow> length t | None \<Rightarrow> 0)"

definition hashFingerPrint :: "string option \<Rightarrow> string option \<Rightarrow> string option \<Rightarrow> string" where
  "hashFingerPrint patch original modified =
     (let raw = nat_str (opt_length patch) @ '':'' @ nat_str (opt_length original) @ '':'' @
                nat_str (opt_length modified) @ '':'' @ take 64 (case patch of Some p \<Rightarrow> p | None \<Rightarrow> []);
          h = foldl (\<lambda>h c. (31 :: 32 word) * h + word_of_nat (of_char c)) 0 raw
      in base_digits 36 (unat h))"

fun variant_name :: "diff_variant \<Rightarrow> string" where
  "variant_name Basic = ''basic''"
| "variant_name Structural = ''structural''"

text \<open>\<open>input.cacheKey ?? `${filename}::${variant}::${hashFingerPrint(...)}`\<close>.\<close>

definition diff_cache_key :: "diff_compute_input \<Rightarrow> diff_variant \<Rightarrow> string" where
  "diff_cache_key input v =
     (case in_cacheKey input of
        Some k \<Rightarrow> k
      | None \<Rightarrow> in_filename input @ ''::'' @ variant_name v @ ''::'' @
                 hashFingerPrint (in_patch input) (in_original input) (in_modified input))"

text \<open>The condition \<open>variant === "structural" && input.original != null && input.modified != null\<close>.\<close>

definition structural_sides :: "diff_compute_input \<Rightarrow> diff_variant \<Rightarrow> (string \<times> string) option" where
  "structural_sides input v =
     (case (v, in_original input, in_modified input) of
        (Structural, Some original, Some modified) \<Rightarrow> Some (original, modified)
      | _ \<Rightarrow> None)"

definition buildComputedFileDiff ::
  "diff_compute_input \<Rightarrow> diff_variant \<Rightarrow> diff_compute_state \<Rightarrow> nat \<Rightarrow> computed_file_diff" where
  "buildComputedFileDiff input v st now =
     (let opts = override_options (optionsForVariant v) (in_options input);
          sides = structural_sides input v;
          (hunks, lines) =
            (case sides of
               Some (original, modified) \<Rightarrow>
                 (let ls = computeStructuralLines original modified;
                      ls' = (if enableMoveDetection opts then detectMoves ls else ls)
                  in (linesToSingleHunk ls', ls'))
             | None \<Rightarrow>
                 (let hs = parsePatchHunks (in_patch input) in (hs, concat (map hunkLines hs))));
          lines' = (if collapseUnchangedAreas opts then collapseUnchanged lines 3 else lines);
          hunks' = (if collapseUnchangedAreas opts \<and> sides \<noteq> None then linesToSingleHunk lines' else hunks);
          (adds, dels) = countChanges lines'
      in \<lparr>cd_key = diff_cache_key input v, cd_filename = in_filename input, cd_variant = v, cd_state = st,
          cd_language = languageFromFilename (in_filename input), cd_hunks = hunks', cd_lines = lines',
          cd_splitRows = pairDiffLines lines', cd_commentable = commentableFromLines lines',
          cd_additions = adds, cd_deletions = dels, cd_error = None, cd_computedAt = now,
          cd_fromCache = None\<rparr>)"


text \<open>The path and the patch of a \<open>ReviewFile\<close> as an input.\<close>

definition reviewFileToInput ::
  "string \<Rightarrow> string option \<Rightarrow> (string option \<times> string option) option \<Rightarrow> diff_compute_input" where
  "reviewFileToInput path patch extras =
     \<lparr>in_filename = path, in_patch = patch,
      in_original = (case extras of Some (original, modified) \<Rightarrow> original | None \<Rightarrow> None),
      in_modified = (case extras of Some (original, modified) \<Rightarrow> modified | None \<Rightarrow> None),
      in_options = None, in_cacheKey = None\<rparr>"

text \<open>\<open>web/src/lib/diff-parser.ts\<close>: the patch of a file without the options and the cache.\<close>

record parsed_diff_file =
  pd_filename :: string
  pd_language :: language
  pd_hunks :: "diff_hunk list"
  pd_lines :: "diff_line list"
  pd_additions :: nat
  pd_deletions :: nat

definition parseDiffFile :: "string \<Rightarrow> string option \<Rightarrow> parsed_diff_file" where
  "parseDiffFile filename patch =
     (let hunks = parsePatchHunks patch;
          lines = concat (map hunkLines hunks);
          (adds, dels) = foldl (\<lambda>(adds, dels) line.
            (if kind line = Add then Suc adds else adds,
             if kind line = Remove then Suc dels else dels)) (0, 0) lines
      in \<lparr>pd_filename = filename, pd_language = languageFromFilename filename, pd_hunks = hunks,
          pd_lines = lines, pd_additions = adds, pd_deletions = dels\<rparr>)"

definition hasParseableDiff :: "string option \<Rightarrow> bool" where
  "hasParseableDiff patch = list_ex (\<lambda>hunk. length (hunkLines hunk) > 0) (parsePatchHunks patch)"

section \<open>The structural diff\<close>

text \<open>The line the loop pushes for a step of the walk; numbers are positions plus one.\<close>

fun emitted_line :: "string list \<Rightarrow> string list \<Rightarrow> walk_step \<Rightarrow> diff_line" where
  "emitted_line a b (Both i j) =
     \<lparr>kind = Context, content = a ! i, oldNumber = Some (Suc i), newNumber = Some (Suc j)\<rparr>"
| "emitted_line a b (OnlyA i) =
     \<lparr>kind = Remove, content = a ! i, oldNumber = Some (Suc i), newNumber = None\<rparr>"
| "emitted_line a b (OnlyB j) =
     \<lparr>kind = Add, content = b ! j, oldNumber = None, newNumber = Some (Suc j)\<rparr>"

definition read_table :: "'l::len word list list \<Rightarrow> nat \<Rightarrow> nat \<Rightarrow> nat" where
  "read_table t i j = unat (t ! i ! j)"

lemma word_le_read_table: "t ! i ! j \<le> t ! k ! l \<longleftrightarrow> read_table t i j \<le> read_table t k l"
  by (simp add: read_table_def word_le_nat_alt)

lemma lcs_walk_tail:
  "\<not> (i < length a \<and> j < length b) \<Longrightarrow>
     lcs_walk t a b i j = map OnlyA [i..<length a] @ map OnlyB [j..<length b]"
  by (subst lcs_walk.simps) (simp only: if_False)

lemma structural_walk_emits:
  "oldN = Suc i \<Longrightarrow> newN = Suc j \<Longrightarrow>
     structural_walk t a b i j oldN newN = map (emitted_line a b) (lcs_walk (read_table t) a b i j)"
proof (induction t a b i j oldN newN rule: structural_walk.induct)
  case (1 t a b i j oldN newN)
  show ?case
  proof (cases "i < length a \<and> j < length b")
    case True
    with 1 show ?thesis
      by (simp add: structural_walk.simps [of t a b i j] lcs_walk.simps [of "read_table t" a b i j]
          word_le_read_table)
  next
    case False
    with 1 show ?thesis
      by (cases "i < length a"; cases "j < length b")
        (simp_all add: structural_walk.simps [of t a b i j] lcs_walk_tail upt_conv_Cons)
  qed
qed

lemmas structural_walk_is_walk = structural_walk_emits [OF refl refl]

interpretation structural_table: lcs_table "\<lambda>a b. read_table (dp a b)" "2 ^ 32"
  by unfold_locales (simp add: read_table_def dp_def fill_table_lcs)

lemma lcs_walk_nothing: "lcs_walk t [] [] 0 0 = []"
  by (simp add: lcs_walk.simps)

lemma computeStructuralLines_walk:
  "computeStructuralLines original modified =
     (let a = text_lines original; b = text_lines modified
      in map (emitted_line a b) (lcs_walk (read_table (dp a b)) a b 0 0))"
  using structural_walk_is_walk [of "dp (text_lines original) (text_lines modified)"
      "text_lines original" "text_lines modified" 0 0]
  by (auto simp: computeStructuralLines_def Let_def lcs_walk_nothing)

lemma old_side_emitted:
  "filter (\<lambda>l. kind l \<noteq> Add) (map (emitted_line a b) ss) =
     map (emitted_line a b) (filter (\<lambda>s. step_a s \<noteq> []) ss)"
proof (induction ss)
  case (Cons s ss)
  then show ?case by (cases s) auto
qed simp

lemma new_side_emitted:
  "filter (\<lambda>l. kind l \<noteq> Remove) (map (emitted_line a b) ss) =
     map (emitted_line a b) (filter (\<lambda>s. step_b s \<noteq> []) ss)"
proof (induction ss)
  case (Cons s ss)
  then show ?case by (cases s) auto
qed simp

lemma emitted_old:
  "map (\<lambda>l. (content l, oldNumber l)) (map (emitted_line a b) (filter (\<lambda>s. step_a s \<noteq> []) ss)) =
     map (\<lambda>i. (a ! i, Some (Suc i))) (concat (map step_a ss))"
proof (induction ss)
  case (Cons s ss)
  then show ?case by (cases s) auto
qed simp

lemma emitted_new:
  assumes "\<And>p q. Both p q \<in> set ss \<Longrightarrow> a ! p = b ! q"
  shows "map (\<lambda>l. (content l, newNumber l)) (map (emitted_line a b) (filter (\<lambda>s. step_b s \<noteq> []) ss)) =
     map (\<lambda>j. (b ! j, Some (Suc j))) (concat (map step_b ss))"
  using assms
proof (induction ss)
  case (Cons s ss)
  then show ?case by (cases s) auto
qed simp

text \<open>Both sides of a structural diff, texts and numbers together.\<close>

lemma structural_old_side:
  "map (\<lambda>l. (content l, oldNumber l)) (filter (\<lambda>l. kind l \<noteq> Add) (computeStructuralLines original modified)) =
     map (\<lambda>i. (text_lines original ! i, Some (Suc i))) [0..<length (text_lines original)]"
  by (simp add: computeStructuralLines_walk Let_def old_side_emitted emitted_old lcs_walk_a del: map_map)

lemma structural_new_side:
  "map (\<lambda>l. (content l, newNumber l)) (filter (\<lambda>l. kind l \<noteq> Remove) (computeStructuralLines original modified)) =
     map (\<lambda>j. (text_lines modified ! j, Some (Suc j))) [0..<length (text_lines modified)]"
  unfolding computeStructuralLines_walk Let_def new_side_emitted
  by (subst emitted_new) (auto simp: lcs_walk_b dest: lcs_walk_both simp del: map_map)

lemma map_fst_snd_eq:
  assumes "map (\<lambda>l. (f l, g l)) ls = map (\<lambda>i. (xs ! i, Some (Suc i))) [0..<length xs]"
  shows "map f ls = xs" and "map g ls = map Some [1..<Suc (length xs)]"
proof -
  have "map fst (map (\<lambda>l. (f l, g l)) ls) = map fst (map (\<lambda>i. (xs ! i, Some (Suc i))) [0..<length xs])"
    using assms by simp
  then show "map f ls = xs" by (simp add: comp_def map_nth)
  have "map snd (map (\<lambda>l. (f l, g l)) ls) = map snd (map (\<lambda>i. (xs ! i, Some (Suc i))) [0..<length xs])"
    using assms by simp
  then have "map g ls = map (\<lambda>i. Some (Suc i)) [0..<length xs]" by (simp add: comp_def)
  also have "\<dots> = map Some (map Suc [0..<length xs])" by (simp add: comp_def)
  finally show "map g ls = map Some [1..<Suc (length xs)]" by (simp add: map_Suc_upt)
qed

text \<open>The text without the one final newline the source strips.\<close>

definition without_final_newline :: "string \<Rightarrow> string" where
  "without_final_newline t = (if t \<noteq> [] \<and> last t = newline then butlast t else t)"

lemma join_text_lines: "join_with [newline] (text_lines t) = without_final_newline t"
  by (simp add: text_lines_def without_final_newline_def join_split)

text \<open>
  C1. The structural diff reconstructs both texts: its lines that are not additions, joined by
  newlines, are the original, and its lines that are not removals are the modified text, each up to
  one final newline.
\<close>

theorem structural_reconstructs:
  "join_with [newline] (map content (filter (\<lambda>l. kind l \<noteq> Add) (computeStructuralLines original modified)))
     = without_final_newline original \<and>
   join_with [newline] (map content (filter (\<lambda>l. kind l \<noteq> Remove) (computeStructuralLines original modified)))
     = without_final_newline modified"
  using map_fst_snd_eq(1) [OF structural_old_side [of original modified]]
    map_fst_snd_eq(1) [OF structural_new_side [of original modified]]
  by (simp add: join_text_lines)


lemma length_context_emitted:
  "length (filter (\<lambda>l. kind l = Context) (map (emitted_line a b) ss)) = length (filter is_both ss)"
proof (induction ss)
  case (Cons s ss)
  then show ?case by (cases s) auto
qed simp

text \<open>
  C2. The structural diff is minimal: no common subsequence of the two line sequences is longer than
  the lines the diff keeps as context, as long as the number of lines of the original fits the 32-bit
  table cells.
\<close>

theorem structural_minimal:
  assumes "length (text_lines original) < 2 ^ 32"
    and "subseq zs (text_lines original)" and "subseq zs (text_lines modified)"
  shows "length zs \<le> length (filter (\<lambda>l. kind l = Context) (computeStructuralLines original modified))"
  unfolding computeStructuralLines_walk Let_def length_context_emitted
  by (rule structural_table.walk_optimal [OF assms])

definition sample_original :: string where
  "sample_original = ''a'' @ [newline] @ ''b'' @ [newline] @ ''c'' @ [newline]"

definition sample_modified :: string where
  "sample_modified = ''b'' @ [newline] @ ''d'' @ [newline] @ ''c''"

lemma sample_lines:
  "text_lines sample_original = [''a'', ''b'', ''c'']" "text_lines sample_modified = [''b'', ''d'', ''c'']"
  by code_simp+

theorem structural_minimal_witness:
  "length [''b'', ''c'']
     \<le> length (filter (\<lambda>l. kind l = Context) (computeStructuralLines sample_original sample_modified))"
proof (rule structural_minimal)
  show "length (text_lines sample_original) < 2 ^ 32" by (simp add: sample_lines)
  show "subseq [''b'', ''c''] (text_lines sample_original)" unfolding sample_lines by code_simp
  show "subseq [''b'', ''c''] (text_lines sample_modified)" unfolding sample_lines by code_simp
qed

text \<open>
  The line numbers of a structural diff count each side without gaps: the lines that are not
  additions carry the old numbers 1, 2, up to the number of lines of the original, in this order, the
  lines that are not removals the new numbers of the modified text.
\<close>

theorem structural_numbers:
  "map oldNumber (filter (\<lambda>l. kind l \<noteq> Add) (computeStructuralLines original modified))
     = map Some [1..<Suc (length (text_lines original))] \<and>
   map newNumber (filter (\<lambda>l. kind l \<noteq> Remove) (computeStructuralLines original modified))
     = map Some [1..<Suc (length (text_lines modified))]"
  using map_fst_snd_eq(2) [OF structural_old_side [of original modified]]
    map_fst_snd_eq(2) [OF structural_new_side [of original modified]]
  by simp

section \<open>Pairing\<close>

definition column :: "('r \<Rightarrow> 'a option) \<Rightarrow> 'r list \<Rightarrow> 'a list" where
  "column side rows = concat (map (\<lambda>r. case side r of Some l \<Rightarrow> [l] | None \<Rightarrow> []) rows)"

lemma column_simps [simp]:
  "column side [] = []"
  "column side (r # rs) = (case side r of Some l \<Rightarrow> [l] | None \<Rightarrow> []) @ column side rs"
  "column side (rs @ rs') = column side rs @ column side rs'"
  by (simp_all add: column_def)

lemma column_nth_opt:
  assumes "length xs \<le> n" and "\<And>i. side (f i) = nth_opt xs i"
  shows "column side (map f [0..<n]) = xs"
proof -
  have "column side (map f [0..<m]) = take m xs" for m
    by (induction m) (simp_all add: assms(2) nth_opt_def take_Suc_conv_app_nth)
  with assms(1) show ?thesis by simp
qed

lemma pair_rows_columns:
  "column fst (pair_rows removed added) = removed" "column snd (pair_rows removed added) = added"
  unfolding pair_rows_def by (rule column_nth_opt; simp)+

lemma filter_takeWhile_kind:
  "filter P xs = filter P (takeWhile Q xs) @ filter P (dropWhile Q xs)"
  using filter_append [of P "takeWhile Q xs" "dropWhile Q xs"] by simp

lemma filter_takeWhile_simps:
  "filter (\<lambda>l. kind l \<noteq> Add) (takeWhile (\<lambda>l. kind l = Remove) ls) = takeWhile (\<lambda>l. kind l = Remove) ls"
  "filter (\<lambda>l. kind l \<noteq> Add) (takeWhile (\<lambda>l. kind l = Add) ls) = []"
  "filter (\<lambda>l. kind l \<noteq> Remove) (takeWhile (\<lambda>l. kind l = Remove) ls) = []"
  "filter (\<lambda>l. kind l \<noteq> Remove) (takeWhile (\<lambda>l. kind l = Add) ls) = takeWhile (\<lambda>l. kind l = Add) ls"
  by (induction ls) auto

lemma pair_block_filter:
  fixes lines :: "diff_line list"
  defines "afterRemoved \<equiv> dropWhile (\<lambda>l. kind l = Remove) lines"
  defines "afterAdded \<equiv> dropWhile (\<lambda>l. kind l = Add) afterRemoved"
  shows "filter (\<lambda>l. kind l \<noteq> Add) lines =
           takeWhile (\<lambda>l. kind l = Remove) lines @ filter (\<lambda>l. kind l \<noteq> Add) afterAdded"
    and "filter (\<lambda>l. kind l \<noteq> Remove) lines =
           takeWhile (\<lambda>l. kind l = Add) afterRemoved @ filter (\<lambda>l. kind l \<noteq> Remove) afterAdded"
  unfolding afterAdded_def afterRemoved_def
  by (subst filter_takeWhile_kind [of _ lines "\<lambda>l. kind l = Remove"],
      subst filter_takeWhile_kind [of _ "dropWhile (\<lambda>l. kind l = Remove) lines" "\<lambda>l. kind l = Add"],
      simp add: filter_takeWhile_simps)+

lemma pairDiffLines_columns:
  "column fst (pairDiffLines lines) = filter (\<lambda>l. kind l \<noteq> Add) lines \<and>
   column snd (pairDiffLines lines) = filter (\<lambda>l. kind l \<noteq> Remove) lines"
proof (induction lines rule: pairDiffLines.induct)
  case (2 line rest)
  show ?case
  proof (cases "kind line = Context")
    case True
    with 2 show ?thesis by simp
  next
    case False
    show ?thesis
      using 2(2) [OF False refl refl refl refl] False
      by (simp add: pair_block_filter [of "line # rest"] pair_rows_columns Let_def
          del: takeWhile.simps dropWhile.simps filter.simps)
  qed
qed simp


text \<open>What a row may hold: a context line on both sides, or a removal against an addition or a gap.\<close>

fun row_ok :: "diff_row \<Rightarrow> bool" where
  "row_ok (Some l, Some r) \<longleftrightarrow> (kind l = Context \<and> l = r) \<or> (kind l = Remove \<and> kind r = Add)"
| "row_ok (Some l, None) \<longleftrightarrow> kind l = Remove"
| "row_ok (None, Some r) \<longleftrightarrow> kind r = Add"
| "row_ok (None, None) \<longleftrightarrow> False"

lemma pair_rows_ok:
  "list_all row_ok (pair_rows (takeWhile (\<lambda>l. kind l = Remove) xs) (takeWhile (\<lambda>l. kind l = Add) ys))"
proof -
  have "kind (takeWhile (\<lambda>l. kind l = Remove) xs ! i) = Remove"
    if "i < length (takeWhile (\<lambda>l. kind l = Remove) xs)" for i
    using nth_mem [OF that] set_takeWhileD by fastforce
  moreover have "kind (takeWhile (\<lambda>l. kind l = Add) ys ! i) = Add"
    if "i < length (takeWhile (\<lambda>l. kind l = Add) ys)" for i
    using nth_mem [OF that] set_takeWhileD by fastforce
  ultimately show ?thesis by (auto simp: pair_rows_def list_all_iff nth_opt_def)
qed

lemma pairDiffLines_rows: "list_all row_ok (pairDiffLines lines)"
proof (induction lines rule: pairDiffLines.induct)
  case (2 line rest)
  then show ?case
    by (auto simp: Let_def pair_rows_ok simp del: takeWhile.simps dropWhile.simps)
qed simp

text \<open>
  C28. The side-by-side view shows every line once on its side and in order: the left column is the
  diff without its additions, the right column the diff without its removals, and each row shows the
  same context line twice, or a removal against an addition or a gap.
\<close>

theorem pairDiffLines_correct:
  "column fst (pairDiffLines lines) = filter (\<lambda>l. kind l \<noteq> Add) lines \<and>
   column snd (pairDiffLines lines) = filter (\<lambda>l. kind l \<noteq> Remove) lines \<and>
   list_all row_ok (pairDiffLines lines)"
  using pairDiffLines_columns pairDiffLines_rows by blast

section \<open>Collapsing\<close>

text \<open>The positions at most \<open>k\<close> away from a changed line.\<close>

definition near_change :: "diff_line list \<Rightarrow> nat \<Rightarrow> nat set" where
  "near_change lines k = {i. \<exists>c < length lines. kind (lines ! c) \<noteq> Context \<and> c \<le> i + k \<and> i \<le> c + k}"

lemma in_set_concat_if:
  "x \<in> set (concat (map (\<lambda>i. if P i then f i else []) [0..<n])) \<longleftrightarrow> (\<exists>c < n. P c \<and> x \<in> set (f c))"
  by (induction n) (auto simp: less_Suc_eq)

lemma near_range:
  "(c :: nat) < n \<Longrightarrow> i \<in> set [c - k..<Suc (min (n - 1) (c + k))] \<longleftrightarrow> c \<le> i + k \<and> i \<le> c + k \<and> i < n"
  by auto

lemma set_kept_indices: "set (kept_indices lines k) = near_change lines k \<inter> {..<length lines}"
proof -
  have "i \<in> set (kept_indices lines k) \<longleftrightarrow>
      (\<exists>c < length lines. kind (lines ! c) \<noteq> Context \<and>
        i \<in> set [c - k..<Suc (min (length lines - 1) (c + k))])" for i
    unfolding kept_indices_def by (rule in_set_concat_if)
  then have "i \<in> set (kept_indices lines k) \<longleftrightarrow> i \<in> near_change lines k \<and> i < length lines" for i
    unfolding near_change_def mem_Collect_eq using near_range by meson
  then show ?thesis by blast
qed

lemma filter_upt_nths: "map ((!) xs) (filter (\<lambda>i. i \<in> I) [0..<length xs]) = nths xs I"
proof (induction xs rule: rev_induct)
  case (snoc x xs)
  have "map ((!) (xs @ [x])) (filter (\<lambda>i. i \<in> I) [0..<length xs]) =
      map ((!) xs) (filter (\<lambda>i. i \<in> I) [0..<length xs])"
    by (rule map_cong) (auto simp: nth_append)
  with snoc show ?case by (simp add: nths_append)
qed simp

lemma nths_bounded: "nths xs (I \<inter> {..<length xs}) = nths xs I"
  unfolding nths_def by (rule arg_cong [where f = "map fst"], rule filter_cong) (auto dest: set_zip_rightD)

lemma collapse_shortcut:
  assumes "length (js_uniq ks) = length lines" and "set ks \<subseteq> {..<length lines}"
  shows "set ks = {..<length lines}"
proof -
  have "card (set ks) = length lines"
    using assms(1) distinct_card [OF distinct_js_uniq [of ks]] by simp
  then show ?thesis using assms(2) by (intro card_subset_eq) auto
qed

lemma nths_near: "nths lines (near_change lines keepContext) = collapseUnchanged lines keepContext"
proof -
  let ?keep = "kept_indices lines keepContext"
  have near: "nths lines (set ?keep) = nths lines (near_change lines keepContext)"
    by (simp add: set_kept_indices nths_bounded)
  show ?thesis
  proof (cases "length (js_uniq ?keep) = length lines")
    case True
    then have "set ?keep = {..<length lines}"
      by (rule collapse_shortcut) (simp add: set_kept_indices)
    then have "nths lines (set ?keep) = lines" by (simp add: nths_all)
    with True near show ?thesis by (simp add: collapseUnchanged_def Let_def)
  next
    case False
    then have "collapseUnchanged lines keepContext = nths lines (set ?keep)"
      by (auto simp: collapseUnchanged_def Let_def filter_upt_nths)
    with near show ?thesis by simp
  qed
qed

text \<open>
  C30. Collapsing keeps exactly the lines at most \<open>keepContext\<close> positions away from an added or removed
  line, in their order.
\<close>

theorem collapseUnchanged_near:
  "collapseUnchanged lines keepContext = nths lines (near_change lines keepContext)"
  by (rule nths_near [symmetric])

lemma countChanges_from:
  "foldl (\<lambda>(additions, deletions) line.
            (if kind line = Add then Suc additions else additions,
             if kind line = Remove then Suc deletions else deletions)) (p, q) lines =
     (p + length (filter (\<lambda>l. kind l = Add) lines), q + length (filter (\<lambda>l. kind l = Remove) lines))"
  by (induction lines arbitrary: p q) auto

lemma countChanges_counts:
  "countChanges lines = (length (filter (\<lambda>l. kind l = Add) lines), length (filter (\<lambda>l. kind l = Remove) lines))"
  by (simp add: countChanges_def countChanges_from)

lemma nths_keeps_filter:
  "(\<And>i. i < length xs \<Longrightarrow> P (xs ! i) \<Longrightarrow> i \<in> I) \<Longrightarrow> filter P (nths xs I) = filter P xs"
proof (induction xs arbitrary: I)
  case (Cons x xs)
  have "filter P (nths xs {j. Suc j \<in> I}) = filter P xs"
  proof (rule Cons.IH)
    fix i
    assume "i < length xs" and "P (xs ! i)"
    with Cons.prems [of "Suc i"] show "i \<in> {j. Suc j \<in> I}" by simp
  qed
  with Cons.prems [of 0] show ?case by (simp add: nths_Cons)
qed simp

lemma collapse_keeps_changes:
  "filter (\<lambda>l. kind l \<noteq> Context) (nths lines (near_change lines k)) = filter (\<lambda>l. kind l \<noteq> Context) lines"
  by (rule nths_keeps_filter) (auto simp: near_change_def)


section \<open>Patches\<close>

subsection \<open>Hunk headers\<close>

definition header_text :: "nat \<Rightarrow> nat \<Rightarrow> nat \<Rightarrow> nat \<Rightarrow> string" where
  "header_text os oc ns nc =
     ''@@ -'' @ nat_str os @ '','' @ nat_str oc @ '' +'' @ nat_str ns @ '','' @ nat_str nc @ '' @@''"

lemma not_digits: "\<not> is_digit (CHR '','')" "\<not> is_digit (CHR '' '')"
  by code_simp+

lemma read_count_comma:
  assumes "r = [] \<or> \<not> is_digit (hd r)"
  shows "read_count ('','' @ nat_str n @ r) = (Some n, r)"
  using read_number_nat_str [OF assms] by (simp add: read_count_def)

lemma match_header_at_text: "match_header_at (header_text os oc ns nc @ r) = Some (os, Some oc, ns, Some nc)"
proof -
  have number: "read_number (nat_str n @ '','' @ r) = Some (n, '','' @ r)" for n r
    by (rule read_number_nat_str) (simp add: not_digits)
  have count_old: "read_count ('','' @ nat_str n @ '' +'' @ r) = (Some n, '' +'' @ r)" for n r
    by (rule read_count_comma) (simp add: not_digits)
  have count_new: "read_count ('','' @ nat_str n @ '' @@'' @ r) = (Some n, '' @@'' @ r)" for n r
    by (rule read_count_comma) (simp add: not_digits)
  show ?thesis
    unfolding match_header_at_def header_text_def append_assoc
    by (simp only: strip_prefix_append number count_old count_new option.case prod.case)
qed

lemma header_text_start: "\<exists>r. header_text os oc ns nc = CHR ''@'' # CHR ''@'' # r"
  by (simp add: header_text_def)

lemma match_header_text: "match_header (header_text os oc ns nc @ r) = Some (os, Some oc, ns, Some nc)"
proof -
  obtain c t where "header_text os oc ns nc @ r = c # t"
    using header_text_start [of os oc ns nc] by fastforce
  then show ?thesis using match_header_at_text [of os oc ns nc r] by simp
qed

subsection \<open>Numbering\<close>

text \<open>The lines of a hunk carry consecutive numbers from the hunk's starts.\<close>

fun numbered :: "nat \<Rightarrow> nat \<Rightarrow> diff_line list \<Rightarrow> bool" where
  "numbered os ns [] \<longleftrightarrow> True"
| "numbered os ns (l # ls) \<longleftrightarrow>
     (case kind l of
        Add \<Rightarrow> oldNumber l = None \<and> newNumber l = Some ns \<and> numbered os (Suc ns) ls
      | Remove \<Rightarrow> oldNumber l = Some os \<and> newNumber l = None \<and> numbered (Suc os) ns ls
      | Context \<Rightarrow> oldNumber l = Some os \<and> newNumber l = Some ns \<and> numbered (Suc os) (Suc ns) ls)"

definition old_length :: "diff_line list \<Rightarrow> nat" where
  "old_length ls = length (filter (\<lambda>l. kind l \<noteq> Add) ls)"

definition new_length :: "diff_line list \<Rightarrow> nat" where
  "new_length ls = length (filter (\<lambda>l. kind l \<noteq> Remove) ls)"

lemma numbered_snoc:
  "numbered os ns (ls @ [l]) \<longleftrightarrow> numbered os ns ls \<and> numbered (os + old_length ls) (ns + new_length ls) [l]"
proof (induction ls arbitrary: os ns)
  case (Cons x ls)
  then show ?case by (cases "kind x"; cases "kind l") (auto simp: old_length_def new_length_def)
qed (simp add: old_length_def new_length_def)

definition hunk_numbered :: "diff_hunk \<Rightarrow> bool" where
  "hunk_numbered h \<longleftrightarrow> numbered (oldStart h) (newStart h) (hunkLines h)"

text \<open>The invariant of the parser's loop: the counters stand after the last line of the open hunk.\<close>

definition parse_inv :: "parse_state \<Rightarrow> bool" where
  "parse_inv st \<longleftrightarrow>
     list_all hunk_numbered (parsedHunks st) \<and>
     (parsedHunks st \<noteq> [] \<longrightarrow>
        nextOld st = oldStart (last (parsedHunks st)) + old_length (hunkLines (last (parsedHunks st))) \<and>
        nextNew st = newStart (last (parsedHunks st)) + new_length (hunkLines (last (parsedHunks st))))"

lemma open_hunk_nonempty [simp]: "parsedHunks (open_hunk h st) \<noteq> []"
  by (simp add: open_hunk_def)

lemma parse_inv_open: "parse_inv st \<Longrightarrow> hunkLines h = [] \<Longrightarrow> parse_inv (open_hunk h st)"
  by (simp add: parse_inv_def open_hunk_def hunk_numbered_def old_length_def new_length_def)

lemma parse_inv_body:
  assumes "parse_inv st" and "parsedHunks st \<noteq> []"
  shows "parse_inv (body_line raw st)"
proof -
  from assms(2) obtain hs h where hs: "parsedHunks st = hs @ [h]" by (metis rev_exhaust)
  with assms(1) have "list_all hunk_numbered hs" "hunk_numbered h"
    "nextOld st = oldStart h + old_length (hunkLines h)" "nextNew st = newStart h + new_length (hunkLines h)"
    by (simp_all add: parse_inv_def)
  then show ?thesis
    by (simp add: body_line_def push_line_def parse_inv_def hs hunk_numbered_def numbered_snoc
        old_length_def new_length_def)
qed

lemma parse_inv_line: "parse_inv st \<Longrightarrow> parse_inv (parse_line st raw)"
  unfolding parse_line_def
  by (auto intro!: parse_inv_open parse_inv_body simp: synthetic_hunk_def
      split: option.split)

lemma parse_inv_lines: "parse_inv st \<Longrightarrow> parse_inv (foldl parse_line st raws)"
  by (induction raws arbitrary: st) (auto intro: parse_inv_line)

text \<open>
  C37. Whatever the patch, the lines of every parsed hunk are numbered without gaps from the starts of
  its header: removals and context count the old side, additions and context the new side.
\<close>

theorem parsePatchHunks_numbered: "list_all hunk_numbered (parsePatchHunks patch)"
proof -
  have "parse_inv \<lparr>parsedHunks = [], nextOld = 0, nextNew = 0\<rparr>" by (simp add: parse_inv_def)
  then have "parse_inv (foldl parse_line \<lparr>parsedHunks = [], nextOld = 0, nextNew = 0\<rparr> raws)" for raws
    by (rule parse_inv_lines)
  then show ?thesis by (auto simp: parsePatchHunks_def parse_inv_def split: option.split)
qed


subsection \<open>Printing and parsing\<close>

fun sign :: "diff_line_kind \<Rightarrow> char" where
  "sign Add = CHR ''+''"
| "sign Remove = CHR ''-''"
| "sign Context = CHR '' ''"

definition print_line :: "diff_line \<Rightarrow> string" where
  "print_line l = sign (kind l) # content l"

definition print_hunk :: "diff_hunk \<Rightarrow> string list" where
  "print_hunk h = header h # map print_line (hunkLines h)"

definition print_patch :: "diff_hunk list \<Rightarrow> string" where
  "print_patch hs = join_with [newline] (concat (map print_hunk hs))"

text \<open>
  A line that survives printing: its text is one line, and with its sign it does not look like the
  file header lines \<open>---\<close> and \<open>+++\<close>.
\<close>

definition printable_line :: "diff_line \<Rightarrow> bool" where
  "printable_line l \<longleftrightarrow>
     newline \<notin> set (content l) \<and>
     \<not> (kind l = Remove \<and> starts_with (content l) ''-- '') \<and>
     \<not> (kind l = Add \<and> starts_with (content l) ''++ '')"

definition printable_hunk :: "diff_hunk \<Rightarrow> bool" where
  "printable_hunk h \<longleftrightarrow>
     hunk_numbered h \<and> list_all printable_line (hunkLines h) \<and> newline \<notin> set (header h) \<and>
     starts_with (header h) (header_text (oldStart h) (oldCount h) (newStart h) (newCount h))"

lemma parse_printed_header:
  assumes "printable_hunk h"
  shows "parse_line st (header h) = open_hunk (h\<lparr>hunkLines := []\<rparr>) st"
proof -
  from assms obtain r
    where r: "header h = header_text (oldStart h) (oldCount h) (newStart h) (newCount h) @ r"
    by (auto simp: printable_hunk_def prefix_def)
  then have "match_header (header h) = Some (oldStart h, Some (oldCount h), newStart h, Some (newCount h))"
    by (simp add: match_header_text)
  moreover have "starts_with (header h) ''@@''" "header h \<noteq> []"
    using header_text_start [of "oldStart h" "oldCount h" "newStart h" "newCount h"] r by auto
  ultimately show ?thesis
    by (cases h) (simp add: parse_line_def)
qed

lemma printed_not_skipped: "printable_line l \<Longrightarrow> \<not> skipped_line (print_line l)"
  by (cases "kind l") (auto simp: printable_line_def skipped_line_def print_line_def)

lemma print_line_nonempty [simp]: "print_line l \<noteq> []"
  by (simp add: print_line_def)

lemma printed_not_header: "\<not> starts_with (print_line l) ''@@''"
  by (cases "kind l") (auto simp: print_line_def)

lemma parse_printed_body:
  assumes "numbered (nextOld st) (nextNew st) (l # ls)"
  shows "body_line (print_line l) st =
     (push_line l st)\<lparr>nextOld := nextOld st + old_length [l], nextNew := nextNew st + new_length [l]\<rparr>"
  using assms
  by (cases l; cases "kind l")
    (simp_all add: body_line_def print_line_def push_line_def old_length_def new_length_def)

lemma parse_printed_lines:
  assumes "list_all printable_line ls" and "numbered (nextOld st) (nextNew st) ls"
    and "parsedHunks st = hs @ [h]"
  shows "parsedHunks (foldl parse_line st (map print_line ls)) = hs @ [h\<lparr>hunkLines := hunkLines h @ ls\<rparr>]"
  using assms
proof (induction ls arbitrary: st h)
  case (Cons l ls)
  define st' where "st' = (push_line l st)\<lparr>nextOld := nextOld st + old_length [l],
    nextNew := nextNew st + new_length [l]\<rparr>"
  have "parse_line st (print_line l) = st'"
    using Cons.prems printed_not_skipped [of l] printed_not_header [of l] parse_printed_body [of st l ls]
    by (simp add: parse_line_def st'_def del: numbered.simps)
  moreover have "numbered (nextOld st') (nextNew st') ls"
    using Cons.prems by (cases "kind l") (simp_all add: st'_def old_length_def new_length_def)
  moreover have "parsedHunks st' = hs @ [h\<lparr>hunkLines := hunkLines h @ [l]\<rparr>]"
    using Cons.prems by (simp add: st'_def push_line_def)
  ultimately show ?case using Cons.IH [of st'] Cons.prems(1) by simp
qed simp

lemma parse_printed_hunks:
  "list_all printable_hunk hs \<Longrightarrow>
     parsedHunks (foldl parse_line st (concat (map print_hunk hs))) = parsedHunks st @ hs"
proof (induction hs arbitrary: st)
  case (Cons h hs)
  have open_h: "parse_line st (header h) = open_hunk (h\<lparr>hunkLines := []\<rparr>) st"
    using Cons.prems by (simp add: parse_printed_header)
  have "parsedHunks (foldl parse_line (open_hunk (h\<lparr>hunkLines := []\<rparr>) st) (map print_line (hunkLines h)))
      = parsedHunks st @ [h]"
    by (subst parse_printed_lines [where hs = "parsedHunks st" and h = "h\<lparr>hunkLines := []\<rparr>"])
      (use Cons.prems in \<open>simp_all add: open_hunk_def printable_hunk_def hunk_numbered_def\<close>)
  with open_h Cons show ?case by (simp add: print_hunk_def)
qed simp


lemma printed_one_line: "printable_line l \<Longrightarrow> newline \<notin> set (print_line l)"
  by (cases "kind l") (auto simp: printable_line_def print_line_def newline_def)

lemma printed_hunks_one_line:
  "list_all printable_hunk hs \<Longrightarrow> \<forall>p \<in> set (concat (map print_hunk hs)). newline \<notin> set p"
  by (auto simp: list_all_iff print_hunk_def printable_hunk_def dest!: printed_one_line)

lemma printed_patch_nonempty:
  assumes "hs \<noteq> []" and "list_all printable_hunk hs"
  shows "print_patch hs \<noteq> []"
proof -
  from assms obtain h hs' where "hs = h # hs'" "printable_hunk h" by (cases hs) auto
  moreover from this(2) have "header h \<noteq> []"
    using header_text_start [of "oldStart h" "oldCount h" "newStart h" "newCount h"]
    by (auto simp: printable_hunk_def)
  ultimately show ?thesis
    by (cases "map print_line (hunkLines h) @ concat (map print_hunk hs')")
      (simp_all add: print_patch_def print_hunk_def)
qed

text \<open>
  C7. Parsing a printed patch gives back its hunks, when every hunk has its header in the unified
  format, its lines are numbered from the header's starts and no removed text starts with \<open>-- \<close> and no
  added text with \<open>++ \<close>.
\<close>

theorem parse_print_patch:
  assumes "list_all printable_hunk hs"
  shows "parsePatchHunks (Some (print_patch hs)) = hs"
proof (cases "hs = []")
  case True
  then show ?thesis by (simp add: parsePatchHunks_def print_patch_def)
next
  case False
  then have "split_on newline (print_patch hs) = concat (map print_hunk hs)"
    unfolding print_patch_def
    by (intro split_join printed_hunks_one_line [OF assms]) (cases hs; simp add: print_hunk_def)
  then show ?thesis
    using printed_patch_nonempty [OF False assms] parse_printed_hunks [OF assms]
    by (simp add: parsePatchHunks_def)
qed

definition sample_hunk :: diff_hunk where
  "sample_hunk =
     \<lparr>oldStart = 3, oldCount = 2, newStart = 12, newCount = 2, header = ''@@ -3,2 +12,2 @@ main'',
      hunkLines =
        [\<lparr>kind = Context, content = ''x'', oldNumber = Some 3, newNumber = Some 12\<rparr>,
         \<lparr>kind = Remove, content = ''y'', oldNumber = Some 4, newNumber = None\<rparr>,
         \<lparr>kind = Add, content = ''z'', oldNumber = None, newNumber = Some 13\<rparr>]\<rparr>"

theorem parse_print_patch_witness:
  "parsePatchHunks (Some (print_patch [sample_hunk, sample_hunk])) = [sample_hunk, sample_hunk]"
  by (rule parse_print_patch) code_simp

text \<open>
  A removed line whose text starts with two dashes and a blank (a comment of SQL, Lua or Haskell)
  is taken for a file header: the parser drops it and does not advance the old line number, so every
  later removal and context line of the hunk is numbered one too low.
\<close>

theorem dropped_removal:
  "parse_line st (print_line \<lparr>kind = Remove, content = ''-- '' @ t, oldNumber = n, newNumber = None\<rparr>) = st"
  by (simp add: parse_line_def print_line_def skipped_line_def)


section \<open>The computed file diff\<close>

lemma sort_js_uniq: "sort (js_uniq xs) = sorted_list_of_set (set (xs :: nat list))"
  using sorted_list_of_set_sort_remdups [of "js_uniq xs"]
  by (simp add: distinct_js_uniq distinct_remdups_id)

text \<open>The shown line numbers of one side.\<close>

definition shown_numbers :: "diff_line_kind \<Rightarrow> (diff_line \<Rightarrow> nat option) \<Rightarrow> diff_line list \<Rightarrow> nat set" where
  "shown_numbers other f lines = {n. \<exists>l \<in> set lines. kind l \<noteq> other \<and> f l = Some n}"

lemma not_kind:
  "kind l = Remove \<or> kind l = Context \<longleftrightarrow> kind l \<noteq> Add" "kind l = Add \<or> kind l = Context \<longleftrightarrow> kind l \<noteq> Remove"
  by (cases "kind l"; simp)+

lemma set_numbers:
  "set (concat (map (\<lambda>l. if kind l \<noteq> k then (case f l of Some n \<Rightarrow> [n] | None \<Rightarrow> []) else []) lines)) =
     shown_numbers k f lines"
  by (auto simp: shown_numbers_def split: option.splits if_splits)

lemma commentable_numbers:
  "commentableFromLines lines =
     (sorted_list_of_set (shown_numbers Add oldNumber lines),
      sorted_list_of_set (shown_numbers Remove newNumber lines))"
  unfolding commentableFromLines_def Let_def not_kind sort_js_uniq set_numbers ..

text \<open>The lines of a diff before collapsing.\<close>

definition uncollapsed :: "diff_compute_input \<Rightarrow> diff_variant \<Rightarrow> diff_line list" where
  "uncollapsed input v =
     (case structural_sides input v of
        Some (original, modified) \<Rightarrow> computeStructuralLines original modified
      | None \<Rightarrow> concat (map hunkLines (parsePatchHunks (in_patch input))))"

lemma build_lines:
  "cd_lines (buildComputedFileDiff input v st now) =
     (if collapseUnchangedAreas (override_options (optionsForVariant v) (in_options input))
      then collapseUnchanged (uncollapsed input v) 3 else uncollapsed input v)"
  by (simp add: buildComputedFileDiff_def Let_def uncollapsed_def detectMoves_def
      split: option.split prod.split)

lemma build_fields:
  fixes input v st now
  defines "d \<equiv> buildComputedFileDiff input v st now"
  shows "(cd_additions d, cd_deletions d) = countChanges (cd_lines d)"
    and "cd_splitRows d = pairDiffLines (cd_lines d)"
    and "cd_commentable d = commentableFromLines (cd_lines d)"
    and "cd_key d = diff_cache_key input v" and "cd_state d = st" and "cd_variant d = v"
  unfolding d_def by (simp_all add: buildComputedFileDiff_def Let_def split: option.split prod.split)

lemma collapse_counts:
  "length (filter (\<lambda>l. kind l = k) (collapseUnchanged lines 3)) = length (filter (\<lambda>l. kind l = k) lines)"
  if "k \<noteq> Context"
proof -
  have "filter (\<lambda>l. kind l = k) ls = filter (\<lambda>l. kind l = k) (filter (\<lambda>l. kind l \<noteq> Context) ls)" for ls
    using that by (induction ls) auto
  then show ?thesis using collapse_keeps_changes [of lines 3] nths_near [of lines 3] by metis
qed

text \<open>
  A computed file diff is consistent: its counts are those of the whole diff, also after unchanged
  areas were collapsed, its rows are the pairing of the lines it shows, and the lines that can be
  commented on are, in increasing order, the numbers of the lines it shows.
\<close>

theorem buildComputedFileDiff_consistent:
  fixes input v st now
  defines "d \<equiv> buildComputedFileDiff input v st now"
  shows "cd_additions d = length (filter (\<lambda>l. kind l = Add) (uncollapsed input v)) \<and>
    cd_deletions d = length (filter (\<lambda>l. kind l = Remove) (uncollapsed input v)) \<and>
    column fst (cd_splitRows d) = filter (\<lambda>l. kind l \<noteq> Add) (cd_lines d) \<and>
    column snd (cd_splitRows d) = filter (\<lambda>l. kind l \<noteq> Remove) (cd_lines d) \<and>
    cd_commentable d =
      (sorted_list_of_set (shown_numbers Add oldNumber (cd_lines d)),
       sorted_list_of_set (shown_numbers Remove newNumber (cd_lines d)))"
proof -
  have "(cd_additions d, cd_deletions d) =
      (length (filter (\<lambda>l. kind l = Add) (uncollapsed input v)),
       length (filter (\<lambda>l. kind l = Remove) (uncollapsed input v)))"
    unfolding d_def by (simp add: build_fields countChanges_counts build_lines collapse_counts)
  then have "cd_additions d = length (filter (\<lambda>l. kind l = Add) (uncollapsed input v))"
    and "cd_deletions d = length (filter (\<lambda>l. kind l = Remove) (uncollapsed input v))" by simp_all
  then show ?thesis
    by (simp add: d_def build_fields(2,3) commentable_numbers pairDiffLines_columns)
qed

end
