(* ===== verification/Diff_Cache.thy ===== *)
theory Diff_Cache
  imports Diff_Computer
begin

text \<open>
  The class \<open>DiffComputer\<close> of \<open>web/src/lib/diff-computer.ts\<close>: its cache, its debug tasks and the
  generator \<open>computeFileDiff\<close>. A JavaScript \<open>Map\<close> is an association list in insertion order:
  \<open>AList.update\<close> keeps the place of a key that is there and appends a new one, as \<open>Map.set\<close> does.

  The generator is a program counter: between two of its steps the consumer may call any other
  operation, so a step takes the computer as it then is. \<open>Date.now()\<close> and the abort flag of the
  request are read anew by each step. A throw of the diff itself (an allocation that fails) is not
  modelled; the abort is the one error path.
\<close>

subsection \<open>State\<close>

datatype diff_priority = High | Low

record cache_entry =
  ce_diff :: computed_file_diff
  ce_startedAt :: nat

record diff_task =
  task_id :: string
  task_priority :: diff_priority
  task_filename :: string
  task_state :: diff_compute_state
  task_startedAt :: nat
  task_updatedAt :: nat
  task_debugMeta :: "(string \<times> string) list option"

text \<open>\<open>dropTimers\<close> holds the tasks that a running 30 second timer will delete.\<close>

record diff_computer =
  dc_cache :: "(string \<times> cache_entry) list"
  dc_tasks :: "(string \<times> diff_task) list"
  dc_taskSeq :: nat
  dc_debugEnabled :: bool
  dc_dropTimers :: "string list"

definition maxCacheEntries :: nat where
  "maxCacheEntries = 256"

definition new_DiffComputer :: diff_computer where
  "new_DiffComputer =
     \<lparr>dc_cache = [], dc_tasks = [], dc_taskSeq = 0, dc_debugEnabled = False, dc_dropTimers = []\<rparr>"

subsection \<open>Operations\<close>

definition setDebugEnabled :: "bool \<Rightarrow> diff_computer \<Rightarrow> diff_computer" where
  "setDebugEnabled enabled dc =
     (let dc' = dc\<lparr>dc_debugEnabled := enabled\<rparr> in if enabled then dc' else dc'\<lparr>dc_tasks := []\<rparr>)"

definition getCached :: "string \<Rightarrow> diff_computer \<Rightarrow> computed_file_diff option" where
  "getCached key dc =
     map_option (\<lambda>e. (ce_diff e)\<lparr>cd_fromCache := Some True\<rparr>) (map_of (dc_cache dc) key)"

definition invalidate :: "string option \<Rightarrow> diff_computer \<Rightarrow> diff_computer" where
  "invalidate keyPrefix dc =
     (case keyPrefix of
        None \<Rightarrow> dc\<lparr>dc_cache := []\<rparr>
      | Some p \<Rightarrow>
          if p = [] then dc\<lparr>dc_cache := []\<rparr>
          else dc\<lparr>dc_cache := filter (\<lambda>(k, e). \<not> starts_with k p) (dc_cache dc)\<rparr>)"

definition getDebugState :: "diff_computer \<Rightarrow> diff_task list \<times> diff_task list \<times> nat" where
  "getDebugState dc =
     (let ts = map snd (dc_tasks dc)
      in (filter (\<lambda>t. task_priority t = Low) ts, filter (\<lambda>t. task_priority t = High) ts,
          length (dc_cache dc)))"

definition putCache :: "string \<Rightarrow> computed_file_diff \<Rightarrow> nat \<Rightarrow> diff_computer \<Rightarrow> diff_computer" where
  "putCache key diff now dc =
     (let c = AList.update key \<lparr>ce_diff = diff, ce_startedAt = now\<rparr> (dc_cache dc)
      in dc\<lparr>dc_cache :=
           (if length c > maxCacheEntries then
              (let oldest = fst (hd c) in if oldest \<noteq> [] then AList.delete oldest c else c)
            else c)\<rparr>)"

definition computeSync ::
  "diff_compute_input \<Rightarrow> diff_variant \<Rightarrow> nat \<Rightarrow> diff_computer \<Rightarrow> computed_file_diff \<times> diff_computer" where
  "computeSync input v now dc =
     (let key = diff_cache_key input v
      in case getCached key dc of
           Some d \<Rightarrow> (d, dc)
         | None \<Rightarrow>
             (let ready = buildComputedFileDiff (input\<lparr>in_cacheKey := Some key\<rparr>) v Ready now
              in (ready, putCache key ready now dc)))"

subsection \<open>The generator\<close>

record diff_request =
  rq_priority :: "diff_priority option"
  rq_variant :: "diff_variant option"
  rq_debugMeta :: "(string \<times> string) list option"

definition request_variant :: "diff_compute_input \<Rightarrow> diff_request \<Rightarrow> diff_variant" where
  "request_variant input rq =
     (case rq_variant rq of
        Some v \<Rightarrow> v
      | None \<Rightarrow>
          (case in_options input of
             Some p \<Rightarrow> if enableStructuralDiff_opt p = Some True then Structural else Basic
           | None \<Rightarrow> Basic))"

fun priority_name :: "diff_priority \<Rightarrow> string" where
  "priority_name High = ''high''"
| "priority_name Low = ''low''"

text \<open>Where the generator is suspended, with the local variables it needs to go on.\<close>

datatype diff_gen =
    Start
  | YieldedPending string computed_file_diff
  | YieldedAborted string
  | YieldedComputing string computed_file_diff
  | YieldedLast string
  | Finished

definition keyed :: "diff_compute_input \<Rightarrow> diff_variant \<Rightarrow> diff_compute_input" where
  "keyed input v = input\<lparr>in_cacheKey := Some (diff_cache_key input v)\<rparr>"

definition update_task :: "string \<Rightarrow> diff_compute_state \<Rightarrow> nat \<Rightarrow> diff_computer \<Rightarrow> diff_computer" where
  "update_task tid st now dc =
     dc\<lparr>dc_tasks := AList.map_entry tid (\<lambda>t. t\<lparr>task_state := st, task_updatedAt := now\<rparr>) (dc_tasks dc)\<rparr>"

definition gen_start ::
  "diff_compute_input \<Rightarrow> diff_request \<Rightarrow> nat \<Rightarrow> diff_computer \<Rightarrow>
     computed_file_diff \<times> diff_gen \<times> diff_computer" where
  "gen_start input rq now dc =
     (let v = request_variant input rq;
          prio = (case rq_priority rq of Some p \<Rightarrow> p | None \<Rightarrow> High);
          cached = getCached (diff_cache_key input v) dc
      in if cached \<noteq> None \<and> cd_state (the cached) = Ready then (the cached, Finished, dc)
         else
           (let tid = priority_name prio @ ''-'' @ nat_str (dc_taskSeq dc);
                task = \<lparr>task_id = tid, task_priority = prio, task_filename = in_filename input,
                        task_state = Pending, task_startedAt = now, task_updatedAt = now,
                        task_debugMeta = (if dc_debugEnabled dc then rq_debugMeta rq else None)\<rparr>;
                dc1 = dc\<lparr>dc_taskSeq := Suc (dc_taskSeq dc)\<rparr>;
                dc2 = (if dc_debugEnabled dc1 then dc1\<lparr>dc_tasks := AList.update tid task (dc_tasks dc1)\<rparr>
                       else dc1);
                pending = buildComputedFileDiff (keyed input v) v Pending now
            in (pending, YieldedPending tid pending, dc2)))"

definition ready_diff :: "diff_compute_input \<Rightarrow> diff_variant \<Rightarrow> nat \<Rightarrow> computed_file_diff" where
  "ready_diff input v now =
     (if v = Structural \<and> (in_original input = None \<or> in_modified input = None) then
        buildComputedFileDiff
          ((keyed input v)\<lparr>in_options :=
             Some (let o' = override_options STRUCTURAL_DIFF_OPTIONS (in_options input)
                   in \<lparr>collapseUnchangedAreas_opt = Some (collapseUnchangedAreas o'),
                       enableStructuralDiff_opt = Some (enableStructuralDiff o'),
                       enableMoveDetection_opt = Some (enableMoveDetection o')\<rparr>)\<rparr>)
          Structural Ready now
      else buildComputedFileDiff (keyed input v) v Ready now)"

definition aborted_diff :: "computed_file_diff \<Rightarrow> nat \<Rightarrow> computed_file_diff" where
  "aborted_diff pending now =
     pending\<lparr>cd_state := Failed, cd_error := Some ''aborted'', cd_computedAt := now\<rparr>"

text \<open>The \<open>finally\<close> block.\<close>

definition finish_task :: "string \<Rightarrow> diff_computer \<Rightarrow> diff_computer" where
  "finish_task tid dc =
     (if dc_debugEnabled dc then dc\<lparr>dc_dropTimers := dc_dropTimers dc @ [tid]\<rparr>
      else dc\<lparr>dc_tasks := AList.delete tid (dc_tasks dc)\<rparr>)"

definition fireDropTimer :: "string \<Rightarrow> diff_computer \<Rightarrow> diff_computer" where
  "fireDropTimer tid dc =
     dc\<lparr>dc_dropTimers := remove1 tid (dc_dropTimers dc), dc_tasks := AList.delete tid (dc_tasks dc)\<rparr>"

text \<open>One \<open>next()\<close> of the generator: the yielded value (none when it returns) and where it stops.\<close>

fun gen_next ::
  "diff_compute_input \<Rightarrow> diff_request \<Rightarrow> bool \<Rightarrow> nat \<Rightarrow> diff_gen \<Rightarrow> diff_computer \<Rightarrow>
     computed_file_diff option \<times> diff_gen \<times> diff_computer" where
  "gen_next input rq aborted now Start dc =
     (case gen_start input rq now dc of (d, g, dc') \<Rightarrow> (Some d, g, dc'))"
| "gen_next input rq aborted now (YieldedPending tid pending) dc =
     (if aborted then (Some (aborted_diff pending now), YieldedAborted tid, dc)
      else (Some (pending\<lparr>cd_state := Computing\<rparr>), YieldedComputing tid pending, update_task tid Computing now dc))"
| "gen_next input rq aborted now (YieldedAborted tid) dc =
     (None, Finished, if dc_debugEnabled dc then dc\<lparr>dc_tasks := AList.delete tid (dc_tasks dc)\<rparr> else dc)"
| "gen_next input rq aborted now (YieldedComputing tid pending) dc =
     (if aborted then (Some (aborted_diff pending now), YieldedLast tid, update_task tid Failed now dc)
      else
        (let v = request_variant input rq; ready = ready_diff input v now
         in (Some ready, YieldedLast tid,
             update_task tid Ready now (putCache (diff_cache_key input v) ready now dc))))"
| "gen_next input rq aborted now (YieldedLast tid) dc = (None, Finished, finish_task tid dc)"
| "gen_next input rq aborted now Finished dc = (None, Finished, dc)"

text \<open>\<open>return()\<close> of the generator (a \<open>break\<close> of the consumer): only the last yield is inside the \<open>try\<close>.\<close>

fun gen_return :: "diff_gen \<Rightarrow> diff_computer \<Rightarrow> diff_gen \<times> diff_computer" where
  "gen_return (YieldedLast tid) dc = (Finished, finish_task tid dc)"
| "gen_return g dc = (Finished, dc)"


section \<open>The cache over any run\<close>

text \<open>Every way the program changes a computer, in any order: consumers interleave freely.\<close>

inductive dc_step :: "diff_computer \<Rightarrow> diff_computer \<Rightarrow> bool" where
  debug: "dc_step dc (setDebugEnabled enabled dc)"
| inval: "dc_step dc (invalidate p dc)"
| sync: "dc_step dc (snd (computeSync input v now dc))"
| gen: "dc_step dc (snd (snd (gen_next input rq aborted now g dc)))"
| ret: "dc_step dc (snd (gen_return g dc))"
| timer: "dc_step dc (fireDropTimer tid dc)"

inductive_cases dc_step_cases: "dc_step dc dc'"

definition entry_ok :: "string \<times> cache_entry \<Rightarrow> bool" where
  "entry_ok ke \<longleftrightarrow> cd_state (ce_diff (snd ke)) = Ready \<and> cd_key (ce_diff (snd ke)) = fst ke"

text \<open>
  The cache holds ready diffs under their own keys, each key once, and at most 256 of them unless the
  oldest key is the empty string, which the eviction skips.
\<close>

definition cache_inv :: "diff_computer \<Rightarrow> bool" where
  "cache_inv dc \<longleftrightarrow>
     distinct (map fst (dc_cache dc)) \<and> list_all entry_ok (dc_cache dc) \<and>
     (length (dc_cache dc) \<le> maxCacheEntries \<or> fst (hd (dc_cache dc)) = [])"

lemma update_length:
  "length (AList.update k v al) = (if k \<in> fst ` set al then length al else Suc (length al))"
  by (induction al) auto

lemma hd_update: "al \<noteq> [] \<Longrightarrow> fst (hd (AList.update k v al)) = fst (hd al)"
  by (cases al) auto

lemma list_all_update: "list_all P al \<Longrightarrow> P (k, v) \<Longrightarrow> list_all P (AList.update k v al)"
  by (induction al) auto

lemma list_all_delete: "list_all P al \<Longrightarrow> list_all P (AList.delete k al)"
  by (auto simp: list_all_iff AList.delete_eq)

lemma delete_hd_length:
  assumes "al \<noteq> []" and "distinct (map fst al)"
  shows "length (AList.delete (fst (hd al)) al) = length al - 1"
proof -
  from assms(1) obtain k v r where al: "al = (k, v) # r" by (cases al) auto
  with assms(2) have "k \<notin> fst ` set r" by simp
  then have "AList.delete k r = r" by (simp add: delete_id)
  with al show ?thesis by simp
qed

lemma cache_inv_put:
  assumes inv: "cache_inv dc" and ok: "cd_state d = Ready" "cd_key d = key"
  shows "cache_inv (putCache key d now dc)"
proof -
  define c where "c = AList.update key \<lparr>ce_diff = d, ce_startedAt = now\<rparr> (dc_cache dc)"
  have dist: "distinct (map fst c)"
    using inv by (simp add: c_def cache_inv_def distinct_update)
  have all: "list_all entry_ok c"
    unfolding c_def by (rule list_all_update) (use inv ok in \<open>simp_all add: cache_inv_def entry_ok_def\<close>)
  have ne: "c \<noteq> []" by (simp add: c_def)
  have len: "length c \<le> Suc maxCacheEntries \<or> fst (hd c) = []"
    using inv hd_update [of "dc_cache dc" key]
    by (cases "dc_cache dc = []") (auto simp: c_def cache_inv_def update_length maxCacheEntries_def)
  have "distinct (map fst (AList.delete (fst (hd c)) c))"
    using dist by (rule distinct_delete)
  moreover have "length (AList.delete (fst (hd c)) c) = length c - 1"
    by (rule delete_hd_length [OF ne dist])
  ultimately show ?thesis
    using dist all len list_all_delete [OF all, of "fst (hd c)"]
    by (auto simp: putCache_def Let_def cache_inv_def simp flip: c_def)
qed

lemma key_keyed: "diff_cache_key (keyed input v) w = diff_cache_key input v"
  by (simp add: keyed_def diff_cache_key_def)

lemma key_keyed_options: "diff_cache_key ((keyed input v)\<lparr>in_options := o'\<rparr>) w = diff_cache_key input v"
  by (simp add: keyed_def diff_cache_key_def)

lemma ready_diff_ok:
  "cd_state (ready_diff input v now) = Ready" "cd_key (ready_diff input v now) = diff_cache_key input v"
  by (auto simp: ready_diff_def build_fields key_keyed key_keyed_options)

lemma cache_inv_cong: "cache_inv dc \<Longrightarrow> dc_cache dc' = dc_cache dc \<Longrightarrow> cache_inv dc'"
  by (simp add: cache_inv_def)

lemma cache_inv_update_task [simp]: "cache_inv (update_task tid st now dc) = cache_inv dc"
  by (simp add: cache_inv_def update_task_def)

lemma cache_of_update_task [simp]: "dc_cache (update_task tid st now dc) = dc_cache dc"
  by (simp add: update_task_def)

lemma cache_of_finish_task [simp]: "dc_cache (finish_task tid dc) = dc_cache dc"
  by (simp add: finish_task_def)

lemma cache_of_start: "gen_start input rq now dc = (d, g, dc') \<Longrightarrow> dc_cache dc' = dc_cache dc"
  by (auto simp: gen_start_def Let_def split: if_splits)

lemma cache_inv_gen: "cache_inv dc \<Longrightarrow> cache_inv (snd (snd (gen_next input rq aborted now g dc)))"
proof (cases g)
  case Start
  assume "cache_inv dc"
  with Start show ?thesis
    by (auto split: prod.split dest: cache_of_start intro: cache_inv_cong)
next
  case (YieldedComputing tid pending)
  assume inv: "cache_inv dc"
  have "cache_inv (putCache (diff_cache_key input v) (ready_diff input v now) now dc)" for v
    by (rule cache_inv_put [OF inv]) (simp_all add: ready_diff_ok)
  with inv YieldedComputing show ?thesis
    by (auto simp: Let_def intro: cache_inv_cong)
qed (auto intro: cache_inv_cong)

lemma cache_inv_sync: "cache_inv dc \<Longrightarrow> cache_inv (snd (computeSync input v now dc))"
  by (auto simp: computeSync_def Let_def build_fields diff_cache_key_def intro!: cache_inv_put
      split: option.split)

lemma cache_inv_invalidate: "cache_inv dc \<Longrightarrow> cache_inv (invalidate p dc)"
proof -
  assume inv: "cache_inv dc"
  have "cache_inv (dc\<lparr>dc_cache := filter (\<lambda>(k, e). \<not> starts_with k q) (dc_cache dc)\<rparr>)"
    (is "cache_inv (dc\<lparr>dc_cache := ?f\<rparr>)") if "q \<noteq> []" for q
  proof -
    have "length ?f \<le> maxCacheEntries \<or> fst (hd ?f) = []"
    proof (cases "length (dc_cache dc) \<le> maxCacheEntries")
      case True
      then show ?thesis using length_filter_le [of "\<lambda>(k, e). \<not> starts_with k q"] le_trans by blast
    next
      case False
      then have "fst (hd (dc_cache dc)) = []" "dc_cache dc \<noteq> []"
        using inv by (auto simp: cache_inv_def)
      then have "hd ?f = hd (dc_cache dc)"
        using that by (cases "dc_cache dc") auto
      with \<open>fst (hd (dc_cache dc)) = []\<close> show ?thesis by simp
    qed
    then show ?thesis using inv by (auto simp: cache_inv_def list_all_iff distinct_map_filter)
  qed
  then show ?thesis by (auto simp: invalidate_def cache_inv_def split: option.split)
qed

lemma cache_inv_step: "dc_step dc dc' \<Longrightarrow> cache_inv dc \<Longrightarrow> cache_inv dc'"
proof (induction rule: dc_step.induct)
  case (ret dc g)
  then show ?case by (cases g) (auto intro: cache_inv_cong)
qed (auto intro: cache_inv_invalidate cache_inv_sync cache_inv_gen cache_inv_cong
    simp: setDebugEnabled_def Let_def fireDropTimer_def)


interpretation cache_system: invariant_system dc_step new_DiffComputer cache_inv
proof
  show "cache_inv new_DiffComputer"
    by (simp add: cache_inv_def new_DiffComputer_def maxCacheEntries_def)
qed (rule cache_inv_step)

text \<open>
  C31. Over any interleaving of synchronous computations, generator steps, invalidations and timers, the
  cache holds only ready diffs, each under its own key and each key once, and at most 256 of them
  unless its oldest key is the empty string.
\<close>

theorem reachable_cache_inv:
  assumes "dc_step\<^sup>*\<^sup>* new_DiffComputer dc"
  shows "cache_inv dc"
  using assms by (rule cache_system.reachable_inv)

definition sample_input :: diff_compute_input where
  "sample_input =
     \<lparr>in_filename = ''a.ts'', in_patch = None, in_original = Some ''a'', in_modified = Some ''b'',
      in_options = None, in_cacheKey = None\<rparr>"

theorem reachable_cache_inv_witness:
  "cache_inv (snd (computeSync sample_input Structural 7 new_DiffComputer))"
  by (rule reachable_cache_inv) (blast intro: sync)

section \<open>Hits\<close>

lemma map_of_put:
  assumes "distinct (map fst (dc_cache dc))" and "dc_cache dc = [] \<or> fst (hd (dc_cache dc)) \<noteq> key"
  shows "map_of (dc_cache (putCache key d now dc)) key = Some \<lparr>ce_diff = d, ce_startedAt = now\<rparr>"
proof -
  define c where "c = AList.update key \<lparr>ce_diff = d, ce_startedAt = now\<rparr> (dc_cache dc)"
  have c: "map_of c key = Some \<lparr>ce_diff = d, ce_startedAt = now\<rparr>"
    by (simp add: c_def update_conv')
  show ?thesis
  proof (cases "dc_cache dc = []")
    case True
    then show ?thesis by (simp add: putCache_def Let_def maxCacheEntries_def)
  next
    case False
    then have "fst (hd c) \<noteq> key" using assms(2) hd_update [OF False] by (simp add: c_def)
    with c show ?thesis by (simp add: putCache_def Let_def delete_conv' flip: c_def)
  qed
qed

lemma miss_not_oldest:
  "getCached key dc = None \<Longrightarrow> dc_cache dc = [] \<or> fst (hd (dc_cache dc)) \<noteq> key"
  by (cases "dc_cache dc") (auto simp: getCached_def)

lemma computeSync_then_cached:
  assumes "cache_inv dc" and "getCached (diff_cache_key input v) dc = None"
  shows "getCached (diff_cache_key input v) (snd (computeSync input v now dc)) =
     Some ((fst (computeSync input v now dc))\<lparr>cd_fromCache := Some True\<rparr>)"
  using assms(1) map_of_put [OF _ miss_not_oldest [OF assms(2)]]
  by (simp add: computeSync_def Let_def assms(2)) (simp add: getCached_def cache_inv_def)

definition stale_input :: diff_compute_input where
  "stale_input = sample_input\<lparr>in_modified := Some ''c''\<rparr>"

text \<open>
  C40. The default cache key does not depend on the two texts beyond their lengths: after a file's diff
  was computed, the diff of another version of the file with the same lengths and the same first 64
  characters of the patch is answered with the old one.
\<close>

theorem stale_structural_diff:
  assumes "cache_inv dc" and "in_cacheKey input = None"
    and "getCached (diff_cache_key input v) dc = None"
    and "opt_length original = opt_length (in_original input)"
    and "opt_length modified = opt_length (in_modified input)"
  shows "cd_lines (fst (computeSync (input\<lparr>in_original := original, in_modified := modified\<rparr>) v now'
      (snd (computeSync input v now dc)))) = cd_lines (fst (computeSync input v now dc))"
proof -
  have "diff_cache_key (input\<lparr>in_original := original, in_modified := modified\<rparr>) v = diff_cache_key input v"
    using assms(2,4,5) by (simp add: diff_cache_key_def hashFingerPrint_def)
  then show ?thesis
    using computeSync_then_cached [OF assms(1,3), of now]
    by (simp add: computeSync_def [of "input\<lparr>in_original := original, in_modified := modified\<rparr>"])
qed

lemma computeSync_fresh_lines:
  "cd_lines (fst (computeSync input v now new_DiffComputer)) =
     cd_lines (buildComputedFileDiff (input\<lparr>in_cacheKey := Some (diff_cache_key input v)\<rparr>) v Ready now)"
  by (simp add: computeSync_def Let_def getCached_def new_DiffComputer_def)

lemma sample_diffs:
  "cd_lines (buildComputedFileDiff (sample_input\<lparr>in_cacheKey := k\<rparr>) Structural Ready now) =
     [\<lparr>kind = Remove, content = ''a'', oldNumber = Some 1, newNumber = None\<rparr>,
      \<lparr>kind = Add, content = ''b'', oldNumber = None, newNumber = Some 1\<rparr>]"
  "cd_lines (buildComputedFileDiff (stale_input\<lparr>in_cacheKey := k\<rparr>) Structural Ready now) =
     [\<lparr>kind = Remove, content = ''a'', oldNumber = Some 1, newNumber = None\<rparr>,
      \<lparr>kind = Add, content = ''c'', oldNumber = None, newNumber = Some 1\<rparr>]"
proof -
  have "collapseUnchanged (computeStructuralLines ''a'' ''b'') 3 =
     [\<lparr>kind = Remove, content = ''a'', oldNumber = Some 1, newNumber = None\<rparr>,
      \<lparr>kind = Add, content = ''b'', oldNumber = None, newNumber = Some 1\<rparr>]"
    and "collapseUnchanged (computeStructuralLines ''a'' ''c'') 3 =
     [\<lparr>kind = Remove, content = ''a'', oldNumber = Some 1, newNumber = None\<rparr>,
      \<lparr>kind = Add, content = ''c'', oldNumber = None, newNumber = Some 1\<rparr>]"
    by code_simp+
  then show
    "cd_lines (buildComputedFileDiff (sample_input\<lparr>in_cacheKey := k\<rparr>) Structural Ready now) =
     [\<lparr>kind = Remove, content = ''a'', oldNumber = Some 1, newNumber = None\<rparr>,
      \<lparr>kind = Add, content = ''b'', oldNumber = None, newNumber = Some 1\<rparr>]"
    "cd_lines (buildComputedFileDiff (stale_input\<lparr>in_cacheKey := k\<rparr>) Structural Ready now) =
     [\<lparr>kind = Remove, content = ''a'', oldNumber = Some 1, newNumber = None\<rparr>,
      \<lparr>kind = Add, content = ''c'', oldNumber = None, newNumber = Some 1\<rparr>]"
    by (simp_all add: build_lines uncollapsed_def structural_sides_def stale_input_def sample_input_def
        override_options_def STRUCTURAL_DIFF_OPTIONS_def)
qed

theorem stale_structural_diff_witness:
  "cd_lines (fst (computeSync stale_input Structural 9
      (snd (computeSync sample_input Structural 7 new_DiffComputer)))) =
     cd_lines (fst (computeSync sample_input Structural 7 new_DiffComputer)) \<and>
   cd_lines (fst (computeSync sample_input Structural 7 new_DiffComputer)) \<noteq>
     cd_lines (fst (computeSync stale_input Structural 9 new_DiffComputer))"
proof
  have upd: "stale_input = sample_input\<lparr>in_original := Some ''a'', in_modified := Some ''c''\<rparr>"
    by (simp add: stale_input_def sample_input_def)
  show "cd_lines (fst (computeSync stale_input Structural 9
      (snd (computeSync sample_input Structural 7 new_DiffComputer)))) =
     cd_lines (fst (computeSync sample_input Structural 7 new_DiffComputer))"
    unfolding upd
    by (rule stale_structural_diff)
      (simp_all add: cache_inv_def new_DiffComputer_def getCached_def sample_input_def opt_length_def
        maxCacheEntries_def)
  show "cd_lines (fst (computeSync sample_input Structural 7 new_DiffComputer)) \<noteq>
     cd_lines (fst (computeSync stale_input Structural 9 new_DiffComputer))"
    unfolding computeSync_fresh_lines sample_diffs by simp
qed

section \<open>The generator\<close>

lemma build_state_only:
  "buildComputedFileDiff input v st now\<lparr>cd_state := st'\<rparr> = buildComputedFileDiff input v st' now"
  by (simp add: buildComputedFileDiff_def Let_def split: option.split prod.split)

lemma uncollapsed_cong:
  "in_patch i = in_patch j \<Longrightarrow> in_original i = in_original j \<Longrightarrow> in_modified i = in_modified j \<Longrightarrow>
     uncollapsed i v = uncollapsed j v"
  unfolding uncollapsed_def structural_sides_def by (simp only:)

lemma uncollapsed_keyed:
  "uncollapsed (keyed input w) v = uncollapsed input v"
  "uncollapsed ((keyed input w)\<lparr>in_options := o'\<rparr>) v = uncollapsed input v"
  by (rule uncollapsed_cong; simp add: keyed_def)+

lemma options_keyed: "in_options (keyed input v) = in_options input"
  by (simp add: keyed_def)

lemma ready_diff_lines: "cd_lines (ready_diff input v now) = cd_lines (buildComputedFileDiff input v Ready now')"
  by (auto simp: ready_diff_def build_lines uncollapsed_keyed)
    (auto simp: keyed_def override_options_def Let_def split: option.split)


definition plain_request :: diff_request where
  "plain_request = \<lparr>rq_priority = None, rq_variant = Some Structural, rq_debugMeta = None\<rparr>"


end
