(* ===== verification/Word_Diff.thy ===== *)
theory Word_Diff
  imports Diff_Computer
begin

text \<open>
  \<open>web/src/lib/word-diff.ts\<close>: the character diff of a pair of changed lines, the pairing of the lines
  of a whole diff and the wrapping of the changed ranges in highlighted HTML.

  The table of the longest common subsequence is the source's flat \<open>Uint16Array\<close>, a list of
  \<open>16 word\<close>. A character is one of Latin-1, on which the Unicode classes of \<open>isWordChar\<close> and the blanks
  of \<open>trim\<close> are written out. Ratios are compared after multiplying out, which is exact.
\<close>

subsection \<open>Matched runs\<close>

type_synonym text_range = "nat \<times> nat"
type_synonym match_run = "nat \<times> nat \<times> nat"

definition WORD_DIFF_MAX_LINE :: nat where
  "WORD_DIFF_MAX_LINE = 400"

definition isWordChar :: "char option \<Rightarrow> bool" where
  "isWordChar c =
     (case c of
        None \<Rightarrow> False
      | Some ch \<Rightarrow>
          (let n = (of_char ch :: nat)
           in (48 \<le> n \<and> n \<le> 57) \<or> (65 \<le> n \<and> n \<le> 90) \<or> n = 95 \<or> (97 \<le> n \<and> n \<le> 122) \<or>
              n \<in> {170, 178, 179, 181, 185, 186, 188, 189, 190} \<or>
              (192 \<le> n \<and> n \<le> 255 \<and> n \<noteq> 215 \<and> n \<noteq> 247)))"

fun start_loop :: "'a list \<Rightarrow> 'a list \<Rightarrow> nat" where
  "start_loop (x # a) (y # b) = (if x = y then Suc (start_loop a b) else 0)"
| "start_loop _ _ = 0"

fun end_loop :: "'a list \<Rightarrow> 'a list \<Rightarrow> nat \<Rightarrow> nat \<Rightarrow> nat \<Rightarrow> nat \<times> nat" where
  "end_loop a b start (Suc endA) (Suc endB) =
     (if Suc endA > start \<and> Suc endB > start \<and> a ! endA = b ! endB then end_loop a b start endA endB
      else (Suc endA, Suc endB))"
| "end_loop a b start endA endB = (endA, endB)"

text \<open>Extends the last run when it ends where the new one begins, else pushes the new one.\<close>

definition push_run :: "nat \<Rightarrow> nat \<Rightarrow> nat \<Rightarrow> match_run list \<Rightarrow> match_run list" where
  "push_run p q k runs =
     (if runs = [] then [(p, q, k)]
      else
        (case last runs of
           (p', q', l) \<Rightarrow>
             if p' + l = p \<and> q' + l = q then butlast runs @ [(p', q', l + k)] else runs @ [(p, q, k)]))"

definition slice :: "'a list \<Rightarrow> nat \<Rightarrow> nat \<Rightarrow> 'a list" where
  "slice xs from to = take (to - from) (drop from xs)"

text \<open>The flat table of \<open>(n + 1) * (m + 1)\<close> cells and its reads.\<close>

definition flat_table :: "'a list \<Rightarrow> 'a list \<Rightarrow> 16 word list" where
  "flat_table a b = concat (fill_table a b)"

definition read_flat :: "16 word list \<Rightarrow> nat \<Rightarrow> nat \<Rightarrow> nat \<Rightarrow> nat" where
  "read_flat t width i j = unat (t ! (i * width + j))"

function run_walk ::
  "16 word list \<Rightarrow> 'a list \<Rightarrow> 'a list \<Rightarrow> nat \<Rightarrow> nat \<Rightarrow> nat \<Rightarrow> match_run list \<Rightarrow> match_run list" where
  "run_walk t a b start i j runs =
     (if i < length a \<and> j < length b then
        (if a ! i = b ! j then run_walk t a b start (Suc i) (Suc j) (push_run (start + i) (start + j) 1 runs)
         else if read_flat t (Suc (length b)) (Suc i) j \<ge> read_flat t (Suc (length b)) i (Suc j)
         then run_walk t a b start (Suc i) j runs
         else run_walk t a b start i (Suc j) runs)
      else runs)"
  by pat_completeness auto
termination
  by (relation "measure (\<lambda>(t, a, b, s, i, j, r). (length a - i) + (length b - j))") auto

declare run_walk.simps [simp del]

definition matchedRuns :: "'a list \<Rightarrow> 'a list \<Rightarrow> match_run list" where
  "matchedRuns a b =
     (let start = start_loop a b;
          (endA, endB) = end_loop a b start (length a) (length b);
          runs = (if start > 0 then [(0, 0, start)] else []);
          a' = slice a start endA;
          b' = slice b start endB;
          runs' = (if length a' > 0 \<and> length b' > 0 then run_walk (flat_table a' b') a' b' start 0 0 runs else runs)
      in if endA < length a then push_run endA endB (length a - endA) runs' else runs')"

subsection \<open>Changed ranges\<close>

definition is_blank :: "char \<Rightarrow> bool" where
  "is_blank c \<longleftrightarrow> (let n = (of_char c :: nat) in (9 \<le> n \<and> n \<le> 13) \<or> n = 32 \<or> n = 160)"

text \<open>The filter's callback; \<open>runs\<close> are the runs before filtering.\<close>

definition keep_run :: "string \<Rightarrow> string \<Rightarrow> match_run list \<Rightarrow> nat \<Rightarrow> bool" where
  "keep_run before after runs index =
     (case runs ! index of
        (aStart, bStart, len) \<Rightarrow>
          if len > 2 then True
          else
            (let editBefore =
                   (if index > 0
                    then (case runs ! (index - 1) of (p, q, l) \<Rightarrow> p + l < aStart \<or> q + l < bStart)
                    else aStart > 0 \<or> bStart > 0);
                 editAfter =
                   (if index + 1 < length runs
                    then (case runs ! (index + 1) of (p, q, l) \<Rightarrow> aStart + len < p \<or> bStart + len < q)
                    else aStart + len < length before \<or> bStart + len < length after)
             in if editBefore \<and> editAfter then False
                else
                  \<not> (isWordChar (nth_opt (slice before aStart (aStart + len)) 0) \<and>
                      (editBefore \<and> isWordChar (if aStart = 0 then None else nth_opt before (aStart - 1)) \<or>
                       editAfter \<and> isWordChar (nth_opt before (aStart + len))))))"

definition filter_runs :: "string \<Rightarrow> string \<Rightarrow> match_run list \<Rightarrow> match_run list" where
  "filter_runs before after runs =
     map (\<lambda>i. runs ! i) (filter (keep_run before after runs) [0..<length runs])"

text \<open>\<open>gaps\<close>: the loop over one side of the runs, from a cursor.\<close>

fun gaps :: "nat \<Rightarrow> (nat \<times> nat) list \<Rightarrow> nat \<Rightarrow> text_range list" where
  "gaps cursor [] n = (if cursor < n then [(cursor, n)] else [])"
| "gaps cursor ((from, len) # runs) n =
     (if from > cursor then [(cursor, from)] else []) @ gaps (from + len) runs n"

definition side_a :: "match_run \<Rightarrow> nat \<times> nat" where
  "side_a r = (case r of (p, q, l) \<Rightarrow> (p, l))"

definition side_b :: "match_run \<Rightarrow> nat \<times> nat" where
  "side_b r = (case r of (p, q, l) \<Rightarrow> (q, l))"

definition run_length :: "match_run \<Rightarrow> nat" where
  "run_length r = (case r of (p, q, l) \<Rightarrow> l)"

definition wordDiffRanges :: "string \<Rightarrow> string \<Rightarrow> (text_range list \<times> text_range list) option" where
  "wordDiffRanges before after =
     (if before = after \<or> length before > WORD_DIFF_MAX_LINE \<or> length after > WORD_DIFF_MAX_LINE then None
      else if list_all is_blank before \<or> list_all is_blank after then None
      else
        (let runs = matchedRuns before after;
             matched = sum_list (map run_length runs)
         in if 4 * matched < length before + length after then None
            else
              (let kept = filter_runs before after runs;
                   left = gaps 0 (map side_a kept) (length before);
                   right = gaps 0 (map side_b kept) (length after)
               in if left \<noteq> [] \<or> right \<noteq> [] then Some (left, right) else None)))"

subsection \<open>All lines of a diff\<close>

type_synonym range_map = "(nat \<times> text_range list) list"

definition mark_pair :: "(nat \<Rightarrow> string) \<Rightarrow> range_map \<Rightarrow> nat \<times> nat \<Rightarrow> range_map" where
  "mark_pair textOf result pair =
     (case pair of (r, a) \<Rightarrow>
        (case wordDiffRanges (textOf r) (textOf a) of
           None \<Rightarrow> result
         | Some (before, after) \<Rightarrow>
             (let result' = (if before \<noteq> [] then AList.update r before result else result)
              in if after \<noteq> [] then AList.update a after result' else result')))"

record pair_state =
  ps_result :: range_map
  ps_removed :: "nat list"
  ps_added :: "nat list"

definition flush :: "(nat \<Rightarrow> string) \<Rightarrow> pair_state \<Rightarrow> pair_state" where
  "flush textOf st =
     \<lparr>ps_result = foldl (mark_pair textOf) (ps_result st) (zip (ps_removed st) (ps_added st)),
      ps_removed = [], ps_added = []\<rparr>"

definition visit_line :: "(nat \<Rightarrow> string) \<Rightarrow> pair_state \<Rightarrow> diff_line_kind \<times> nat \<Rightarrow> pair_state" where
  "visit_line textOf st line =
     (case line of (k, index) \<Rightarrow>
        (case k of
           Remove \<Rightarrow>
             (let st' = (if ps_added st \<noteq> [] then flush textOf st else st)
              in st'\<lparr>ps_removed := ps_removed st' @ [index]\<rparr>)
         | Add \<Rightarrow> st\<lparr>ps_added := ps_added st @ [index]\<rparr>
         | Context \<Rightarrow> flush textOf st))"

definition pairedWordRanges :: "diff_line_kind list \<Rightarrow> (nat \<Rightarrow> string) \<Rightarrow> range_map" where
  "pairedWordRanges lines textOf =
     ps_result (flush textOf
       (foldl (visit_line textOf) \<lparr>ps_result = [], ps_removed = [], ps_added = []\<rparr>
          (zip lines [0..<length lines])))"

subsection \<open>Marks in highlighted HTML\<close>

definition entities :: "string list" where
  "entities = [''&amp;'', ''&lt;'', ''&gt;'', ''&quot;'', ''&#x27;'', ''&#39;'']"

definition open_mark :: string where
  "open_mark = ''<span class='' @ [CHR 0x22] @ ''review-word-mark'' @ [CHR 0x22] @ ''>''"

definition close_mark :: string where
  "close_mark = ''</span>''"

definition html_unit :: "string \<Rightarrow> string" where
  "html_unit rest =
     (case rest of
        [] \<Rightarrow> []
      | c # _ \<Rightarrow>
          if c = CHR ''&'' then
            (case find_index (\<lambda>x. x = CHR '';'') rest of
               Some e \<Rightarrow> if e > 0 \<and> e \<le> 6 \<and> take (Suc e) rest \<in> set entities then take (Suc e) rest else [c]
             | None \<Rightarrow> [c])
          else [c])"

fun skip_ranges :: "text_range list \<Rightarrow> nat \<Rightarrow> text_range list" where
  "skip_ranges [] position = []"
| "skip_ranges ((s, e) # rs) position = (if position \<ge> e then skip_ranges rs position else (s, e) # rs)"

record mark_state =
  ms_out :: string
  ms_position :: nat
  ms_ranges :: "text_range list"
  ms_open :: bool
  ms_index :: nat

definition closeMark :: "mark_state \<Rightarrow> mark_state" where
  "closeMark st = (if ms_open st then st\<lparr>ms_out := ms_out st @ close_mark, ms_open := False\<rparr> else st)"

text \<open>
  One iteration. \<open>ms_ranges\<close> is \<open>ranges.slice(rangeIndex)\<close>. When a tag is not closed, \<open>indexOf\<close> gives
  \<open>-1\<close>: the slice is empty and the index goes back to 0.
\<close>

definition mark_step :: "string \<Rightarrow> mark_state \<Rightarrow> mark_state" where
  "mark_step html st =
     (let rest = drop (ms_index st) html
      in if rest \<noteq> [] \<and> hd rest = CHR ''<'' then
           (let st' = closeMark st
            in case find_index (\<lambda>x. x = CHR ''>'') rest of
                 Some e \<Rightarrow> st'\<lparr>ms_out := ms_out st' @ take (Suc e) rest, ms_index := ms_index st + Suc e\<rparr>
               | None \<Rightarrow> st'\<lparr>ms_index := 0\<rparr>)
         else
           (let unit = html_unit rest;
                rs = skip_ranges (ms_ranges st) (ms_position st);
                inside = (case rs of [] \<Rightarrow> False | (s, e) # _ \<Rightarrow> ms_position st \<ge> s \<and> ms_position st < e);
                st1 = st\<lparr>ms_ranges := rs\<rparr>;
                st2 = (if inside \<and> \<not> ms_open st1 then st1\<lparr>ms_out := ms_out st1 @ open_mark, ms_open := True\<rparr>
                       else if \<not> inside then closeMark st1 else st1)
            in st2\<lparr>ms_out := ms_out st2 @ unit, ms_index := ms_index st2 + length unit,
                   ms_position := Suc (ms_position st2)\<rparr>))"

text \<open>The loop, with a bound on its iterations: \<open>None\<close> when they are not enough.\<close>

fun mark_loop :: "nat \<Rightarrow> string \<Rightarrow> mark_state \<Rightarrow> mark_state option" where
  "mark_loop 0 html st = (if ms_index st < length html then None else Some st)"
| "mark_loop (Suc fuel) html st =
     (if ms_index st < length html then mark_loop fuel html (mark_step html st) else Some st)"

definition markHighlightedRanges :: "nat \<Rightarrow> string \<Rightarrow> text_range list \<Rightarrow> string option" where
  "markHighlightedRanges fuel html ranges =
     (if ranges = [] then Some html
      else map_option (\<lambda>st. ms_out (closeMark st))
             (mark_loop fuel html
               \<lparr>ms_out = [], ms_position = 0, ms_ranges = ranges, ms_open = False, ms_index = 0\<rparr>))"


section \<open>Matched runs\<close>

subsection \<open>Stripping a common prefix and suffix\<close>

lemma lcs_append_prefix: "lcs (p @ a) (p @ b) = length p + lcs a b"
  by (induction p) simp_all

lemma lcs_le_if: "(\<And>zs. subseq zs a \<Longrightarrow> subseq zs b \<Longrightarrow> \<exists>zs'. subseq zs' a' \<and> subseq zs' b' \<and> length zs' = length zs)
    \<Longrightarrow> lcs a b \<le> lcs a' b'"
  using lcs_attained [of a b] lcs_upper by metis

lemma subseq_rev_mono: "subseq xs ys \<Longrightarrow> subseq (rev xs) (rev ys)"
proof (induction rule: list_emb.induct)
  case (list_emb_Cons xs ys y)
  then show ?case using list_emb_append_mono [of "(=)" "rev xs" "rev ys" "[]" "[y]"] by simp
next
  case (list_emb_Cons2 x y xs ys)
  then show ?case by (simp add: list_emb_append_mono)
qed simp

lemma lcs_rev: "lcs (rev a) (rev b) = lcs a b"
proof (rule antisym)
  have "lcs (rev a) (rev b) \<le> lcs a b" for a b :: "'a list"
    by (rule lcs_le_if) (metis length_rev rev_rev_ident subseq_rev_mono)
  from this [of a b] this [of "rev a" "rev b"]
  show "lcs (rev a) (rev b) \<le> lcs a b" "lcs a b \<le> lcs (rev a) (rev b)" by simp_all
qed

lemma lcs_append_suffix: "lcs (a @ s) (b @ s) = lcs a b + length s"
  using lcs_append_prefix [of "rev s" "rev a" "rev b"] lcs_rev [of "a @ s" "b @ s"] lcs_rev [of a b] by simp

lemma start_loop_prefix:
  "start_loop a b \<le> length a \<and> start_loop a b \<le> length b \<and> take (start_loop a b) a = take (start_loop a b) b"
  by (induction a b rule: start_loop.induct) auto

lemma end_loop_suffix:
  assumes "end_loop a b start endA endB = (eA, eB)"
    and "start \<le> endA" "start \<le> endB" "endA \<le> length a" "endB \<le> length b" "drop endA a = drop endB b"
  shows "start \<le> eA \<and> start \<le> eB \<and> eA \<le> length a \<and> eB \<le> length b \<and> drop eA a = drop eB b"
  using assms
proof (induction a b start endA endB rule: end_loop.induct)
  case (1 a b start endA endB)
  show ?case
  proof (cases "Suc endA > start \<and> Suc endB > start \<and> a ! endA = b ! endB")
    case True
    with "1.prems" have "drop endA a = drop endB b"
      by (metis Cons_nth_drop_Suc Suc_le_eq)
    with True 1 show ?thesis by simp
  next
    case False
    with "1.prems" show ?thesis by auto
  qed
qed auto

lemma slice_split: "from \<le> to \<Longrightarrow> to \<le> length xs \<Longrightarrow> xs = take from xs @ slice xs from to @ drop to xs"
  by (simp add: slice_def) (metis append_take_drop_id drop_drop le_add_diff_inverse2)

lemma length_slice: "to \<le> length xs \<Longrightarrow> length (slice xs from to) = to - from"
  by (simp add: slice_def)

lemma nth_slice: "i < to - from \<Longrightarrow> to \<le> length xs \<Longrightarrow> slice xs from to ! i = xs ! (from + i)"
  by (simp add: slice_def)

lemma stripped_lcs:
  assumes "start = start_loop a b" and "end_loop a b start (length a) (length b) = (eA, eB)"
  shows "lcs a b = start + lcs (slice a start eA) (slice b start eB) + (length a - eA)"
proof -
  have pre: "start \<le> length a" "start \<le> length b" "take start a = take start b"
    using start_loop_prefix [of a b] assms(1) by simp_all
  with end_loop_suffix [OF assms(2)]
  have suf: "start \<le> eA" "start \<le> eB" "eA \<le> length a" "eB \<le> length b" "drop eA a = drop eB b" by auto
  have "lcs a b = lcs (take start a @ slice a start eA @ drop eA a) (take start a @ slice b start eB @ drop eA a)"
    using slice_split [OF suf(1,3)] slice_split [OF suf(2,4)] pre(3) suf(5) by simp
  also have "\<dots> = start + lcs (slice a start eA) (slice b start eB) + (length a - eA)"
    using pre(1) by (simp add: lcs_append_prefix lcs_append_suffix)
  finally show ?thesis .
qed

subsection \<open>The flat table\<close>

lemma concat_nth:
  assumes "\<And>r. r \<in> set rows \<Longrightarrow> length r = w" and "i < length rows" and "j < w"
  shows "concat rows ! (i * w + j) = rows ! i ! j"
  using assms
proof (induction rows arbitrary: i)
  case (Cons r rows)
  then show ?case by (cases i) (auto simp: nth_append)
qed simp

lemma read_flat_table:
  assumes "i \<le> length a" and "j \<le> length b"
  shows "read_flat (flat_table a b) (Suc (length b)) i j = unat ((fill_table a b :: 16 word list list) ! i ! j)"
  unfolding read_flat_def flat_table_def
  by (subst concat_nth) (use assms in \<open>auto simp: fill_table_row_length\<close>)

interpretation word_table: lcs_table "\<lambda>a b. read_flat (flat_table a b) (Suc (length b))" "2 ^ 16"
  by unfold_locales (simp add: read_flat_table fill_table_lcs)


subsection \<open>Runs of equal text\<close>

text \<open>A run names equal text of both lines; the runs of a list follow each other on both sides.\<close>

definition common :: "'a list \<Rightarrow> 'a list \<Rightarrow> match_run \<Rightarrow> bool" where
  "common a b r =
     (case r of (p, q, l) \<Rightarrow> 0 < l \<and> p + l \<le> length a \<and> q + l \<le> length b \<and> (\<forall>k < l. a ! (p + k) = b ! (q + k)))"

fun runs_from :: "nat \<Rightarrow> nat \<Rightarrow> match_run list \<Rightarrow> bool" where
  "runs_from p q [] \<longleftrightarrow> True"
| "runs_from p q ((p', q', l) # rs) \<longleftrightarrow> p \<le> p' \<and> q \<le> q' \<and> runs_from (p' + l) (q' + l) rs"

definition runs_end :: "nat \<Rightarrow> nat \<Rightarrow> match_run list \<Rightarrow> nat \<times> nat" where
  "runs_end p q rs = (if rs = [] then (p, q) else (case last rs of (p', q', l) \<Rightarrow> (p' + l, q' + l)))"

lemma runs_end_Cons: "runs_end p q ((p', q', l) # rs) = runs_end (p' + l) (q' + l) rs"
  by (simp add: runs_end_def)

lemma runs_end_snoc [simp]: "runs_end p q (rs @ [(p', q', l)]) = (p' + l, q' + l)"
  by (simp add: runs_end_def)

lemma runs_from_snoc:
  "runs_from p q (rs @ [(p', q', l)]) \<longleftrightarrow>
     runs_from p q rs \<and> fst (runs_end p q rs) \<le> p' \<and> snd (runs_end p q rs) \<le> q'"
  by (induction rs arbitrary: p q) (auto simp: runs_end_def)

definition runs_ok :: "'a list \<Rightarrow> 'a list \<Rightarrow> nat \<Rightarrow> nat \<Rightarrow> match_run list \<Rightarrow> bool" where
  "runs_ok a b p q rs \<longleftrightarrow>
     runs_from 0 0 rs \<and> list_all (common a b) rs \<and> fst (runs_end 0 0 rs) \<le> p \<and> snd (runs_end 0 0 rs) \<le> q"

lemma common_extend:
  assumes "common a b (p', q', l)" and "common a b (p' + l, q' + l, k)"
  shows "common a b (p', q', l + k)"
proof -
  have "a ! (p' + i) = b ! (q' + i)" if "i < l + k" for i
  proof (cases "i < l")
    case True
    with assms(1) show ?thesis by (simp add: common_def)
  next
    case False
    with that have "i = l + (i - l)" "i - l < k" by simp_all
    then obtain j where "i = l + j" "j < k" by blast
    with assms(2) show ?thesis by (simp add: common_def flip: add.assoc)
  qed
  with assms show ?thesis by (simp add: common_def)
qed

lemma runs_ok_snoc:
  "runs_ok a b x y (rs @ [(p, q, k)]) \<longleftrightarrow> runs_ok a b p q rs \<and> common a b (p, q, k) \<and> p + k \<le> x \<and> q + k \<le> y"
  by (auto simp: runs_ok_def runs_from_snoc)

lemma push_run_ok:
  assumes ok: "runs_ok a b p q rs" and c: "common a b (p, q, k)"
  shows "runs_ok a b (p + k) (q + k) (push_run p q k rs) \<and>
     sum_list (map run_length (push_run p q k rs)) = sum_list (map run_length rs) + k"
proof (cases "rs \<noteq> [] \<and> (case last rs of (p', q', l) \<Rightarrow> p' + l = p \<and> q' + l = q)")
  case True
  then obtain ys p' q' l where rs: "rs = ys @ [(p', q', l)]" and eq: "p' + l = p" "q' + l = q"
    by (cases rs rule: rev_cases) auto
  with assms have "common a b (p', q', l + k)" "runs_ok a b p' q' ys"
    by (auto simp: runs_ok_snoc intro: common_extend)
  with rs eq show ?thesis by (simp add: push_run_def runs_ok_snoc run_length_def)
next
  case False
  then have "push_run p q k rs = rs @ [(p, q, k)]"
    by (auto simp: push_run_def split: prod.splits)
  with assms show ?thesis by (simp add: runs_ok_snoc run_length_def)
qed

lemma runs_ok_mono: "runs_ok a b p q rs \<Longrightarrow> p \<le> p' \<Longrightarrow> q \<le> q' \<Longrightarrow> runs_ok a b p' q' rs"
  by (auto simp: runs_ok_def)

lemma run_walk_ok:
  assumes "runs_ok a b (start + i) (start + j) runs" and "i \<le> length a'" and "j \<le> length b'"
    and "\<And>k. k < length a' \<Longrightarrow> a' ! k = a ! (start + k)" and "start + length a' \<le> length a"
    and "\<And>k. k < length b' \<Longrightarrow> b' ! k = b ! (start + k)" and "start + length b' \<le> length b"
  shows "runs_ok a b (start + length a') (start + length b') (run_walk t a' b' start i j runs) \<and>
     sum_list (map run_length (run_walk t a' b' start i j runs)) =
       sum_list (map run_length runs) +
         length (filter is_both (lcs_walk (read_flat t (Suc (length b'))) a' b' i j))"
  using assms
proof (induction t a' b' start i j runs rule: run_walk.induct)
  case (1 t a' b' start i j runs)
  show ?case
  proof (cases "i < length a' \<and> j < length b'")
    case False
    then have "run_walk t a' b' start i j runs = runs" by (subst run_walk.simps) (simp only: if_False)
    moreover have "runs_ok a b (start + length a') (start + length b') runs"
      by (rule runs_ok_mono [OF "1.prems"(1)]) (use "1.prems"(2,3) in simp_all)
    ultimately show ?thesis using False by (simp add: lcs_walk_tail del: map_map)
  next
    case True
    show ?thesis
    proof (cases "a' ! i = b' ! j")
      case eq: True
      with "1.prems" True have "common a b (start + i, start + j, 1)" by (simp add: common_def)
      from push_run_ok [OF "1.prems"(1) this] "1.IH"(1) [OF True eq] "1.prems" True eq
      show ?thesis
        by (simp add: run_walk.simps [of t a' b' start i j] lcs_walk.simps [of _ a' b' i j])
    next
      case neq: False
      have "runs_ok a b (start + Suc i) (start + j) runs" "runs_ok a b (start + i) (start + Suc j) runs"
        by (rule runs_ok_mono [OF "1.prems"(1)]; simp)+
      with "1.IH"(2,3) [OF True neq] "1.prems" True neq show ?thesis
        by (auto simp: run_walk.simps [of t a' b' start i j] lcs_walk.simps [of _ a' b' i j])
    qed
  qed
qed


definition first_runs :: "nat \<Rightarrow> match_run list" where
  "first_runs start = (if start > 0 then [(0, 0, start)] else [])"

definition middle_runs :: "'a list \<Rightarrow> 'a list \<Rightarrow> nat \<Rightarrow> match_run list" where
  "middle_runs a' b' start =
     (if length a' > 0 \<and> length b' > 0 then run_walk (flat_table a' b') a' b' start 0 0 (first_runs start)
      else first_runs start)"

lemma first_runs_ok:
  assumes "start \<le> length a" "start \<le> length b" "take start a = take start b"
  shows "runs_ok a b start start (first_runs start) \<and> sum_list (map run_length (first_runs start)) = start"
proof -
  have "a ! k = b ! k" if "k < start" for k
    using assms(3) that by (metis nth_take)
  then show ?thesis
    using assms(1,2) by (auto simp: first_runs_def runs_ok_def common_def runs_end_def run_length_def)
qed

lemma middle_runs_ok:
  assumes pre: "start \<le> length a" "start \<le> length b" "take start a = take start b"
    and suf: "start \<le> eA" "start \<le> eB" "eA \<le> length a" "eB \<le> length b" and "length a < 2 ^ 16"
  defines "a' \<equiv> slice a start eA" and "b' \<equiv> slice b start eB"
  shows "runs_ok a b eA eB (middle_runs a' b' start) \<and>
     sum_list (map run_length (middle_runs a' b' start)) = start + lcs a' b'"
proof -
  have len: "length a' = eA - start" "length b' = eB - start"
    using suf by (simp_all add: a'_def b'_def length_slice)
  have nth: "k < length a' \<Longrightarrow> a' ! k = a ! (start + k)" "k < length b' \<Longrightarrow> b' ! k = b ! (start + k)" for k
    using suf len by (simp_all add: a'_def b'_def nth_slice)
  have first: "runs_ok a b start start (first_runs start)" "sum_list (map run_length (first_runs start)) = start"
    using first_runs_ok [OF pre] by simp_all
  show ?thesis
  proof (cases "length a' > 0 \<and> length b' > 0")
    case True
    have "length a' < 2 ^ 16" using assms(8) len suf(3) by simp
    from word_table.walk_count [OF this, of 0 0 b']
      run_walk_ok [of a b start 0 0 "first_runs start" a' b' "flat_table a' b'"]
    show ?thesis using first nth len suf True by (simp add: middle_runs_def)
  next
    case False
    then show ?thesis using first suf by (auto simp: middle_runs_def elim: runs_ok_mono)
  qed
qed

lemma matchedRuns_ok:
  assumes "length a < 2 ^ 16"
  shows "runs_ok a b (length a) (length b) (matchedRuns a b) \<and> sum_list (map run_length (matchedRuns a b)) = lcs a b"
proof -
  define start where "start = start_loop a b"
  obtain eA eB where ends: "end_loop a b start (length a) (length b) = (eA, eB)" by fastforce
  have pre: "start \<le> length a" "start \<le> length b" "take start a = take start b"
    using start_loop_prefix [of a b] start_def by simp_all
  with end_loop_suffix [OF ends]
  have suf: "start \<le> eA" "start \<le> eB" "eA \<le> length a" "eB \<le> length b" "drop eA a = drop eB b" by auto
  let ?middle = "middle_runs (slice a start eA) (slice b start eB) start"
  note middle = middle_runs_ok [OF pre suf(1-4) assms]
  have result: "matchedRuns a b = (if eA < length a then push_run eA eB (length a - eA) ?middle else ?middle)"
    using ends by (simp add: matchedRuns_def Let_def middle_runs_def first_runs_def flip: start_def)
  note total = stripped_lcs [OF start_def ends]
  have same: "length b - eB = length a - eA" using arg_cong [OF suf(5), of length] by simp
  then have rest: "eA + (length a - eA) = length a" "eB + (length a - eA) = length b"
    using suf(3,4) by simp_all
  show ?thesis
  proof (cases "eA < length a")
    case True
    have "a ! (eA + k) = b ! (eB + k)" for k
      using suf(3-5) by (metis nth_drop)
    with True rest have "common a b (eA, eB, length a - eA)" by (simp add: common_def)
    from push_run_ok [OF conjunct1 [OF middle] this] middle show ?thesis
      unfolding result total rest using True by simp
  next
    case False
    then show ?thesis
      unfolding result total using middle suf same by (auto elim: runs_ok_mono)
  qed
qed

section \<open>Changed ranges\<close>

lemma runs_from_mono: "runs_from p q rs \<Longrightarrow> p' \<le> p \<Longrightarrow> q' \<le> q \<Longrightarrow> runs_from p' q' rs"
  by (cases rs) auto

lemma runs_from_subseq: "subseq rs' rs \<Longrightarrow> runs_from p q rs \<Longrightarrow> runs_from p q rs'"
proof (induction arbitrary: p q rule: list_emb.induct)
  case (list_emb_Cons xs ys y)
  obtain x z l where y: "y = (x, z, l)" by (cases y)
  with list_emb_Cons show ?case
    using runs_from_mono [of "x + l" "z + l" xs p q] by auto
next
  case (list_emb_Cons2 x y xs ys)
  then show ?case by (cases y) auto
qed simp

lemma subseq_filter_runs: "subseq (filter_runs before after runs) runs"
  using filter_upt_nths [of runs "{i. keep_run before after runs i}"]
  by (auto simp: filter_runs_def subseq_conv_nths)

text \<open>Intervals \<open>(from, length)\<close> one after the other, up to an end.\<close>

fun spans_from :: "nat \<Rightarrow> (nat \<times> nat) list \<Rightarrow> nat \<Rightarrow> bool" where
  "spans_from c [] n \<longleftrightarrow> c \<le> n"
| "spans_from c ((f, l) # rs) n \<longleftrightarrow> c \<le> f \<and> 0 < l \<and> spans_from (f + l) rs n"

text \<open>Ranges in increasing order with text between them.\<close>

fun ranges_from :: "nat \<Rightarrow> text_range list \<Rightarrow> nat \<Rightarrow> bool" where
  "ranges_from c [] n \<longleftrightarrow> True"
| "ranges_from c ((s, e) # rs) n \<longleftrightarrow> c \<le> s \<and> s < e \<and> e \<le> n \<and> ranges_from (Suc e) rs n"

definition covered :: "text_range list \<Rightarrow> nat set" where
  "covered rs = {i. \<exists>(s, e) \<in> set rs. s \<le> i \<and> i < e}"

text \<open>The text of a line outside the given ranges.\<close>

definition text_outside :: "text_range list \<Rightarrow> 'a list \<Rightarrow> 'a list" where
  "text_outside rs xs = nths xs (- covered rs)"

lemma spans_end: "spans_from c rs n \<Longrightarrow> c \<le> n"
  by (induction c rs n rule: spans_from.induct) auto

lemma ranges_from_mono: "ranges_from c rs n \<Longrightarrow> c' \<le> c \<Longrightarrow> ranges_from c' rs n"
  by (cases rs) auto

lemma gaps_ranges: "spans_from c rs n \<Longrightarrow> ranges_from c (gaps c rs n) n"
proof (induction c rs n rule: gaps.induct)
  case (2 c f l rs n)
  then have "ranges_from (f + l) (gaps (f + l) rs n) n" "f < n"
    using spans_end [of "f + l" rs n] by auto
  with 2 show ?case by (auto intro: ranges_from_mono)
qed auto


text \<open>The positions of the spans, in order.\<close>

definition span_positions :: "(nat \<times> nat) list \<Rightarrow> nat list" where
  "span_positions rs = concat (map (\<lambda>(f, l). [f..<f + l]) rs)"

lemma covered_simps [simp]:
  "covered [] = {}" "covered ((s, e) # rs) = {s..<e} \<union> covered rs" "covered (rs @ rs') = covered rs \<union> covered rs'"
  by (auto simp: covered_def)

lemma gaps_bounds: "i \<in> covered (gaps c rs n) \<Longrightarrow> spans_from c rs n \<Longrightarrow> c \<le> i"
  by (induction c rs n rule: gaps.induct) (auto split: if_splits)

lemma filter_not_covered:
  "spans_from c rs n \<Longrightarrow> filter (\<lambda>i. i \<notin> covered (gaps c rs n)) [c..<n] = span_positions rs"
proof (induction c rs n rule: gaps.induct)
  case (1 c n)
  then show ?case by (auto simp: span_positions_def filter_empty_conv)
next
  case (2 c f l rs n)
  then have le: "c \<le> f" "f + l \<le> n" and rest: "spans_from (f + l) rs n"
    using spans_end [of "f + l" rs n] by auto
  have gaps_eq: "covered (gaps c ((f, l) # rs) n) = {c..<f} \<union> covered (gaps (f + l) rs n)"
    by auto
  have split: "[c..<n] = [c..<f] @ [f..<f + l] @ [f + l..<n]"
    using le upt_split [of c f n] upt_split [of f "f + l" n] by simp
  have outside: "i \<notin> covered (gaps (f + l) rs n)" if "i < f + l" for i
    using gaps_bounds [OF _ rest] that by force
  have "filter (\<lambda>i. i \<notin> covered (gaps c ((f, l) # rs) n)) [c..<f] = []"
    "filter (\<lambda>i. i \<notin> covered (gaps c ((f, l) # rs) n)) [f..<f + l] = [f..<f + l]"
    using outside by (auto simp: gaps_eq filter_empty_conv simp del: gaps.simps intro!: filter_True)
  moreover have "filter (\<lambda>i. i \<notin> covered (gaps c ((f, l) # rs) n)) [f + l..<n] =
      filter (\<lambda>i. i \<notin> covered (gaps (f + l) rs n)) [f + l..<n]"
    by (rule filter_cong) (use le in \<open>auto simp: gaps_eq simp del: gaps.simps\<close>)
  ultimately show ?case
    using "2.IH" [OF rest] by (simp add: split span_positions_def del: gaps.simps)
qed

lemma text_outside_gaps:
  assumes "spans_from 0 rs (length xs)"
  shows "text_outside (gaps 0 rs (length xs)) xs = map ((!) xs) (span_positions rs)"
  using filter_upt_nths [of xs "- covered (gaps 0 rs (length xs))"] filter_not_covered [OF assms]
  by (simp add: text_outside_def)

lemma runs_spans:
  assumes "runs_from p q rs" and "list_all (common a b) rs" and "p \<le> length a" and "q \<le> length b"
  shows "spans_from p (map side_a rs) (length a) \<and> spans_from q (map side_b rs) (length b)"
  using assms by (induction p q rs rule: runs_from.induct) (auto simp: side_a_def side_b_def common_def)

lemma common_text:
  assumes "list_all (common a b) rs"
  shows "map ((!) a) (span_positions (map side_a rs)) = map ((!) b) (span_positions (map side_b rs))"
  using assms
proof (induction rs)
  case (Cons r rs)
  obtain p q l where r: "r = (p, q, l)" by (cases r)
  have "map ((!) a) [p..<p + l] = map ((!) b) [q..<q + l]"
    by (rule nth_equalityI) (use Cons.prems in \<open>auto simp: r common_def\<close>)
  with Cons show ?case by (simp add: span_positions_def r side_a_def side_b_def)
qed (simp add: span_positions_def)

text \<open>
  C9. The ranges of a word diff are in order, non-empty, apart from each other and inside their line on
  both sides, and what is not highlighted is the same text in both lines.
\<close>

theorem wordDiffRanges_sound:
  assumes "wordDiffRanges before after = Some (left, right)"
  shows "ranges_from 0 left (length before) \<and> ranges_from 0 right (length after) \<and>
    text_outside left before = text_outside right after"
proof -
  let ?runs = "filter_runs before after (matchedRuns before after)"
  have size: "length before < 2 ^ 16" and lr: "left = gaps 0 (map side_a ?runs) (length before)"
    "right = gaps 0 (map side_b ?runs) (length after)"
    using assms by (auto simp: wordDiffRanges_def WORD_DIFF_MAX_LINE_def Let_def split: if_splits)
  note ok = conjunct1 [OF matchedRuns_ok [OF size, of after]]
  have "runs_from 0 0 ?runs"
    by (rule runs_from_subseq [OF subseq_filter_runs]) (use ok in \<open>simp add: runs_ok_def\<close>)
  moreover have "set ?runs \<subseteq> set (matchedRuns before after)"
    by (auto simp: filter_runs_def)
  then have common: "list_all (common before after) ?runs"
    using ok by (auto simp: runs_ok_def list_all_iff)
  ultimately have spans: "spans_from 0 (map side_a ?runs) (length before)"
    "spans_from 0 (map side_b ?runs) (length after)"
    using runs_spans [of 0 0 ?runs before after] by auto
  show ?thesis
    unfolding lr text_outside_gaps [OF spans(1)] text_outside_gaps [OF spans(2)] common_text [OF common]
    using spans by (simp add: gaps_ranges)
qed

theorem wordDiffRanges_sound_witness:
  "wordDiffRanges ''let a = 1;'' ''let bc = 1;'' = Some ([(4, 5)], [(4, 6)]) \<and>
   ranges_from 0 [(4, 5)] (length ''let a = 1;'') \<and> ranges_from 0 [(4, 6)] (length ''let bc = 1;'') \<and>
   text_outside [(4, 5)] ''let a = 1;'' = text_outside [(4, 6)] ''let bc = 1;''"
proof -
  have "wordDiffRanges ''let a = 1;'' ''let bc = 1;'' = Some ([(4, 5)], [(4, 6)])" by code_simp
  from this wordDiffRanges_sound [OF this] show ?thesis by (rule conjI)
qed

text \<open>
  C11. The matched runs of two lines are in order and name equal text, and together they are as long as
  the longest common subsequence of the lines, so no other choice of matches highlights less.
\<close>

theorem matchedRuns_optimal:
  assumes "length a < 2 ^ 16"
  shows "runs_from 0 0 (matchedRuns a b) \<and> list_all (common a b) (matchedRuns a b) \<and>
    sum_list (map run_length (matchedRuns a b)) = lcs a b"
  using matchedRuns_ok [OF assms, of b] by (simp add: runs_ok_def)

theorem matchedRuns_optimal_witness:
  "sum_list (map run_length (matchedRuns ''abcd'' ''bxd'')) = lcs ''abcd'' ''bxd''"
  using matchedRuns_optimal [of "''abcd''" "''bxd''"] by simp


section \<open>The pairing\<close>

lemma pair_rows_simps [simp]:
  "pair_rows [] [] = []"
  "pair_rows (r # rs) (a # as) = (Some r, Some a) # pair_rows rs as"
  "pair_rows (r # rs) [] = (Some r, None) # pair_rows rs []"
  "pair_rows [] (a # as) = (None, Some a) # pair_rows [] as"
  unfolding pair_rows_def
  by (simp_all add: upt_conv_Cons nth_opt_def comp_def del: upt_Suc flip: map_Suc_upt)

definition index_of :: "diff_line \<Rightarrow> nat" where
  "index_of l = (case oldNumber l of Some i \<Rightarrow> i | None \<Rightarrow> 0)"

text \<open>The pair of indices a row of the split view sets side by side, if it sets two changes.\<close>

fun row_pair :: "diff_row \<Rightarrow> (nat \<times> nat) list" where
  "row_pair (Some l, Some r) = (if kind l = Remove then [(index_of l, index_of r)] else [])"
| "row_pair _ = []"

lemma row_pairs_block:
  "list_all (\<lambda>l. kind l = Remove) rs \<Longrightarrow>
     concat (map row_pair (pair_rows rs as)) = zip (map index_of rs) (map index_of as)"
proof (induction rs arbitrary: as)
  case Nil
  show ?case by (induction as) simp_all
next
  case (Cons r rs)
  show ?case
  proof (cases as)
    case Nil
    have "concat (map row_pair (pair_rows qs [])) = []" for qs by (induction qs) simp_all
    with Nil show ?thesis by simp
  next
    case (Cons a as')
    with Cons.prems Cons.IH [of as'] show ?thesis by simp
  qed
qed

definition line_key :: "diff_line \<Rightarrow> diff_line_kind \<times> nat" where
  "line_key l = (kind l, index_of l)"

lemma flush_flush: "flush f (flush f st) = flush f st"
  by (simp add: flush_def)

lemma visit_removed:
  "list_all (\<lambda>l. kind l = Remove) rs \<Longrightarrow> ps_added st = [] \<Longrightarrow>
     foldl (visit_line f) st (map line_key rs) = st\<lparr>ps_removed := ps_removed st @ map index_of rs\<rparr>"
  by (induction rs arbitrary: st) (simp_all add: visit_line_def line_key_def)

lemma visit_added:
  "list_all (\<lambda>l. kind l = Add) as \<Longrightarrow>
     foldl (visit_line f) st (map line_key as) = st\<lparr>ps_added := ps_added st @ map index_of as\<rparr>"
  by (induction as arbitrary: st) (simp_all add: visit_line_def line_key_def)

text \<open>At the end of a block it does not matter whether the block was flushed already.\<close>

lemma visit_after_block:
  assumes "ls = [] \<or> kind (hd ls) = Context \<or> (kind (hd ls) = Remove \<and> ps_added st \<noteq> [])"
  shows "flush f (foldl (visit_line f) st (map line_key ls)) =
     flush f (foldl (visit_line f) (flush f st) (map line_key ls))"
proof (cases ls)
  case (Cons l ls')
  with assms have "visit_line f st (line_key l) = visit_line f (flush f st) (line_key l)"
    by (auto simp: visit_line_def line_key_def flush_def)
  with Cons show ?thesis by simp
qed (simp add: flush_flush)

lemma after_block:
  fixes lines :: "diff_line list"
  defines "ar \<equiv> dropWhile (\<lambda>l. kind l = Remove) lines"
  defines "aa \<equiv> dropWhile (\<lambda>l. kind l = Add) ar"
  shows "aa = [] \<or> kind (hd aa) = Context \<or> (kind (hd aa) = Remove \<and> takeWhile (\<lambda>l. kind l = Add) ar \<noteq> [])"
proof (cases "aa = []")
  case False
  then have "kind (hd aa) \<noteq> Add" using hd_dropWhile aa_def by blast
  moreover have "kind (hd aa) \<noteq> Remove" if "takeWhile (\<lambda>l. kind l = Add) ar = []"
  proof -
    have "aa = ar" using that by (metis aa_def append_Nil takeWhile_dropWhile_id)
    with False show ?thesis using hd_dropWhile [of "\<lambda>l. kind l = Remove" lines] by (simp add: ar_def)
  qed
  ultimately show ?thesis by (cases "kind (hd aa)") auto
qed simp

lemma list_all_takeWhile: "list_all P (takeWhile P xs)"
  by (induction xs) simp_all

lemma visit_pairs:
  "ps_removed st = [] \<Longrightarrow> ps_added st = [] \<Longrightarrow>
   ps_result (flush f (foldl (visit_line f) st (map line_key lines))) =
     foldl (mark_pair f) (ps_result st) (concat (map row_pair (pairDiffLines lines)))"
proof (induction lines arbitrary: st rule: pairDiffLines.induct)
  case 1
  then show ?case by (simp add: flush_def)
next
  case (2 line rest)
  show ?case
  proof (cases "kind line = Context")
    case True
    with 2 have "visit_line f st (line_key line) = st"
      by (cases st) (simp add: visit_line_def line_key_def flush_def)
    with 2 True show ?thesis by simp
  next
    case False
    let ?ls = "line # rest"
    define R where "R = takeWhile (\<lambda>l. kind l = Remove) ?ls"
    define ar where "ar = dropWhile (\<lambda>l. kind l = Remove) ?ls"
    define A where "A = takeWhile (\<lambda>l. kind l = Add) ar"
    define aa where "aa = dropWhile (\<lambda>l. kind l = Add) ar"
    have ls: "?ls = R @ A @ aa" by (simp only: R_def A_def aa_def ar_def takeWhile_dropWhile_id)
    define st' where "st' = st\<lparr>ps_removed := map index_of R, ps_added := map index_of A\<rparr>"
    have block: "foldl (visit_line f) st (map line_key (R @ A)) = st'"
      using "2.prems" by (simp add: visit_removed visit_added list_all_takeWhile R_def A_def st'_def
          del: takeWhile.simps)
    have "ps_result (flush f (foldl (visit_line f) st (map line_key ?ls))) =
        ps_result (flush f (foldl (visit_line f) st' (map line_key aa)))"
      unfolding ls append_assoc [symmetric] map_append [of _ "R @ A"] foldl_append block ..
    also have "\<dots> = ps_result (flush f (foldl (visit_line f) (flush f st') (map line_key aa)))"
    proof -
      have "ps_added st' \<noteq> [] \<longleftrightarrow> A \<noteq> []" by (simp add: st'_def)
      then show ?thesis
        using after_block [of ?ls] visit_after_block [of aa st' f] unfolding A_def aa_def ar_def by metis
    qed
    also have "\<dots> = foldl (mark_pair f) (ps_result (flush f st')) (concat (map row_pair (pairDiffLines aa)))"
      using "2.IH"(2) [OF False refl refl refl refl, of "flush f st'"] by (simp add: flush_def aa_def ar_def)
    also have "ps_result (flush f st') = foldl (mark_pair f) (ps_result st) (concat (map row_pair (pair_rows R A)))"
      by (simp add: flush_def st'_def row_pairs_block R_def list_all_takeWhile del: takeWhile.simps)
    finally show ?thesis
      using False by (simp add: Let_def R_def A_def aa_def ar_def del: takeWhile.simps dropWhile.simps)
  qed
qed


text \<open>The lines of a diff by kind, each carrying its index.\<close>

definition indexed :: "diff_line_kind list \<Rightarrow> diff_line list" where
  "indexed ks = map (\<lambda>(k, i). \<lparr>kind = k, content = [], oldNumber = Some i, newNumber = Some i\<rparr>)
     (zip ks [0..<length ks])"

text \<open>
  C33. The highlights of a diff follow the pairing of the split view: they are the word diffs of exactly
  the pairs of a removal and an addition that \<open>pairDiffLines\<close> puts in one row, in the order of the rows.
\<close>

theorem pairedWordRanges_rows:
  "pairedWordRanges ks textOf =
     foldl (mark_pair textOf) [] (concat (map row_pair (pairDiffLines (indexed ks))))"
proof -
  have "map line_key (indexed ks) = zip ks [0..<length ks]"
    by (auto simp: indexed_def line_key_def index_of_def intro!: map_idI)
  then show ?thesis
    using visit_pairs [of "\<lparr>ps_result = [], ps_removed = [], ps_added = []\<rparr>" textOf "indexed ks"]
    by (simp add: pairedWordRanges_def)
qed

section \<open>Marks\<close>

text \<open>What the output is made of: tags of the input, units of text, and the marks.\<close>

datatype piece = Tag string | Unit string | OpenM | CloseM

fun render_piece :: "piece \<Rightarrow> string" where
  "render_piece (Tag s) = s"
| "render_piece (Unit s) = s"
| "render_piece OpenM = open_mark"
| "render_piece CloseM = close_mark"

definition render :: "piece list \<Rightarrow> string" where
  "render ps = concat (map render_piece ps)"

fun is_mark :: "piece \<Rightarrow> bool" where
  "is_mark OpenM = True"
| "is_mark CloseM = True"
| "is_mark _ = False"

fun is_unit :: "piece \<Rightarrow> bool" where
  "is_unit (Unit s) = True"
| "is_unit _ = False"

definition unmarked :: "piece list \<Rightarrow> piece list" where
  "unmarked ps = filter (\<lambda>p. \<not> is_mark p) ps"

definition unit_count :: "piece list \<Rightarrow> nat" where
  "unit_count ps = length (filter is_unit ps)"

text \<open>Marks open and close in turn, and no tag is inside one: the last state, if all is well.\<close>

fun mark_machine :: "bool option \<Rightarrow> piece \<Rightarrow> bool option" where
  "mark_machine (Some False) OpenM = Some True"
| "mark_machine (Some True) CloseM = Some False"
| "mark_machine (Some False) (Tag s) = Some False"
| "mark_machine (Some b) (Unit s) = Some b"
| "mark_machine _ _ = None"

text \<open>Which units are inside a mark.\<close>

fun unit_marks :: "bool \<Rightarrow> piece list \<Rightarrow> bool list" where
  "unit_marks b [] = []"
| "unit_marks b (Unit s # ps) = b # unit_marks b ps"
| "unit_marks b (OpenM # ps) = unit_marks True ps"
| "unit_marks b (CloseM # ps) = unit_marks False ps"
| "unit_marks b (Tag s # ps) = unit_marks b ps"

lemma html_unit_cases: "s \<noteq> [] \<Longrightarrow> \<exists>k. html_unit s = take (Suc k) s"
proof (cases s)
  case (Cons c r)
  have "\<exists>k. [c] = take (Suc k) s" using Cons by (intro exI [of _ 0]) simp
  with Cons show ?thesis by (auto simp: html_unit_def split: option.split)
qed simp

lemma html_unit_nonempty: "s \<noteq> [] \<Longrightarrow> html_unit s \<noteq> []"
  using html_unit_cases [of s] by auto

lemma html_unit_append: "html_unit s @ drop (length (html_unit s)) s = s"
proof (cases "s = []")
  case False
  then obtain k where "html_unit s = take (Suc k) s" using html_unit_cases by blast
  then show ?thesis by (metis append_eq_conv_conj append_take_drop_id)
qed (simp add: html_unit_def)

function tokens :: "string \<Rightarrow> piece list option" where
  "tokens s =
     (if s = [] then Some []
      else if hd s = CHR ''<'' then
        (case find_index (\<lambda>x. x = CHR ''>'') s of
           None \<Rightarrow> None
         | Some e \<Rightarrow> map_option (\<lambda>ts. Tag (take (Suc e) s) # ts) (tokens (drop (Suc e) s)))
      else map_option (\<lambda>ts. Unit (html_unit s) # ts) (tokens (drop (length (html_unit s)) s)))"
  by pat_completeness auto
termination
  by (relation "measure length") (auto simp: html_unit_nonempty)

declare tokens.simps [simp del]

lemma tokens_render: "tokens s = Some ts \<Longrightarrow> render ts = s"
proof (induction s arbitrary: ts rule: tokens.induct)
  case (1 s)
  from "1.prems" "1.IH" show ?case
    by (auto simp: tokens.simps [of s] render_def html_unit_append split: if_splits option.splits)
qed

lemma mark_loop_unclosed:
  "tokens html = None \<Longrightarrow> tokens (drop (ms_index st) html) = None \<Longrightarrow> mark_loop fuel html st = None"
proof (induction fuel arbitrary: st)
  case 0
  then show ?case by (auto simp: tokens.simps [of "[]"] not_less)
next
  case (Suc fuel)
  let ?rest = "drop (ms_index st) html"
  have i: "ms_index st < length html"
    using Suc.prems by (rule_tac ccontr) (simp add: tokens.simps [of "[]"])
  have "tokens (drop (ms_index (mark_step html st)) html) = None"
  proof (cases "hd ?rest = CHR ''<''")
    case True
    with Suc.prems i show ?thesis
      by (auto simp: mark_step_def Let_def closeMark_def tokens.simps [of ?rest] add.commute
          split: option.splits)
  next
    case False
    with Suc.prems i show ?thesis
      by (auto simp: mark_step_def Let_def closeMark_def tokens.simps [of ?rest] add.commute
          split: option.splits)
  qed
  with Suc i show ?case by simp
qed


lemma mark_machine_None [simp]: "foldl mark_machine None ps = None"
  by (induction ps) simp_all

lemma unit_marks_append:
  "foldl mark_machine (Some b) ps = Some c \<Longrightarrow> unit_marks b (ps @ qs) = unit_marks b ps @ unit_marks c qs"
proof (induction ps arbitrary: b)
  case (Cons p ps)
  then show ?case by (cases p; cases b) auto
qed simp

lemma covered_ranges_from: "ranges_from c rs n \<Longrightarrow> i \<in> covered rs \<Longrightarrow> c \<le> i"
  by (induction c rs n rule: ranges_from.induct) fastforce+

lemma skip_ranges_sorted: "ranges_from c rs n \<Longrightarrow> ranges_from c (skip_ranges rs p) n"
proof (induction rs p arbitrary: c rule: skip_ranges.induct)
  case (2 s e rs p)
  then show ?case using ranges_from_mono [of "Suc e" rs n c] by auto
qed simp

lemma skip_ranges_covered: "p \<le> i \<Longrightarrow> i \<in> covered (skip_ranges rs p) \<longleftrightarrow> i \<in> covered rs"
  by (induction rs p rule: skip_ranges.induct) auto

lemma skip_ranges_inside:
  assumes "ranges_from c rs n"
  shows "(case skip_ranges rs p of [] \<Rightarrow> False | (s, e) # _ \<Rightarrow> p \<ge> s \<and> p < e) \<longleftrightarrow> p \<in> covered rs"
  using assms
proof (induction rs p arbitrary: c rule: skip_ranges.induct)
  case (2 s e rs p)
  then show ?case
    using covered_ranges_from [of "Suc e" rs n p] by (cases "p \<ge> e") auto
qed simp

text \<open>The invariant of the loop: \<open>ps\<close> are the pieces written so far.\<close>

definition mark_inv :: "string \<Rightarrow> text_range list \<Rightarrow> mark_state \<Rightarrow> piece list \<Rightarrow> bool" where
  "mark_inv html ranges st ps \<longleftrightarrow>
     tokens (drop (ms_index st) html) \<noteq> None \<and> ms_out st = render ps \<and>
     render (unmarked ps) = take (ms_index st) html \<and>
     foldl mark_machine (Some False) ps = Some (ms_open st) \<and> ms_position st = unit_count ps \<and>
     unit_marks False ps = map (\<lambda>i. i \<in> covered ranges) [0..<unit_count ps] \<and>
     (\<exists>n. ranges_from 0 (ms_ranges st) n) \<and>
     (\<forall>i \<ge> unit_count ps. i \<in> covered (ms_ranges st) \<longleftrightarrow> i \<in> covered ranges)"

lemma pieces_snoc [simp]:
  "render (ps @ [p]) = render ps @ render_piece p"
  "unmarked (ps @ [p]) = unmarked ps @ (if is_mark p then [] else [p])"
  "unit_count (ps @ [p]) = unit_count ps + (if is_unit p then 1 else 0)"
  "render [] = []" "unmarked [] = []" "unit_count [] = 0"
  by (simp_all add: render_def unmarked_def unit_count_def)

lemma mark_inv_close:
  "mark_inv html ranges st ps \<Longrightarrow> \<exists>qs. mark_inv html ranges (closeMark st) qs \<and> \<not> ms_open (closeMark st)"
proof (cases "ms_open st")
  case True
  assume "mark_inv html ranges st ps"
  with True have "mark_inv html ranges (closeMark st) (ps @ [CloseM])"
    by (simp add: mark_inv_def closeMark_def unit_marks_append)
  with True show ?thesis by (auto simp: closeMark_def)
qed (auto simp: closeMark_def)

lemma mark_inv_open:
  assumes "mark_inv html ranges st ps" and "\<not> ms_open st"
  shows "mark_inv html ranges (st\<lparr>ms_out := ms_out st @ open_mark, ms_open := True\<rparr>) (ps @ [OpenM])"
  using assms by (simp add: mark_inv_def unit_marks_append)

lemma mark_inv_tag:
  assumes inv: "mark_inv html ranges st ps" and "\<not> ms_open st" and i: "ms_index st < length html"
    and lt: "hd (drop (ms_index st) html) = CHR ''<''"
    and e: "find_index (\<lambda>x. x = CHR ''>'') (drop (ms_index st) html) = Some e"
  shows "mark_inv html ranges
     (st\<lparr>ms_out := ms_out st @ take (Suc e) (drop (ms_index st) html), ms_index := ms_index st + Suc e\<rparr>)
     (ps @ [Tag (take (Suc e) (drop (ms_index st) html))])"
proof -
  have "tokens (drop (ms_index st + Suc e) html) \<noteq> None"
    using inv i lt e by (auto simp: mark_inv_def tokens.simps [of "drop (ms_index st) html"] add.commute)
  moreover have "take (ms_index st + Suc e) html = take (ms_index st) html @ take (Suc e) (drop (ms_index st) html)"
    by (simp only: take_add)
  ultimately show ?thesis
    using inv assms(2) by (simp add: mark_inv_def unit_marks_append)
qed

lemma mark_inv_unit:
  assumes inv: "mark_inv html ranges st ps" and i: "ms_index st < length html"
    and lt: "hd (drop (ms_index st) html) \<noteq> CHR ''<''"
    and op: "ms_open st \<longleftrightarrow> ms_position st \<in> covered ranges"
  defines "u \<equiv> html_unit (drop (ms_index st) html)"
  shows "mark_inv html ranges
     (st\<lparr>ms_out := ms_out st @ u, ms_index := ms_index st + length u, ms_position := Suc (ms_position st)\<rparr>)
     (ps @ [Unit u])"
proof -
  have "tokens (drop (ms_index st + length u) html) \<noteq> None"
    using inv i lt by (auto simp: mark_inv_def tokens.simps [of "drop (ms_index st) html"] u_def add.commute)
  moreover have "take (ms_index st + length u) html = take (ms_index st) html @ u"
    using html_unit_append [of "drop (ms_index st) html"] unfolding take_add u_def
    by (metis append_eq_conv_conj)
  ultimately show ?thesis
    using inv op by (cases "ms_open st") (simp_all add: mark_inv_def unit_marks_append)
qed


lemma mark_inv_step:
  assumes inv: "mark_inv html ranges st ps" and i: "ms_index st < length html"
  shows "(\<exists>qs. mark_inv html ranges (mark_step html st) qs) \<and> ms_index st < ms_index (mark_step html st)"
proof -
  let ?rest = "drop (ms_index st) html"
  have index_close: "ms_index (closeMark st) = ms_index st" for st by (simp add: closeMark_def)
  have rest: "?rest \<noteq> []" using i by simp
  show ?thesis
  proof (cases "hd ?rest = CHR ''<''")
    case True
    obtain e where e: "find_index (\<lambda>x. x = CHR ''>'') ?rest = Some e"
      using inv True rest by (auto simp: mark_inv_def tokens.simps [of ?rest] split: option.splits)
    obtain qs where "mark_inv html ranges (closeMark st) qs" "\<not> ms_open (closeMark st)"
      using mark_inv_close [OF inv] by blast
    from mark_inv_tag [OF this] show ?thesis
      using i True e by (auto simp: mark_step_def Let_def index_close)
  next
    case False
    define rs where "rs = skip_ranges (ms_ranges st) (ms_position st)"
    define inside where "inside = (case rs of [] \<Rightarrow> False | (s, e) # _ \<Rightarrow> ms_position st \<ge> s \<and> ms_position st < e)"
    define st1 where "st1 = st\<lparr>ms_ranges := rs\<rparr>"
    define st2 where
      "st2 = (if inside \<and> \<not> ms_open st1 then st1\<lparr>ms_out := ms_out st1 @ open_mark, ms_open := True\<rparr>
              else if \<not> inside then closeMark st1 else st1)"
    obtain n where n: "ranges_from 0 (ms_ranges st) n" using inv by (auto simp: mark_inv_def)
    have inside: "inside \<longleftrightarrow> ms_position st \<in> covered ranges"
      using skip_ranges_inside [OF n, of "ms_position st"] inv by (simp add: inside_def rs_def mark_inv_def)
    have st1: "mark_inv html ranges st1 ps"
      using inv skip_ranges_sorted [OF n] skip_ranges_covered
      by (auto simp: mark_inv_def st1_def rs_def)
    have "\<exists>qs. mark_inv html ranges st2 qs \<and> (ms_open st2 \<longleftrightarrow> inside)"
      using mark_inv_open [OF st1] mark_inv_close [OF st1] st1 unfolding st2_def by (auto simp: closeMark_def)
    then obtain qs where st2: "mark_inv html ranges st2 qs" "ms_open st2 \<longleftrightarrow> inside" by blast
    have same: "ms_index st2 = ms_index st" "ms_position st2 = ms_position st"
      by (simp_all add: st2_def st1_def closeMark_def)
    have step: "mark_step html st = st2\<lparr>ms_out := ms_out st2 @ html_unit ?rest,
        ms_index := ms_index st2 + length (html_unit ?rest), ms_position := Suc (ms_position st2)\<rparr>"
      using False rest unfolding mark_step_def Let_def
      by (simp add: st2_def st1_def inside_def rs_def)
    from mark_inv_unit [OF st2(1)] show ?thesis
      unfolding step using i False st2(2) inside same html_unit_nonempty [OF rest] by auto
  qed
qed

lemma mark_loop_ends:
  assumes "mark_inv html ranges st ps" and "length html \<le> fuel + ms_index st"
  shows "\<exists>st' qs. mark_loop fuel html st = Some st' \<and> mark_inv html ranges st' qs \<and> length html \<le> ms_index st'"
  using assms
proof (induction fuel arbitrary: st ps)
  case 0
  then show ?case by auto
next
  case (Suc fuel)
  show ?case
  proof (cases "ms_index st < length html")
    case True
    from mark_inv_step [OF Suc.prems(1) True] obtain qs
      where "mark_inv html ranges (mark_step html st) qs" "ms_index st < ms_index (mark_step html st)" by blast
    with Suc.IH [of "mark_step html st" qs] Suc.prems(2) True show ?thesis by simp
  next
    case False
    with Suc.prems show ?thesis by auto
  qed
qed

lemma no_marks:
  assumes "unmarked ps = ps"
  shows "foldl mark_machine (Some False) ps = Some False \<and> unit_marks False ps = replicate (unit_count ps) False"
proof -
  from assms have "list_all (\<lambda>p. \<not> is_mark p) ps" by (simp add: unmarked_def list_all_iff filter_id_conv)
  then show ?thesis
  proof (induction ps)
    case (Cons p ps)
    then show ?case by (cases p) (auto simp: unit_count_def)
  qed (simp add: unit_count_def)
qed


definition sample_html :: string where
  "sample_html = ''<b>x</b>&lt;y''"


text \<open>On HTML with a tag that is not closed the loop goes back to the start of the text forever.\<close>

lemma markHighlightedRanges_unclosed:
  assumes "tokens html = None" and "ranges \<noteq> []"
  shows "markHighlightedRanges fuel html ranges = None"
  using mark_loop_unclosed [OF assms(1)] assms by (simp add: markHighlightedRanges_def)

end
