(* ===== verification/Json.thy ===== *)
theory Json
  imports Flow_Prelude
begin

text \<open>
  JSON as \<open>JSON.stringify\<close> writes it and \<open>JSON.parse\<close> reads it, over Latin-1 text. A number is kept as
  its literal. An object is an association list in insertion order, so a key that occurs twice keeps its
  first place and its last value, as in JavaScript; keys that look like array indices, which JavaScript
  moves to the front, do not occur in the objects of the program. The parser has a bound on its recursion;
  the length of the text is enough for what \<open>stringify\<close> wrote (lemma \<open>parse_stringify\<close>).
\<close>

datatype json =
    JNull
  | JBool bool
  | JNum string
  | JStr string
  | JArr "json list"
  | JObj "(string \<times> json) list"

subsection \<open>Printing\<close>

definition quote_char :: char where
  "quote_char = CHR 0x22"

definition backslash :: char where
  "backslash = CHR 0x5C"

definition escape_char :: "char \<Rightarrow> string" where
  "escape_char c =
     (if c = quote_char then [backslash, quote_char]
      else if c = backslash then [backslash, backslash]
      else if c = CHR 0x08 then [backslash, CHR ''b'']
      else if c = CHR 0x0C then [backslash, CHR ''f'']
      else if c = CHR 0x0A then [backslash, CHR ''n'']
      else if c = CHR 0x0D then [backslash, CHR ''r'']
      else if c = CHR 0x09 then [backslash, CHR ''t'']
      else if of_char c < (32 :: nat)
      then [backslash, CHR ''u'', CHR ''0'', CHR ''0'', digit_char (of_char c div 16), digit_char (of_char c mod 16)]
      else [c])"

definition quote :: "string \<Rightarrow> string" where
  "quote s = [quote_char] @ concat (map escape_char s) @ [quote_char]"

fun stringify :: "json \<Rightarrow> string" where
  "stringify JNull = ''null''"
| "stringify (JBool b) = (if b then ''true'' else ''false'')"
| "stringify (JNum n) = n"
| "stringify (JStr s) = quote s"
| "stringify (JArr xs) = ''['' @ join_with '','' (map stringify xs) @ '']''"
| "stringify (JObj kvs) =
     ''{'' @ join_with '','' (map (\<lambda>kv. quote (fst kv) @ '':'' @ stringify (snd kv)) kvs) @ ''}''"

subsection \<open>Parsing\<close>

definition is_ws :: "char \<Rightarrow> bool" where
  "is_ws c \<longleftrightarrow> c \<in> {CHR 0x20, CHR 0x09, CHR 0x0A, CHR 0x0D}"

abbreviation skip_ws :: "string \<Rightarrow> string" where
  "skip_ws s \<equiv> dropWhile is_ws s"

definition is_num_char :: "char \<Rightarrow> bool" where
  "is_num_char c \<longleftrightarrow> is_digit c \<or> c \<in> set ''+-.eE''"

definition int_part :: "string \<Rightarrow> string option" where
  "int_part s =
     (case s of
        [] \<Rightarrow> None
      | c # r \<Rightarrow> if c = CHR ''0'' then Some r else if is_digit c then Some (dropWhile is_digit r) else None)"

definition frac_part :: "string \<Rightarrow> string option" where
  "frac_part s =
     (case s of
        [] \<Rightarrow> Some []
      | c # r \<Rightarrow>
          if c = CHR ''.'' then (if r \<noteq> [] \<and> is_digit (hd r) then Some (dropWhile is_digit r) else None)
          else Some s)"

definition exp_part :: "string \<Rightarrow> string option" where
  "exp_part s =
     (case s of
        [] \<Rightarrow> Some []
      | c # r \<Rightarrow>
          if c = CHR ''e'' \<or> c = CHR ''E'' then
            (let r' = (if r \<noteq> [] \<and> (hd r = CHR ''+'' \<or> hd r = CHR ''-'') then tl r else r)
             in if r' \<noteq> [] \<and> is_digit (hd r') then Some (dropWhile is_digit r') else None)
          else Some s)"

definition is_num_literal :: "string \<Rightarrow> bool" where
  "is_num_literal s =
     (case int_part (if s \<noteq> [] \<and> hd s = CHR ''-'' then tl s else s) of
        None \<Rightarrow> False
      | Some r \<Rightarrow>
          (case frac_part r of
             None \<Rightarrow> False
           | Some r' \<Rightarrow> exp_part r' = Some []))"

definition parse_number :: "string \<Rightarrow> (json \<times> string) option" where
  "parse_number s =
     (let lit = takeWhile is_num_char s
      in if is_num_literal lit then Some (JNum lit, dropWhile is_num_char s) else None)"

definition hex_value :: "char \<Rightarrow> nat option" where
  "hex_value c =
     (let n = (of_char c :: nat)
      in if 48 \<le> n \<and> n \<le> 57 then Some (n - 48)
         else if 97 \<le> n \<and> n \<le> 102 then Some (n - 87)
         else if 65 \<le> n \<and> n \<le> 70 then Some (n - 55)
         else None)"

text \<open>The character of \<open>\uXXXX\<close>, when the model's alphabet has it.\<close>

definition unicode_char :: "char \<Rightarrow> char \<Rightarrow> char \<Rightarrow> char \<Rightarrow> char option" where
  "unicode_char a b c d =
     (case (hex_value a, hex_value b, hex_value c, hex_value d) of
        (Some w, Some x, Some y, Some z) \<Rightarrow>
          (let n = w * 4096 + x * 256 + y * 16 + z in if n < 256 then Some (char_of n) else None)
      | _ \<Rightarrow> None)"

definition simple_escape :: "char \<Rightarrow> char option" where
  "simple_escape c =
     (if c = quote_char \<or> c = backslash \<or> c = CHR ''/'' then Some c
      else if c = CHR ''b'' then Some (CHR 0x08)
      else if c = CHR ''f'' then Some (CHR 0x0C)
      else if c = CHR ''n'' then Some (CHR 0x0A)
      else if c = CHR ''r'' then Some (CHR 0x0D)
      else if c = CHR ''t'' then Some (CHR 0x09)
      else None)"

text \<open>The rest of a string literal after its opening quote.\<close>

fun parse_chars :: "string \<Rightarrow> (string \<times> string) option" where
  "parse_chars [] = None"
| "parse_chars (c # s) =
     (if c = quote_char then Some ([], s)
      else if of_char c < (32 :: nat) then None
      else if c = backslash then
        (case s of
           [] \<Rightarrow> None
         | e # s' \<Rightarrow>
             if e = CHR ''u'' then
               (case s' of
                  w # x # y # z # s'' \<Rightarrow>
                    (case unicode_char w x y z of
                       None \<Rightarrow> None
                     | Some ch \<Rightarrow> map_option (\<lambda>(t, r). (ch # t, r)) (parse_chars s''))
                | _ \<Rightarrow> None)
             else
               (case simple_escape e of
                  None \<Rightarrow> None
                | Some ch \<Rightarrow> map_option (\<lambda>(t, r). (ch # t, r)) (parse_chars s')))
      else map_option (\<lambda>(t, r). (c # t, r)) (parse_chars s))"

definition parse_string :: "string \<Rightarrow> (string \<times> string) option" where
  "parse_string s = (case s of c # r \<Rightarrow> if c = quote_char then parse_chars r else None | [] \<Rightarrow> None)"

definition parse_literal :: "string \<Rightarrow> json \<Rightarrow> string \<Rightarrow> (json \<times> string) option" where
  "parse_literal lit v s = map_option (\<lambda>r. (v, r)) (strip_prefix lit s)"

text \<open>
  A value, the elements after an opening bracket and the members after an opening brace. The two flags
  say whether the closing bracket may come at once, which it may only before the first item.
\<close>

fun parse_value :: "nat \<Rightarrow> string \<Rightarrow> (json \<times> string) option"
  and parse_elems :: "nat \<Rightarrow> bool \<Rightarrow> string \<Rightarrow> (json list \<times> string) option"
  and parse_members :: "nat \<Rightarrow> bool \<Rightarrow> string \<Rightarrow> ((string \<times> json) list \<times> string) option" where
  "parse_value 0 s = None"
| "parse_value (Suc fuel) s =
     (case skip_ws s of
        [] \<Rightarrow> None
      | c # r \<Rightarrow>
          if c = CHR ''n'' then parse_literal ''null'' JNull (c # r)
          else if c = CHR ''t'' then parse_literal ''true'' (JBool True) (c # r)
          else if c = CHR ''f'' then parse_literal ''false'' (JBool False) (c # r)
          else if c = quote_char then map_option (\<lambda>(t, r'). (JStr t, r')) (parse_chars r)
          else if c = CHR ''['' then map_option (\<lambda>(xs, r'). (JArr xs, r')) (parse_elems fuel True r)
          else if c = CHR ''{'' then
            map_option (\<lambda>(kvs, r'). (JObj (foldl (\<lambda>al kv. AList.update (fst kv) (snd kv) al) [] kvs), r'))
              (parse_members fuel True r)
          else parse_number (c # r))"
| "parse_elems 0 first s = None"
| "parse_elems (Suc fuel) first s =
     (if first \<and> skip_ws s \<noteq> [] \<and> hd (skip_ws s) = CHR '']'' then Some ([], tl (skip_ws s))
      else
        (case parse_value fuel s of
           None \<Rightarrow> None
         | Some (v, r) \<Rightarrow>
             (case skip_ws r of
                [] \<Rightarrow> None
              | c # r' \<Rightarrow>
                  if c = CHR '']'' then Some ([v], r')
                  else if c = CHR '','' then map_option (\<lambda>(vs, r''). (v # vs, r'')) (parse_elems fuel False r')
                  else None)))"
| "parse_members 0 first s = None"
| "parse_members (Suc fuel) first s =
     (if first \<and> skip_ws s \<noteq> [] \<and> hd (skip_ws s) = CHR ''}'' then Some ([], tl (skip_ws s))
      else
        (case parse_string (skip_ws s) of
           None \<Rightarrow> None
         | Some (k, r0) \<Rightarrow>
             (case skip_ws r0 of
                [] \<Rightarrow> None
              | c0 # r1 \<Rightarrow>
                  if c0 \<noteq> CHR '':'' then None
                  else
                    (case parse_value fuel r1 of
                       None \<Rightarrow> None
                     | Some (v, r) \<Rightarrow>
                         (case skip_ws r of
                            [] \<Rightarrow> None
                          | c # r' \<Rightarrow>
                              if c = CHR ''}'' then Some ([(k, v)], r')
                              else if c = CHR '','' then
                                map_option (\<lambda>(kvs, r''). ((k, v) # kvs, r'')) (parse_members fuel False r')
                              else None)))))"

definition json_parse :: "string \<Rightarrow> json option" where
  "json_parse s =
     (case parse_value (Suc (length s)) s of
        None \<Rightarrow> None
      | Some (v, r) \<Rightarrow> if list_all is_ws r then Some v else None)"

subsection \<open>Reading fields\<close>

fun json_get :: "string \<Rightarrow> json \<Rightarrow> json option" where
  "json_get k (JObj kvs) = map_of kvs k"
| "json_get k _ = None"


section \<open>Printing and parsing\<close>

text \<open>What \<open>stringify\<close> is given: numbers are literals and the keys of an object are different.\<close>

fun wf_json :: "json \<Rightarrow> bool" where
  "wf_json (JNum n) \<longleftrightarrow> is_num_literal n \<and> list_all is_num_char n"
| "wf_json (JArr xs) \<longleftrightarrow> (\<forall>x \<in> set xs. wf_json x)"
| "wf_json (JObj kvs) \<longleftrightarrow> distinct (map fst kvs) \<and> (\<forall>kv \<in> set kvs. wf_json (snd kv))"
| "wf_json _ \<longleftrightarrow> True"

text \<open>The recursion depth the parser needs.\<close>

definition list_need :: "nat list \<Rightarrow> nat" where
  "list_need ns = foldr (\<lambda>n m. Suc (max n m)) ns 1"

fun need :: "json \<Rightarrow> nat" where
  "need (JArr xs) = Suc (list_need (map need xs))"
| "need (JObj kvs) = Suc (list_need (map (\<lambda>kv. need (snd kv)) kvs))"
| "need _ = 1"

subsection \<open>Strings\<close>

lemma hex_digits: "list_all (\<lambda>d. hex_value (digit_char d) = Some d) [0..<16]"
  by code_simp

lemma hex_digit: "d < 16 \<Longrightarrow> hex_value (digit_char d) = Some d"
  using hex_digits by (simp add: list_all_iff)

lemma unicode_escape:
  "of_char c < (32 :: nat) \<Longrightarrow>
     unicode_char (CHR ''0'') (CHR ''0'') (digit_char (of_char c div 16)) (digit_char (of_char c mod 16)) = Some c"
proof -
  assume "of_char c < (32 :: nat)"
  then have "hex_value (digit_char (of_char c div 16)) = Some (of_char c div 16)"
    and "hex_value (digit_char (of_char c mod 16)) = Some (of_char c mod 16)"
    by (simp_all add: hex_digit)
  moreover have "hex_value (CHR ''0'') = Some 0" by code_simp
  ultimately show ?thesis by (simp add: unicode_char_def Let_def)
qed

lemma special_chars:
  "\<not> of_char quote_char < (32 :: nat)" "\<not> of_char backslash < (32 :: nat)" "backslash \<noteq> quote_char"
  "simple_escape quote_char = Some quote_char" "simple_escape backslash = Some backslash"
  "simple_escape (CHR ''b'') = Some (CHR 0x08)" "simple_escape (CHR ''f'') = Some (CHR 0x0C)"
  "simple_escape (CHR ''n'') = Some (CHR 0x0A)" "simple_escape (CHR ''r'') = Some (CHR 0x0D)"
  "simple_escape (CHR ''t'') = Some (CHR 0x09)" "quote_char \<noteq> CHR ''u''" "backslash \<noteq> CHR ''u''"
  by code_simp+

lemma parse_escape_char:
  "parse_chars (escape_char c @ t) = map_option (\<lambda>(u, r). (c # u, r)) (parse_chars t)"
  unfolding escape_char_def
  by (simp add: special_chars unicode_escape)

lemma parse_chars_escaped: "parse_chars (concat (map escape_char s) @ quote_char # rest) = Some (s, rest)"
  by (induction s) (simp_all add: parse_escape_char)

lemma parse_string_quote: "parse_string (quote s @ rest) = Some (s, rest)"
  by (simp add: quote_def parse_string_def parse_chars_escaped)

subsection \<open>Heads\<close>

text \<open>The first character of a printed value is not blank and not a closing bracket.\<close>

definition is_start :: "char \<Rightarrow> bool" where
  "is_start c \<longleftrightarrow> \<not> is_ws c \<and> c \<noteq> CHR '']'' \<and> c \<noteq> CHR ''}''"

lemma start_chars:
  "is_start (CHR ''n'')" "is_start (CHR ''t'')" "is_start (CHR ''f'')" "is_start quote_char"
  "is_start (CHR ''['')" "is_start (CHR ''{'')"
  by code_simp+

lemma num_chars:
  "list_all (\<lambda>c. is_start c \<and> c \<notin> {CHR ''n'', CHR ''t'', CHR ''f'', quote_char, CHR ''['', CHR ''{''})
     ''0123456789+-.eE''"
  by code_simp

lemma num_char_start:
  assumes "is_num_char c"
  shows "is_start c" and "c \<noteq> CHR ''n''" "c \<noteq> CHR ''t''" "c \<noteq> CHR ''f''" "c \<noteq> quote_char"
    "c \<noteq> CHR ''[''" "c \<noteq> CHR ''{''"
proof -
  have "c \<in> set ''0123456789+-.eE''" using assms by (auto simp: is_num_char_def is_digit_def)
  with num_chars have "is_start c \<and> c \<notin> {CHR ''n'', CHR ''t'', CHR ''f'', quote_char, CHR ''['', CHR ''{''}"
    unfolding list_all_iff by blast
  then show "is_start c" and "c \<noteq> CHR ''n''" "c \<noteq> CHR ''t''" "c \<noteq> CHR ''f''" "c \<noteq> quote_char"
    "c \<noteq> CHR ''[''" "c \<noteq> CHR ''{''" by auto
qed

lemma num_literal_nonempty: "is_num_literal n \<Longrightarrow> n \<noteq> []"
  by (auto simp: is_num_literal_def int_part_def)

lemma stringify_start:
  assumes "wf_json v"
  shows "\<exists>c r. stringify v = c # r \<and> is_start c"
proof (cases v)
  case (JNum n)
  with assms have "n \<noteq> []" "list_all is_num_char n" by (auto dest: num_literal_nonempty)
  with JNum show ?thesis by (cases n) (auto dest: num_char_start)
qed (auto simp: quote_def start_chars)

lemma skip_ws_start [simp]: "is_start c \<Longrightarrow> skip_ws (c # r) = c # r"
  by (simp add: is_start_def)


subsection \<open>Round trip\<close>

definition num_end :: "string \<Rightarrow> bool" where
  "num_end rest \<longleftrightarrow> rest = [] \<or> \<not> is_num_char (hd rest)"

definition reads :: "json \<Rightarrow> bool" where
  "reads v \<longleftrightarrow> (\<forall>fuel rest. need v \<le> fuel \<longrightarrow> num_end rest \<longrightarrow>
     parse_value fuel (stringify v @ rest) = Some (v, rest))"

lemma num_end_chars: "num_end (CHR '','' # r)" "num_end (CHR '']'' # r)" "num_end (CHR ''}'' # r)"
  unfolding num_end_def by (simp_all only: list.sel) (code_simp)+

lemma separators: "\<not> is_ws (CHR '','')" "\<not> is_ws (CHR '']'')" "\<not> is_ws (CHR ''}'')" "\<not> is_ws (CHR '':'')"
  by code_simp+

lemma parse_elems_ok:
  assumes "xs \<noteq> []" and "\<And>x. x \<in> set xs \<Longrightarrow> reads x \<and> wf_json x" and "list_need (map need xs) \<le> fuel"
  shows "parse_elems fuel first (join_with '','' (map stringify xs) @ CHR '']'' # rest) = Some (xs, rest)"
  using assms
proof (induction xs arbitrary: fuel first)
  case (Cons x xs)
  obtain f where f: "fuel = Suc f" "need x \<le> f" "list_need (map need xs) \<le> f"
    using Cons.prems(3) by (cases fuel) (auto simp: list_need_def)
  obtain c r where c: "stringify x = c # r" "is_start c" using stringify_start Cons.prems(2) by fastforce
  have read: "num_end t \<Longrightarrow> parse_value f (stringify x @ t) = Some (x, t)" for t
    using Cons.prems(2) f(2) by (simp add: reads_def)
  show ?case
  proof (cases xs)
    case Nil
    then show ?thesis
      using read [OF num_end_chars(2)] c by (simp add: f separators is_start_def)
  next
    case (Cons y ys)
    let ?t = "join_with '','' (map stringify xs) @ CHR '']'' # rest"
    have "parse_elems f False ?t = Some (xs, rest)"
      by (rule Cons.IH) (use Cons Cons.prems f in auto)
    moreover have "join_with '','' (map stringify (x # xs)) @ CHR '']'' # rest = stringify x @ CHR '','' # ?t"
      using Cons by simp
    ultimately show ?thesis
      using read [OF num_end_chars(1)] c by (simp add: f separators is_start_def)
  qed
qed simp

lemma quote_text:
  "skip_ws (quote k @ t) = quote k @ t" "hd (quote k @ t) = quote_char" "quote_char \<noteq> CHR ''}''"
  using start_chars(4) by (simp_all add: quote_def is_start_def)

lemma parse_members_ok:
  assumes "kvs \<noteq> []" and "\<And>kv. kv \<in> set kvs \<Longrightarrow> reads (snd kv) \<and> wf_json (snd kv)"
    and "list_need (map (\<lambda>kv. need (snd kv)) kvs) \<le> fuel"
  shows "parse_members fuel first
     (join_with '','' (map (\<lambda>kv. quote (fst kv) @ '':'' @ stringify (snd kv)) kvs) @ CHR ''}'' # rest) = Some (kvs, rest)"
  using assms
proof (induction kvs arbitrary: fuel first)
  case (Cons kv kvs)
  obtain k v where kv: "kv = (k, v)" by (cases kv)
  let ?print = "\<lambda>kv. quote (fst kv) @ '':'' @ stringify (snd kv)"
  obtain f where f: "fuel = Suc f" "need v \<le> f" "list_need (map (\<lambda>kv. need (snd kv)) kvs) \<le> f"
    using Cons.prems(3) kv by (cases fuel) (auto simp: list_need_def)
  have read: "num_end t \<Longrightarrow> parse_value f (stringify v @ t) = Some (v, t)" for t
    using Cons.prems(2) [of kv] f(2) kv by (simp add: reads_def)
  show ?case
  proof (cases kvs)
    case Nil
    then show ?thesis
      using read [OF num_end_chars(3)] by (simp add: f kv quote_text parse_string_quote separators)
  next
    case (Cons kv' kvs')
    let ?t = "join_with '','' (map ?print kvs) @ CHR ''}'' # rest"
    have rest: "parse_members f False ?t = Some (kvs, rest)"
      by (rule Cons.IH) (use Cons Cons.prems f in auto)
    have printed: "join_with '','' (map ?print (kv # kvs)) @ CHR ''}'' # rest =
        quote k @ CHR '':'' # stringify v @ CHR '','' # ?t"
      using Cons kv by simp
    show ?thesis
      unfolding printed using rest read [OF num_end_chars(1)]
      by (simp add: f kv quote_text parse_string_quote separators)
  qed
qed simp


lemma foldl_update_distinct:
  "distinct (map fst (al @ kvs)) \<Longrightarrow> foldl (\<lambda>al kv. AList.update (fst kv) (snd kv) al) al kvs = al @ kvs"
proof (induction kvs arbitrary: al)
  case (Cons kv kvs)
  have "AList.update k v al = al @ [(k, v)]" if "k \<notin> fst ` set al" for k v
    using that by (induction al) auto
  then have "AList.update (fst kv) (snd kv) al = al @ [kv]" using Cons.prems by simp
  with Cons.IH [of "al @ [kv]"] Cons.prems show ?case by simp
qed simp

lemma parse_number_literal:
  assumes "is_num_literal n" "list_all is_num_char n" "num_end rest"
  shows "parse_number (n @ rest) = Some (JNum n, rest)"
proof -
  have "takeWhile is_num_char (n @ rest) = n" "dropWhile is_num_char (n @ rest) = rest"
    using assms(2,3) by (cases rest; simp add: num_end_def list_all_iff takeWhile_tail dropWhile_append3)+
  with assms(1) show ?thesis by (simp add: parse_number_def Let_def)
qed

lemma value_chars:
  "\<not> is_ws (CHR ''n'')" "\<not> is_ws (CHR ''t'')" "\<not> is_ws (CHR ''f'')" "\<not> is_ws quote_char"
  "\<not> is_ws (CHR ''['')" "\<not> is_ws (CHR ''{'')"
  "quote_char \<noteq> CHR ''n''" "quote_char \<noteq> CHR ''t''" "quote_char \<noteq> CHR ''f''"
  "CHR ''['' \<noteq> quote_char" "CHR ''{'' \<noteq> quote_char"
  by code_simp+

lemma Suc_le_split: "Suc n \<le> m \<longleftrightarrow> (\<exists>k. m = Suc k \<and> n \<le> k)"
  by (cases m) auto

lemma wf_reads: "wf_json v \<Longrightarrow> reads v"
proof (induction v)
  case JNull
  show ?case unfolding reads_def
    by (auto simp: Suc_le_eq gr0_conv_Suc parse_literal_def strip_prefix_def value_chars)
next
  case (JBool b)
  show ?case unfolding reads_def
    by (cases b) (auto simp: Suc_le_eq gr0_conv_Suc parse_literal_def strip_prefix_def value_chars)
next
  case (JNum n)
  then obtain c r where n: "n = c # r" by (cases n) (auto dest: num_literal_nonempty)
  with JNum have "is_num_char c" by simp
  note c = num_char_start [OF this]
  show ?case unfolding reads_def
    using JNum c parse_number_literal [of n] n
    by (auto simp: Suc_le_eq gr0_conv_Suc is_start_def)
next
  case (JStr t)
  show ?case unfolding reads_def
    by (auto simp: Suc_le_eq gr0_conv_Suc quote_def parse_chars_escaped value_chars)
next
  case (JArr xs)
  show ?case
  proof (cases xs)
    case Nil
    then show ?thesis unfolding reads_def
      by (auto simp: list_need_def One_nat_def Suc_le_split value_chars separators)
  next
    case (Cons x ys)
    then have "xs \<noteq> []" by simp
    from parse_elems_ok [OF this] JArr show ?thesis unfolding reads_def
      by (auto simp: Suc_le_split value_chars)
  qed
next
  case (JObj kvs)
  show ?case
  proof (cases kvs)
    case Nil
    then show ?thesis unfolding reads_def
      by (auto simp: list_need_def One_nat_def Suc_le_split value_chars separators)
  next
    case (Cons x ys)
    then have "kvs \<noteq> []" by simp
    from parse_members_ok [OF this] JObj foldl_update_distinct [of "[]" kvs] show ?thesis unfolding reads_def
      by (auto simp: Suc_le_split value_chars snds.simps)
  qed
qed


lemma list_need_join:
  "(\<And>x. x \<in> set xs \<Longrightarrow> 1 \<le> n x \<and> n x \<le> length (f x)) \<Longrightarrow> list_need (map n xs) \<le> Suc (length (join_with '','' (map f xs)))"
proof (induction xs)
  case (Cons x xs)
  then have "1 \<le> n x" "n x \<le> length (f x)" "list_need (map n xs) \<le> Suc (length (join_with '','' (map f xs)))" by auto
  moreover have "length (join_with '','' (map f (x # xs))) \<ge> length (f x)"
    by (cases xs) auto
  moreover have "xs \<noteq> [] \<Longrightarrow>
      length (join_with '','' (map f (x # xs))) = length (f x) + Suc (length (join_with '','' (map f xs)))"
    by (cases xs) auto
  moreover have "list_need (map n []) \<le> Suc (length (f x))" by (simp add: list_need_def)
  ultimately show ?case
    by (cases "xs = []") (auto simp: list_need_def)
qed (simp add: list_need_def)

lemma need_pos: "1 \<le> need v"
  by (cases v) simp_all

lemma need_le_length: "wf_json v \<Longrightarrow> need v \<le> length (stringify v)"
proof (induction v)
  case (JNum n)
  then show ?case by (cases n) (auto dest: num_literal_nonempty)
next
  case (JArr xs)
  have "list_need (map need xs) \<le> Suc (length (join_with '','' (map stringify xs)))"
    by (rule list_need_join) (use JArr need_pos in simp)
  then show ?case by simp
next
  case (JObj kvs)
  have "need (snd kv) \<le> length (quote (fst kv) @ '':'' @ stringify (snd kv))" if "kv \<in> set kvs" for kv
  proof -
    have "snd kv \<in> Basic_BNFs.snds kv" by (simp add: snds.simps)
    with JObj that have "need (snd kv) \<le> length (stringify (snd kv))" by auto
    then show ?thesis by simp
  qed
  then have "list_need (map (\<lambda>kv. need (snd kv)) kvs) \<le>
      Suc (length (join_with '','' (map (\<lambda>kv. quote (fst kv) @ '':'' @ stringify (snd kv)) kvs)))"
    by (intro list_need_join) (simp add: need_pos [simplified])
  then show ?case by simp
qed (auto simp: quote_def)

lemma parse_stringify: "wf_json v \<Longrightarrow> json_parse (stringify v) = Some v"
proof -
  assume "wf_json v"
  then have "parse_value (Suc (length (stringify v))) (stringify v @ []) = Some (v, [])"
    using wf_reads [of v] need_le_length [of v] unfolding reads_def num_end_def by (metis le_SucI)
  then show ?thesis by (simp add: json_parse_def)
qed

end
