(* ===== verification/Async_Queue.thy ===== *)
theory Async_Queue
  imports Flow_Prelude Complex_Main
begin

text \<open>
  \<open>sandbox-runner/src/queue.ts\<close> and \<open>backoff.ts\<close>: the queue with an asynchronous \<open>take\<close>, and the
  jittered delay before a retry.

  A promise that \<open>take\<close> hands out is named by its taker. An operation returns the promises it settles,
  in the order it settles them: the taker with its item, or with \<open>None\<close> for \<open>undefined\<close>.
\<close>

subsection \<open>The queue\<close>

record ('w, 'a) async_queue =
  aq_items :: "'a list"
  aq_waiters :: "'w list"
  aq_closed :: bool

type_synonym ('w, 'a) settled = "('w \<times> 'a option) list"

definition aq_new :: "('w, 'a) async_queue" where
  "aq_new = \<lparr>aq_items = [], aq_waiters = [], aq_closed = False\<rparr>"

definition aq_push :: "'a \<Rightarrow> ('w, 'a) async_queue \<Rightarrow> ('w, 'a) settled \<times> ('w, 'a) async_queue" where
  "aq_push item q =
     (if aq_closed q then ([], q)
      else
        (case aq_waiters q of
           w # ws \<Rightarrow> ([(w, Some item)], q\<lparr>aq_waiters := ws\<rparr>)
         | [] \<Rightarrow> ([], q\<lparr>aq_items := aq_items q @ [item]\<rparr>)))"

definition aq_size :: "('w, 'a) async_queue \<Rightarrow> nat" where
  "aq_size q = length (aq_items q)"

definition aq_take :: "'w \<Rightarrow> ('w, 'a) async_queue \<Rightarrow> ('w, 'a) settled \<times> ('w, 'a) async_queue" where
  "aq_take w q =
     (case aq_items q of
        x # xs \<Rightarrow> ([(w, Some x)], q\<lparr>aq_items := xs\<rparr>)
      | [] \<Rightarrow>
          if aq_closed q then ([(w, None)], q)
          else ([], q\<lparr>aq_waiters := aq_waiters q @ [w]\<rparr>))"

definition aq_close :: "('w, 'a) async_queue \<Rightarrow> ('w, 'a) settled \<times> ('w, 'a) async_queue" where
  "aq_close q = (map (\<lambda>w. (w, None)) (aq_waiters q), q\<lparr>aq_closed := True, aq_waiters := []\<rparr>)"

datatype ('w, 'a) aq_op = Push 'a | Take 'w | Close

fun aq_step :: "('w, 'a) aq_op \<Rightarrow> ('w, 'a) async_queue \<Rightarrow> ('w, 'a) settled \<times> ('w, 'a) async_queue" where
  "aq_step (Push x) q = aq_push x q"
| "aq_step (Take w) q = aq_take w q"
| "aq_step Close q = aq_close q"

fun aq_run :: "('w, 'a) aq_op list \<Rightarrow> ('w, 'a) async_queue \<Rightarrow> ('w, 'a) settled \<times> ('w, 'a) async_queue" where
  "aq_run [] q = ([], q)"
| "aq_run (a # as) q =
     (case aq_step a q of (ds, q') \<Rightarrow> (case aq_run as q' of (ds', q'') \<Rightarrow> (ds @ ds', q'')))"

subsection \<open>The delay\<close>

text \<open>
  \<open>Math.round(exp / 2 + random() * (exp / 2))\<close>, in exact arithmetic; \<open>Math.round\<close> rounds a half up.
\<close>

definition backoff_exp :: "nat \<Rightarrow> nat \<Rightarrow> nat \<Rightarrow> nat" where
  "backoff_exp attempt baseMs maxMs = min maxMs (baseMs * 2 ^ min attempt 30)"

definition backoffDelay :: "nat \<Rightarrow> nat \<Rightarrow> nat \<Rightarrow> rat \<Rightarrow> int" where
  "backoffDelay attempt baseMs maxMs random =
     (let exp = rat_of_nat (backoff_exp attempt baseMs maxMs)
      in \<lfloor>exp / 2 + random * (exp / 2) + 1 / 2\<rfloor>)"

section \<open>First in, first out\<close>

text \<open>The items pushed before the queue was closed, and the takers, both in the order of their calls.\<close>

fun accepted :: "bool \<Rightarrow> ('w, 'a) aq_op list \<Rightarrow> 'a list" where
  "accepted c [] = []"
| "accepted c (Push x # as) = (if c then [] else [x]) @ accepted c as"
| "accepted c (Take w # as) = accepted c as"
| "accepted c (Close # as) = accepted True as"

fun takers :: "('w, 'a) aq_op list \<Rightarrow> 'w list" where
  "takers [] = []"
| "takers (Take w # as) = w # takers as"
| "takers (_ # as) = takers as"

definition delivered :: "('w, 'a) settled \<Rightarrow> 'a list" where
  "delivered ds = concat (map (\<lambda>d. case snd d of Some x \<Rightarrow> [x] | None \<Rightarrow> []) ds)"

lemma delivered_simps [simp]:
  "delivered [] = []" "delivered (ds @ ds') = delivered ds @ delivered ds'"
  "delivered ((w, Some x) # ds) = x # delivered ds" "delivered ((w, None) # ds) = delivered ds"
  by (simp_all add: delivered_def)

lemma delivered_undefined [simp]: "delivered (map (\<lambda>w. (w, None)) ws) = []"
  by (induction ws) simp_all

text \<open>Items and waiters are never there together, and nobody waits on a closed queue.\<close>

definition aq_inv :: "('w, 'a) async_queue \<Rightarrow> bool" where
  "aq_inv q \<longleftrightarrow> (aq_items q = [] \<or> aq_waiters q = []) \<and> (aq_closed q \<longrightarrow> aq_waiters q = [])"

lemma aq_inv_step: "aq_inv q \<Longrightarrow> aq_inv (snd (aq_step a q))"
  by (cases a) (auto simp: aq_inv_def aq_push_def aq_take_def aq_close_def split: list.splits)

lemma aq_step_fifo:
  assumes "aq_inv q" and "aq_step a q = (ds, q')"
  shows "delivered ds @ aq_items q' = aq_items q @ accepted (aq_closed q) [a]"
    and "map fst ds @ aq_waiters q' = aq_waiters q @ takers [a]"
    and "aq_closed q' \<longleftrightarrow> aq_closed q \<or> a = Close"
proof -
  have "delivered ds @ aq_items q' = aq_items q @ accepted (aq_closed q) [a] \<and>
    map fst ds @ aq_waiters q' = aq_waiters q @ takers [a] \<and> (aq_closed q' \<longleftrightarrow> aq_closed q \<or> a = Close)"
  proof (cases a)
    case (Push x)
    with assms show ?thesis
      by (cases "aq_waiters q"; cases "aq_closed q") (auto simp: aq_inv_def aq_push_def)
  next
    case (Take w)
    with assms show ?thesis
      by (cases "aq_items q"; cases "aq_closed q") (auto simp: aq_inv_def aq_take_def)
  next
    case Close
    with assms show ?thesis by (auto simp: aq_close_def comp_def)
  qed
  then show "delivered ds @ aq_items q' = aq_items q @ accepted (aq_closed q) [a]"
    and "map fst ds @ aq_waiters q' = aq_waiters q @ takers [a]"
    and "aq_closed q' \<longleftrightarrow> aq_closed q \<or> a = Close" by blast+
qed

lemma accepted_Cons: "accepted c (a # as) = accepted c [a] @ accepted (c \<or> a = Close) as"
  by (cases a) simp_all

lemma takers_Cons: "takers (a # as) = takers [a] @ takers as"
  by (cases a) simp_all

lemma aq_run_fifo:
  assumes "aq_inv q" and "aq_run as q = (ds, q')"
  shows "delivered ds @ aq_items q' = aq_items q @ accepted (aq_closed q) as \<and>
    map fst ds @ aq_waiters q' = aq_waiters q @ takers as \<and> aq_inv q'"
  using assms
proof (induction as arbitrary: q ds)
  case (Cons a as)
  obtain d1 q1 where step: "aq_step a q = (d1, q1)" by fastforce
  with Cons.prems obtain d2 where rest: "aq_run as q1 = (d2, q')" and ds: "ds = d1 @ d2"
    by (auto split: prod.splits)
  have inv: "aq_inv q1" using aq_inv_step [OF Cons.prems(1), of a] step by simp
  note fifo = aq_step_fifo [OF Cons.prems(1) step] and ih = Cons.IH [OF inv rest]
  have "delivered ds @ aq_items q' = delivered d1 @ aq_items q1 @ accepted (aq_closed q1) as"
    using ih by (simp add: ds)
  also have "\<dots> = aq_items q @ accepted (aq_closed q) (a # as)"
    unfolding append_assoc [symmetric] fifo(1) by (simp add: fifo(3) accepted_Cons [of _ a as])
  finally have "delivered ds @ aq_items q' = aq_items q @ accepted (aq_closed q) (a # as)" .
  moreover have "map fst ds @ aq_waiters q' = map fst d1 @ aq_waiters q1 @ takers as"
    using ih by (simp add: ds)
  moreover have "\<dots> = aq_waiters q @ takers (a # as)"
    unfolding append_assoc [symmetric] fifo(2) by (simp add: takers_Cons [of a as])
  ultimately show ?case using ih by simp
qed simp

text \<open>
  C14. The asynchronous queue is first in, first out on both ends: over any sequence of operations on a
  new queue, the items handed out followed by the items still queued are the items pushed before the
  close, in order, and the takers that were answered followed by those still waiting are the takers, in
  order.
\<close>

theorem async_queue_fifo:
  assumes "aq_run as aq_new = (ds, q)"
  shows "delivered ds @ aq_items q = accepted False as \<and> map fst ds @ aq_waiters q = takers as"
  using aq_run_fifo [OF _ assms] by (simp add: aq_new_def aq_inv_def)

theorem async_queue_fifo_witness:
  "delivered [(7 :: nat, Some (1 :: nat)), (8, Some 2), (9, None)] = accepted False [Take 7, Push 1, Push 2, Take 8, Close, Push 3, Take (9 :: nat)]"
proof -
  have "aq_run [Take 7, Push 1, Push 2, Take 8, Close, Push 3, Take 9] (aq_new :: (nat, nat) async_queue) =
      ([(7, Some 1), (8, Some 2), (9, None)], \<lparr>aq_items = [], aq_waiters = [], aq_closed = True\<rparr>)"
    by code_simp
  from async_queue_fifo [OF this] show ?thesis by simp
qed

section \<open>Bounds of the delay\<close>

lemma backoff_exp_le: "backoff_exp attempt baseMs maxMs \<le> maxMs"
  by (simp add: backoff_exp_def)

text \<open>The delay is at least half the capped exponential and at most all of it, and so at most \<open>maxMs\<close>.\<close>

lemma backoffDelay_bounds:
  assumes "0 \<le> random" and "random < 1"
  shows "int (backoff_exp attempt baseMs maxMs div 2) \<le> backoffDelay attempt baseMs maxMs random"
    and "backoffDelay attempt baseMs maxMs random \<le> int (backoff_exp attempt baseMs maxMs)"
proof -
  let ?n = "backoff_exp attempt baseMs maxMs"
  have jitter: "0 \<le> random * (rat_of_nat ?n / 2)" "random * (rat_of_nat ?n / 2) \<le> rat_of_nat ?n / 2"
    using assms by (auto intro: mult_left_le_one_le)
  have "rat_of_nat (?n div 2) \<le> rat_of_nat ?n / 2"
    using of_nat_mono [of "2 * (?n div 2)" ?n, where 'a = rat] by simp
  with jitter(1) have "rat_of_int (int (?n div 2)) \<le> rat_of_nat ?n / 2 + random * (rat_of_nat ?n / 2) + 1 / 2"
    by simp
  then show "int (?n div 2) \<le> backoffDelay attempt baseMs maxMs random"
    by (simp add: backoffDelay_def Let_def le_floor_iff)
  have "rat_of_nat ?n / 2 + random * (rat_of_nat ?n / 2) + 1 / 2 < rat_of_int (int ?n + 1)"
    using jitter(2) by simp
  then show "backoffDelay attempt baseMs maxMs random \<le> int ?n"
    by (simp add: backoffDelay_def Let_def floor_le_iff)
qed

end
