(* ===== verification/Event_Buffer.thy ===== *)
theory Event_Buffer
  imports Json Async_Queue
begin

text \<open>
  \<open>sandbox-runner/src/event-buffer.ts\<close>: the buffer that ships runner events in batches.

  An event is its JSON value. An entry of the queue is an object, so it carries the number it was created
  with: \<open>remove\<close> looks entries up by identity. The asynchronous \<open>run\<close> is a program counter: \<open>Posting\<close>
  while \<open>post\<close> is pending, \<open>Sleeping\<close> during a back-off, \<open>Finishing\<close> between its end and the
  \<open>finally\<close> callback. The environment chooses when \<open>post\<close> settles and how, and when timers fire; each
  such event, and each call of a method, is one operation of the model.
\<close>

subsection \<open>State\<close>

record entry =
  en_id :: nat
  en_event :: json
  en_size :: nat
  en_inflight :: bool

datatype run_pc = Idle | Posting "nat list" nat | Sleeping nat | Finishing

record eb_options =
  opt_maxBytes :: int
  opt_batchSize :: nat

definition DEFAULT_EVENT_BUFFER_BYTES :: int where
  "DEFAULT_EVENT_BUFFER_BYTES = 8 * 1024 * 1024"

definition MAX_EVENTS_PER_REQUEST :: nat where
  "MAX_EVENTS_PER_REQUEST = 100"

definition default_options :: eb_options where
  "default_options = \<lparr>opt_maxBytes = DEFAULT_EVENT_BUFFER_BYTES, opt_batchSize = 20\<rparr>"

record event_buffer =
  eb_queue :: "entry list"
  eb_bytes :: int
  eb_timer :: bool
  eb_run :: run_pc
  eb_closed :: bool
  eb_fatal :: bool
  eb_dropped :: nat
  eb_waiters :: "nat list"
  eb_next :: nat

definition eb_new :: event_buffer where
  "eb_new =
     \<lparr>eb_queue = [], eb_bytes = 0, eb_timer = False, eb_run = Idle, eb_closed = False, eb_fatal = False,
      eb_dropped = 0, eb_waiters = [], eb_next = 0\<rparr>"

definition eb_pumping :: "event_buffer \<Rightarrow> bool" where
  "eb_pumping b \<longleftrightarrow> eb_run b \<noteq> Idle"

subsection \<open>Masking\<close>

text \<open>\<open>json.split(secret).join('***')\<close> for a secret that is not empty.\<close>

function mask_secret :: "string \<Rightarrow> string \<Rightarrow> string" where
  "mask_secret secret s =
     (if s = [] \<or> secret = [] then s
      else if prefix secret s then ''***'' @ mask_secret secret (drop (length secret) s)
      else hd s # mask_secret secret (tl s))"
  by pat_completeness auto
termination
  by (relation "measure (\<lambda>(secret, s). length s)") auto

declare mask_secret.simps [simp del]

text \<open>The loop over the secrets: the text, and the event it stands for. \<open>None\<close>: \<open>JSON.parse\<close> throws.\<close>

fun mask_loop :: "string list \<Rightarrow> string \<Rightarrow> json \<Rightarrow> (string \<times> json) option" where
  "mask_loop [] text event = Some (text, event)"
| "mask_loop (secret # secrets) text event =
     (if sublist secret text then
        (let text' = mask_secret secret text
         in case json_parse text' of None \<Rightarrow> None | Some event' \<Rightarrow> mask_loop secrets text' event')
      else mask_loop secrets text event)"

text \<open>\<open>Buffer.byteLength\<close>: a character above 127 takes two bytes in UTF-8.\<close>

definition byteLength :: "string \<Rightarrow> nat" where
  "byteLength s = sum_list (map (\<lambda>c. if of_char c < (128 :: nat) then 1 else 2) s)"

subsection \<open>Eviction\<close>

definition is_thought :: "entry \<Rightarrow> bool" where
  "is_thought e \<longleftrightarrow> json_get ''type'' (en_event e) = Some (JStr ''thought'')"

definition is_ephemeral :: "entry \<Rightarrow> bool" where
  "is_ephemeral e \<longleftrightarrow> json_get ''ephemeral'' (en_event e) = Some (JBool True)"

definition findEvictable :: "(entry \<Rightarrow> bool) \<Rightarrow> entry list \<Rightarrow> nat option" where
  "findEvictable match q = find_index (\<lambda>e. \<not> en_inflight e \<and> match e) q"

definition evict_index :: "entry list \<Rightarrow> nat option" where
  "evict_index q =
     (case findEvictable is_thought q of
        Some i \<Rightarrow> Some i
      | None \<Rightarrow>
          (case findEvictable is_ephemeral q of
             Some i \<Rightarrow> Some i
           | None \<Rightarrow> findEvictable (\<lambda>_. True) q))"

lemma evict_index_bound: "evict_index q = Some i \<Longrightarrow> i < length q"
  by (auto simp: evict_index_def findEvictable_def find_index_Some split: option.splits)

definition drop_entry :: "nat \<Rightarrow> event_buffer \<Rightarrow> event_buffer" where
  "drop_entry i b =
     b\<lparr>eb_queue := remove_at i (eb_queue b), eb_bytes := eb_bytes b - int (en_size (eb_queue b ! i)),
       eb_dropped := Suc (eb_dropped b)\<rparr>"

function evict :: "eb_options \<Rightarrow> event_buffer \<Rightarrow> event_buffer" where
  "evict opts b =
     (if eb_bytes b > opt_maxBytes opts then
        (case evict_index (eb_queue b) of
           None \<Rightarrow> b
         | Some i \<Rightarrow>
             evict opts (drop_entry i b))
      else b)"
  by pat_completeness auto
termination
  by (relation "measure (\<lambda>(opts, b). length (eb_queue b))")
    (auto dest!: evict_index_bound simp: drop_entry_def)

declare evict.simps [simp del]

subsection \<open>The pump\<close>

text \<open>What an operation does outside the buffer.\<close>

datatype eb_effect = PostEvents "json list" | ResolveFlush nat bool | OnFatal

text \<open>The head of the loop of \<open>run\<close>, up to its next \<open>await\<close> or its end.\<close>

definition run_loop :: "nat \<Rightarrow> event_buffer \<Rightarrow> eb_effect list \<times> event_buffer" where
  "run_loop attempt b =
     (if eb_queue b \<noteq> [] \<and> \<not> eb_fatal b then
        (let batch = take MAX_EVENTS_PER_REQUEST (eb_queue b)
         in ([PostEvents (map en_event batch)],
             b\<lparr>eb_queue := map (\<lambda>e. if en_id e \<in> set (map en_id batch) then e\<lparr>en_inflight := True\<rparr> else e) (eb_queue b),
               eb_run := Posting (map en_id batch) attempt\<rparr>))
      else
        (if eb_queue b = [] then (map (\<lambda>w. ResolveFlush w True) (eb_waiters b), b\<lparr>eb_waiters := [], eb_run := Finishing\<rparr>)
         else ([], b\<lparr>eb_run := Finishing\<rparr>)))"

definition pump :: "event_buffer \<Rightarrow> eb_effect list \<times> event_buffer" where
  "pump b = (if eb_pumping b then ([], b) else run_loop 0 b)"

definition schedule :: "eb_options \<Rightarrow> event_buffer \<Rightarrow> eb_effect list \<times> event_buffer" where
  "schedule opts b =
     (if eb_pumping b then ([], b)
      else if length (eb_queue b) \<ge> opt_batchSize opts then pump (b\<lparr>eb_timer := False\<rparr>)
      else ([], b\<lparr>eb_timer := True\<rparr>))"

text \<open>\<open>remove(batch)\<close>: from the back, every entry of the batch.\<close>

definition remove_batch :: "nat list \<Rightarrow> event_buffer \<Rightarrow> event_buffer" where
  "remove_batch ids b =
     b\<lparr>eb_queue := filter (\<lambda>e. en_id e \<notin> set ids) (eb_queue b),
       eb_bytes := eb_bytes b - int (sum_list (map en_size (filter (\<lambda>e. en_id e \<in> set ids) (eb_queue b))))\<rparr>"

definition clear_inflight :: "nat list \<Rightarrow> event_buffer \<Rightarrow> event_buffer" where
  "clear_inflight ids b =
     b\<lparr>eb_queue := map (\<lambda>e. if en_id e \<in> set ids then e\<lparr>en_inflight := False\<rparr> else e) (eb_queue b)\<rparr>"

subsection \<open>Operations\<close>

datatype push_error = SyntaxError

text \<open>The loop over the events of one \<open>push\<close>; it stops where \<open>JSON.parse\<close> throws.\<close>

fun enqueue :: "string list \<Rightarrow> json list \<Rightarrow> event_buffer \<Rightarrow> push_error option \<times> event_buffer" where
  "enqueue secrets [] b = (None, b)"
| "enqueue secrets (original # events) b =
     (case mask_loop secrets (stringify original) original of
        None \<Rightarrow> (Some SyntaxError, b)
      | Some (text, event) \<Rightarrow>
          enqueue secrets events
            (b\<lparr>eb_queue := eb_queue b @ [\<lparr>en_id = eb_next b, en_event = event, en_size = byteLength text, en_inflight = False\<rparr>],
               eb_bytes := eb_bytes b + int (byteLength text), eb_next := Suc (eb_next b)\<rparr>))"

definition eb_push ::
  "eb_options \<Rightarrow> string list \<Rightarrow> json list \<Rightarrow> event_buffer \<Rightarrow> push_error option \<times> eb_effect list \<times> event_buffer" where
  "eb_push opts secrets events b =
     (if eb_closed b \<or> eb_fatal b then (None, [], b)
      else
        (case enqueue (filter (\<lambda>s. length s \<ge> 8) secrets) events b of
           (Some err, b') \<Rightarrow> (Some err, [], b')
         | (None, b') \<Rightarrow> (case schedule opts (evict opts b') of (es, b'') \<Rightarrow> (None, es, b''))))"

text \<open>\<open>flush\<close> of a caller \<open>w\<close>: the answer at once, or \<open>w\<close> is added to the waiters.\<close>

definition eb_flush :: "nat \<Rightarrow> event_buffer \<Rightarrow> eb_effect list \<times> event_buffer" where
  "eb_flush w b =
     (if eb_queue b = [] then ([ResolveFlush w True], b)
      else if eb_fatal b then ([ResolveFlush w False], b)
      else (case pump (b\<lparr>eb_timer := False\<rparr>) of (es, b') \<Rightarrow> (es, b'\<lparr>eb_waiters := eb_waiters b' @ [w]\<rparr>)))"

definition eb_close :: "event_buffer \<Rightarrow> event_buffer" where
  "eb_close b = b\<lparr>eb_closed := True\<rparr>"

text \<open>How \<open>post\<close> settles: the catch tells an \<open>AuthError\<close>, a rejected batch and other errors apart.\<close>

datatype post_result = Posted | AuthRejected | BatchRejected | PostFailed

definition post_settled :: "post_result \<Rightarrow> event_buffer \<Rightarrow> eb_effect list \<times> event_buffer" where
  "post_settled r b =
     (case eb_run b of
        Posting ids attempt \<Rightarrow>
          (case r of
             Posted \<Rightarrow> run_loop 0 (remove_batch ids b)
           | AuthRejected \<Rightarrow>
               (case run_loop attempt ((clear_inflight ids b)\<lparr>eb_fatal := True\<rparr>) of (es, b') \<Rightarrow> (OnFatal # es, b'))
           | BatchRejected \<Rightarrow> run_loop attempt (remove_batch ids (clear_inflight ids b))
           | PostFailed \<Rightarrow> ([], (clear_inflight ids b)\<lparr>eb_run := Sleeping (Suc attempt)\<rparr>))
      | _ \<Rightarrow> ([], b))"

definition sleep_over :: "event_buffer \<Rightarrow> eb_effect list \<times> event_buffer" where
  "sleep_over b = (case eb_run b of Sleeping attempt \<Rightarrow> run_loop attempt b | _ \<Rightarrow> ([], b))"

definition run_finally :: "eb_options \<Rightarrow> event_buffer \<Rightarrow> eb_effect list \<times> event_buffer" where
  "run_finally opts b =
     (if eb_run b = Finishing then
        (let b' = b\<lparr>eb_run := Idle\<rparr>
         in if eb_queue b' \<noteq> [] \<and> \<not> eb_fatal b' then schedule opts b' else ([], b'))
      else ([], b))"

definition timer_fires :: "event_buffer \<Rightarrow> eb_effect list \<times> event_buffer" where
  "timer_fires b = (if eb_timer b then pump (b\<lparr>eb_timer := False\<rparr>) else ([], b))"

definition flush_timeout :: "nat \<Rightarrow> event_buffer \<Rightarrow> eb_effect list \<times> event_buffer" where
  "flush_timeout w b = ([ResolveFlush w False], b)"


section \<open>Eviction\<close>

text \<open>The three classes of entries that may go, in the order they go.\<close>

definition thoughts :: "entry \<Rightarrow> bool" where
  "thoughts e \<longleftrightarrow> \<not> en_inflight e \<and> is_thought e"

definition ephemerals :: "entry \<Rightarrow> bool" where
  "ephemerals e \<longleftrightarrow> \<not> en_inflight e \<and> \<not> is_thought e \<and> is_ephemeral e"

definition others :: "entry \<Rightarrow> bool" where
  "others e \<longleftrightarrow> \<not> en_inflight e \<and> \<not> is_thought e \<and> \<not> is_ephemeral e"

lemma filter_remove_at:
  assumes "i < length q" and "\<not> P (q ! i)"
  shows "filter P (remove_at i q) = filter P q"
proof -
  obtain ys zs where q: "q = ys @ q ! i # zs" and r: "remove_at i q = ys @ zs"
    using remove_at_split [OF assms(1)] by blast
  show ?thesis unfolding r by (subst q) (simp add: assms(2))
qed

lemma filter_remove_first:
  assumes "find_index P q = Some i"
  shows "filter P (remove_at i q) = tl (filter P q)"
proof -
  have i: "i < length q" "P (q ! i)" "\<forall>j < i. \<not> P (q ! j)" using assms by (auto simp: find_index_Some)
  obtain ys zs where q: "q = ys @ q ! i # zs" and r: "remove_at i q = ys @ zs" and l: "length ys = i"
    using remove_at_split [OF i(1)] by blast
  have "ys = take i q" using q l by (metis append_eq_conv_conj)
  then have "filter P ys = []" using i by (auto simp: filter_empty_conv in_set_conv_nth)
  then show ?thesis unfolding r by (subst q) (simp add: i(2))
qed

lemma find_index_Some_mem: "find_index P q = Some i \<Longrightarrow> \<exists>e \<in> set q. P e"
  by (auto simp: find_index_Some)

lemma evict_index_None: "evict_index q = None \<longleftrightarrow> list_all en_inflight q"
  by (auto simp: evict_index_def findEvictable_def find_index_None list_all_iff split: option.splits
      dest!: find_index_Some_mem)

lemma evict_index_class:
  assumes "evict_index q = Some i"
  shows "find_index thoughts q = Some i \<or>
    (filter thoughts q = [] \<and> find_index ephemerals q = Some i) \<or>
    (filter thoughts q = [] \<and> filter ephemerals q = [] \<and> find_index others q = Some i)"
proof (cases "findEvictable is_thought q")
  case None
  then have T: "\<forall>e \<in> set q. \<not> thoughts e"
    by (auto simp: findEvictable_def find_index_None thoughts_def)
  have E: "findEvictable is_ephemeral q = find_index ephemerals q"
    unfolding findEvictable_def using T
    by (intro find_index_cong) (auto simp: ephemerals_def thoughts_def)
  show ?thesis
  proof (cases "find_index ephemerals q")
    case None
    then have "findEvictable (\<lambda>_. True) q = find_index others q"
      unfolding findEvictable_def using T
      by (intro find_index_cong) (auto simp: others_def ephemerals_def thoughts_def find_index_None)
    moreover have "filter ephemerals q = []" using None by (simp add: find_index_None filter_empty_conv)
    ultimately show ?thesis
      using None T E assms \<open>findEvictable is_thought q = None\<close> by (simp add: evict_index_def filter_empty_conv)
  next
    case (Some j)
    with T E assms None show ?thesis by (auto simp: evict_index_def filter_empty_conv)
  qed
next
  case (Some j)
  with assms show ?thesis by (simp add: evict_index_def findEvictable_def thoughts_def [abs_def])
qed


text \<open>
  What an eviction keeps: the entries in flight, and of each class a tail; it takes from a class only
  when the classes before it are used up.
\<close>

definition tails_kept :: "'a list \<Rightarrow> 'a list \<Rightarrow> 'a list \<Rightarrow> 'a list \<Rightarrow> 'a list \<Rightarrow> 'a list \<Rightarrow> bool" where
  "tails_kept ts es os ts' es' os' \<longleftrightarrow>
     (\<exists>t e n. ts' = drop t ts \<and> es' = drop e es \<and> os' = drop n os \<and>
        (0 < e \<longrightarrow> ts' = []) \<and> (0 < n \<longrightarrow> ts' = [] \<and> es' = []))"

definition evicted_from :: "entry list \<Rightarrow> entry list \<Rightarrow> bool" where
  "evicted_from q q' \<longleftrightarrow>
     filter en_inflight q' = filter en_inflight q \<and>
     tails_kept (filter thoughts q) (filter ephemerals q) (filter others q)
       (filter thoughts q') (filter ephemerals q') (filter others q')"

lemma tails_kept_refl: "tails_kept ts es os ts es os"
  unfolding tails_kept_def by (intro exI [of _ 0]) simp

lemma evicted_from_refl: "evicted_from q q"
  by (simp add: evicted_from_def tails_kept_refl)

lemma tails_kept_tl:
  "tails_kept (tl ts) es os ts' es' os' \<Longrightarrow> tails_kept ts es os ts' es' os'"
  "tails_kept [] (tl es) os ts' es' os' \<Longrightarrow> tails_kept [] es os ts' es' os'"
  "tails_kept [] [] (tl os) ts' es' os' \<Longrightarrow> tails_kept [] [] os ts' es' os'"
  unfolding tails_kept_def by (metis drop_Suc, (metis drop_Suc drop_Nil)+)

lemma evict_classes:
  "thoughts x \<Longrightarrow> \<not> ephemerals x \<and> \<not> others x \<and> \<not> en_inflight x"
  "ephemerals x \<Longrightarrow> \<not> thoughts x \<and> \<not> others x \<and> \<not> en_inflight x"
  "others x \<Longrightarrow> \<not> thoughts x \<and> \<not> ephemerals x \<and> \<not> en_inflight x"
  by (auto simp: thoughts_def ephemerals_def others_def)

lemma evicted_from_step:
  assumes i: "evict_index q = Some i" and r: "evicted_from (remove_at i q) q'"
  shows "evicted_from q q'"
proof -
  have keep: "filter P (remove_at i q) = filter P q" if "\<not> P (q ! i)" for P
    using evict_index_bound [OF i] that by (rule filter_remove_at)
  from evict_index_class [OF i] consider
      (t) "find_index thoughts q = Some i"
    | (e) "filter thoughts q = []" "find_index ephemerals q = Some i"
    | (o) "filter thoughts q = []" "filter ephemerals q = []" "find_index others q = Some i" by blast
  then show ?thesis
  proof cases
    case t
    then have "thoughts (q ! i)" by (simp add: find_index_Some)
    note c = evict_classes(1) [OF this]
    show ?thesis
      using r c unfolding evicted_from_def filter_remove_first [OF t]
      by (auto simp: keep intro: tails_kept_tl(1))
  next
    case e
    then have "ephemerals (q ! i)" by (simp add: find_index_Some)
    note c = evict_classes(2) [OF this]
    have "filter thoughts (remove_at i q) = []" using keep [of thoughts] c e(1) by metis
    with r c show ?thesis
      unfolding evicted_from_def filter_remove_first [OF e(2)] e(1) by (metis keep tails_kept_tl(2))
  next
    case o
    then have "others (q ! i)" by (simp add: find_index_Some)
    note c = evict_classes(3) [OF this]
    have "filter thoughts (remove_at i q) = []" "filter ephemerals (remove_at i q) = []"
      using keep [of thoughts] keep [of ephemerals] c o(1,2) by metis+
    with r c show ?thesis
      unfolding evicted_from_def filter_remove_first [OF o(3)] o(1,2) by (metis keep tails_kept_tl(3))
  qed
qed

definition queued_bytes :: "entry list \<Rightarrow> int" where
  "queued_bytes q = int (sum_list (map en_size q))"

lemma queued_bytes_remove:
  "i < length q \<Longrightarrow> queued_bytes (remove_at i q) = queued_bytes q - int (en_size (q ! i))"
  using sum_list_remove_at [of i q en_size] by (simp add: queued_bytes_def)

lemma evict_rel:
  assumes "\<And>b. R b b"
    and "\<And>b i b'. evict_index (eb_queue b) = Some i \<Longrightarrow> R (drop_entry i b) b' \<Longrightarrow> R b b'"
  shows "R b (evict opts b)"
proof (induction opts b rule: evict.induct)
  case (1 opts b)
  show ?case
  proof (cases "eb_bytes b > opt_maxBytes opts \<and> evict_index (eb_queue b) \<noteq> None")
    case True
    then obtain i where i: "evict_index (eb_queue b) = Some i" by blast
    with True have "evict opts b = evict opts (drop_entry i b)" by (subst evict.simps) simp
    with 1 True i assms(2) [OF i] show ?thesis by simp
  next
    case False
    then have "evict opts b = b" by (subst evict.simps) (auto split: option.split)
    then show ?thesis by (simp add: assms(1))
  qed
qed

lemma evict_policy: "evicted_from (eb_queue b) (eb_queue (evict opts b))"
  by (rule evict_rel) (auto simp: evicted_from_refl drop_entry_def intro: evicted_from_step)

lemma evict_bytes:
  "eb_bytes (evict opts b) - queued_bytes (eb_queue (evict opts b)) = eb_bytes b - queued_bytes (eb_queue b)"
proof (rule evict_rel [where R = "\<lambda>b b'. eb_bytes b' - queued_bytes (eb_queue b') = eb_bytes b - queued_bytes (eb_queue b)"])
  fix b i b'
  assume i: "evict_index (eb_queue b) = Some i"
    and "eb_bytes b' - queued_bytes (eb_queue b') = eb_bytes (drop_entry i b) - queued_bytes (eb_queue (drop_entry i b))"
  then show "eb_bytes b' - queued_bytes (eb_queue b') = eb_bytes b - queued_bytes (eb_queue b)"
    using queued_bytes_remove [OF evict_index_bound [OF i]] by (simp add: drop_entry_def)
qed simp

lemma subseq_remove_at: "subseq (remove_at i q) q"
proof -
  have "drop (Suc i) q = tl (drop i q)" by (simp add: drop_Suc tl_drop)
  then have "subseq (drop (Suc i) q) (drop i q)" by (cases "drop i q") auto
  then show ?thesis
    using list_emb_append_mono [of "(=)" "take i q" "take i q" "drop (Suc i) q" "drop i q"]
    by (simp add: remove_at_def)
qed

text \<open>Eviction touches the queue, the byte count and the drop count only, and adds nothing.\<close>

definition shrunk :: "event_buffer \<Rightarrow> event_buffer \<Rightarrow> bool" where
  "shrunk b b' \<longleftrightarrow>
     eb_timer b' = eb_timer b \<and> eb_run b' = eb_run b \<and> eb_closed b' = eb_closed b \<and> eb_fatal b' = eb_fatal b \<and>
     eb_waiters b' = eb_waiters b \<and> eb_next b' = eb_next b \<and> subseq (eb_queue b') (eb_queue b)"

lemma evict_shrunk: "shrunk b (evict opts b)"
  by (rule evict_rel) (auto simp: shrunk_def drop_entry_def intro: subseq_order.trans subseq_remove_at)

lemma evict_bound: "eb_bytes (evict opts b) \<le> opt_maxBytes opts \<or> list_all en_inflight (eb_queue (evict opts b))"
proof (induction opts b rule: evict.induct)
  case (1 opts b)
  show ?case
  proof (cases "eb_bytes b > opt_maxBytes opts \<and> evict_index (eb_queue b) \<noteq> None")
    case True
    then obtain i where i: "evict_index (eb_queue b) = Some i" by blast
    with True have "evict opts b = evict opts (drop_entry i b)" by (subst evict.simps) simp
    with 1 True i show ?thesis by simp
  next
    case False
    then have "evict opts b = b" by (subst evict.simps) (auto split: option.split)
    with False show ?thesis by (auto simp: evict_index_None)
  qed
qed


section \<open>The invariant\<close>

definition waiting :: "entry \<Rightarrow> bool" where
  "waiting e \<longleftrightarrow> \<not> en_inflight e"

definition counted :: "event_buffer \<Rightarrow> bool" where
  "counted b \<longleftrightarrow> eb_bytes b = queued_bytes (eb_queue b)"

text \<open>Entries are numbered in the order of the queue.\<close>

definition numbered_queue :: "event_buffer \<Rightarrow> bool" where
  "numbered_queue b \<longleftrightarrow>
     sorted_wrt (<) (map en_id (eb_queue b)) \<and> (\<forall>i \<in> set (map en_id (eb_queue b)). i < eb_next b)"

text \<open>While a batch is posted it is the front of the queue, and just its entries are in flight.\<close>

fun inflight_fits :: "run_pc \<Rightarrow> entry list \<Rightarrow> bool" where
  "inflight_fits (Posting ids attempt) q \<longleftrightarrow>
     (\<exists>batch rest. q = batch @ rest \<and> map en_id batch = ids \<and> list_all en_inflight batch \<and> list_all waiting rest)"
| "inflight_fits _ q \<longleftrightarrow> list_all waiting q"

definition inflight_ok :: "event_buffer \<Rightarrow> bool" where
  "inflight_ok b \<longleftrightarrow> inflight_fits (eb_run b) (eb_queue b)"

text \<open>Events that can still be sent have someone to send them.\<close>

definition awake :: "event_buffer \<Rightarrow> bool" where
  "awake b \<longleftrightarrow> (eb_queue b \<noteq> [] \<and> \<not> eb_fatal b \<longrightarrow> eb_timer b \<or> eb_pumping b)"

definition eb_inv :: "event_buffer \<Rightarrow> bool" where
  "eb_inv b \<longleftrightarrow> counted b \<and> numbered_queue b \<and> inflight_ok b \<and> awake b"

subsection \<open>The pump keeps it\<close>

lemma queued_bytes_cong: "map en_size q = map en_size q' \<Longrightarrow> queued_bytes q = queued_bytes q'"
  by (simp add: queued_bytes_def)

lemma numbered_queue_cong:
  "map en_id (eb_queue b') = map en_id (eb_queue b) \<Longrightarrow> eb_next b' = eb_next b \<Longrightarrow> numbered_queue b' = numbered_queue b"
  by (simp only: numbered_queue_def)

lemma inflight_front:
  assumes "sorted_wrt (<) (map en_id q)"
  shows "map (\<lambda>e. if en_id e \<in> set (map en_id (take n q)) then e\<lparr>en_inflight := v\<rparr> else e) q =
     map (\<lambda>e. e\<lparr>en_inflight := v\<rparr>) (take n q) @ drop n q"
proof -
  let ?f = "\<lambda>e. if en_id e \<in> set (map en_id (take n q)) then e\<lparr>en_inflight := v\<rparr> else e"
  have "distinct (map en_id (take n q @ drop n q))"
    using assms strict_sorted_iff [of "map en_id q"] by simp
  then have "e \<in> set (drop n q) \<Longrightarrow> en_id e \<notin> set (map en_id (take n q))" for e
    by (auto simp del: append_take_drop_id)
  then have "map ?f (drop n q) = drop n q" by (simp add: map_idI)
  moreover have "map ?f (take n q) = map (\<lambda>e. e\<lparr>en_inflight := v\<rparr>) (take n q)" by simp
  ultimately have "map ?f (take n q @ drop n q) = map (\<lambda>e. e\<lparr>en_inflight := v\<rparr>) (take n q) @ drop n q"
    by (simp only: map_append)
  then show ?thesis by simp
qed

lemma run_loop_inv:
  assumes "counted b" "numbered_queue b" "list_all waiting (eb_queue b)"
  shows "eb_inv (snd (run_loop attempt b)) \<and> map en_id (eb_queue (snd (run_loop attempt b))) = map en_id (eb_queue b)
    \<and> eb_next (snd (run_loop attempt b)) = eb_next b"
proof (cases "eb_queue b \<noteq> [] \<and> \<not> eb_fatal b")
  case True
  define batch where "batch = take MAX_EVENTS_PER_REQUEST (eb_queue b)"
  define rest where "rest = drop MAX_EVENTS_PER_REQUEST (eb_queue b)"
  let ?q = "map (\<lambda>e. e\<lparr>en_inflight := True\<rparr>) batch @ rest"
  have q: "eb_queue b = batch @ rest" by (simp add: batch_def rest_def)
  have "sorted_wrt (<) (map en_id (eb_queue b))" using assms(2) by (simp add: numbered_queue_def)
  from inflight_front [OF this, of MAX_EVENTS_PER_REQUEST True] True
  have loop: "snd (run_loop attempt b) = b\<lparr>eb_queue := ?q, eb_run := Posting (map en_id batch) attempt\<rparr>"
    by (simp add: run_loop_def Let_def batch_def rest_def)
  have ids: "map en_id ?q = map en_id (eb_queue b)" "map en_size ?q = map en_size (eb_queue b)"
    by (simp_all add: q comp_def)
  have "numbered_queue (b\<lparr>eb_queue := ?q, eb_run := r\<rparr>)" for r
    by (subst numbered_queue_cong [of _ b]) (use assms(2) ids(1) in \<open>simp_all del: map_append\<close>)
  moreover have "counted (b\<lparr>eb_queue := ?q, eb_run := r\<rparr>)" for r
    using assms(1) queued_bytes_cong [OF ids(2)] by (simp add: counted_def)
  moreover have "inflight_ok (b\<lparr>eb_queue := ?q, eb_run := Posting (map en_id batch) attempt\<rparr>)"
    using assms(3) unfolding inflight_ok_def
    by (simp, intro exI [of _ "map (\<lambda>e. e\<lparr>en_inflight := True\<rparr>) batch"] exI [of _ rest])
      (simp add: q list_all_iff comp_def)
  ultimately show ?thesis
    using ids(1) by (simp add: loop eb_inv_def awake_def eb_pumping_def del: map_append)
next
  case False
  with assms show ?thesis
    by (auto simp: run_loop_def eb_inv_def counted_def numbered_queue_def inflight_ok_def awake_def eb_pumping_def)
qed

lemma eb_inv_idle:
  "eb_inv b \<Longrightarrow> \<not> eb_pumping b \<Longrightarrow> counted b \<and> numbered_queue b \<and> list_all waiting (eb_queue b)"
  by (auto simp: eb_inv_def eb_pumping_def inflight_ok_def)

lemma pump_inv:
  assumes "counted b" "numbered_queue b" "inflight_ok b"
  shows "eb_inv (snd (pump b)) \<and> map en_id (eb_queue (snd (pump b))) = map en_id (eb_queue b) \<and>
    eb_next (snd (pump b)) = eb_next b"
proof (cases "eb_pumping b")
  case True
  with assms show ?thesis by (simp add: pump_def eb_inv_def awake_def)
next
  case False
  with assms have "list_all waiting (eb_queue b)" by (simp add: inflight_ok_def eb_pumping_def)
  from run_loop_inv [OF assms(1,2) this] False show ?thesis by (simp add: pump_def)
qed

lemma buffer_flags:
  "counted (b\<lparr>eb_timer := t\<rparr>) = counted b" "numbered_queue (b\<lparr>eb_timer := t\<rparr>) = numbered_queue b"
  "inflight_ok (b\<lparr>eb_timer := t\<rparr>) = inflight_ok b"
  "counted (b\<lparr>eb_waiters := ws\<rparr>) = counted b" "numbered_queue (b\<lparr>eb_waiters := ws\<rparr>) = numbered_queue b"
  "inflight_ok (b\<lparr>eb_waiters := ws\<rparr>) = inflight_ok b" "awake (b\<lparr>eb_waiters := ws\<rparr>) = awake b"
  "counted (b\<lparr>eb_closed := c\<rparr>) = counted b" "numbered_queue (b\<lparr>eb_closed := c\<rparr>) = numbered_queue b"
  "inflight_ok (b\<lparr>eb_closed := c\<rparr>) = inflight_ok b" "awake (b\<lparr>eb_closed := c\<rparr>) = awake b"
  "counted (b\<lparr>eb_run := r\<rparr>) = counted b" "numbered_queue (b\<lparr>eb_run := r\<rparr>) = numbered_queue b"
  "counted (b\<lparr>eb_fatal := f\<rparr>) = counted b" "numbered_queue (b\<lparr>eb_fatal := f\<rparr>) = numbered_queue b"
  by (simp_all add: counted_def numbered_queue_def inflight_ok_def awake_def eb_pumping_def)

lemma schedule_inv:
  assumes "counted b" "numbered_queue b" "inflight_ok b"
  shows "eb_inv (snd (schedule opts b)) \<and> map en_id (eb_queue (snd (schedule opts b))) = map en_id (eb_queue b) \<and>
    eb_next (snd (schedule opts b)) = eb_next b"
  using pump_inv [of "b\<lparr>eb_timer := False\<rparr>"] assms
  by (simp add: schedule_def buffer_flags eb_inv_def) (simp add: awake_def)


subsection \<open>Pushing keeps it\<close>

lemma queued_bytes_append: "queued_bytes (q @ q') = queued_bytes q + queued_bytes q'"
  by (simp add: queued_bytes_def)

lemma enqueue_appends:
  assumes "enqueue secrets events b = (r, b')"
  shows "\<exists>new. eb_queue b' = eb_queue b @ new \<and> list_all waiting new \<and> map en_id new = [eb_next b..<eb_next b'] \<and>
    eb_next b \<le> eb_next b' \<and> eb_bytes b' = eb_bytes b + queued_bytes new \<and>
    eb_run b' = eb_run b \<and> eb_timer b' = eb_timer b \<and> eb_fatal b' = eb_fatal b"
  using assms
proof (induction events arbitrary: b)
  case Nil
  then show ?case by (auto simp: queued_bytes_def)
next
  case (Cons original events)
  show ?case
  proof (cases "mask_loop secrets (stringify original) original")
    case None
    with Cons.prems show ?thesis by (auto simp: queued_bytes_def)
  next
    case (Some te)
    obtain tx ev where te: "te = (tx, ev)" by (cases te)
    define e where "e = \<lparr>en_id = eb_next b, en_event = ev, en_size = byteLength tx, en_inflight = False\<rparr>"
    define b1 where "b1 = b\<lparr>eb_queue := eb_queue b @ [e], eb_bytes := eb_bytes b + int (byteLength tx),
      eb_next := Suc (eb_next b)\<rparr>"
    have "enqueue secrets events b1 = (r, b')"
      using Cons.prems Some te by (simp add: e_def b1_def)
    from Cons.IH [OF this] obtain new where new: "eb_queue b' = eb_queue b1 @ new" "list_all waiting new"
      "map en_id new = [eb_next b1..<eb_next b']" "eb_next b1 \<le> eb_next b'"
      "eb_bytes b' = eb_bytes b1 + queued_bytes new" "eb_run b' = eb_run b1" "eb_timer b' = eb_timer b1"
      "eb_fatal b' = eb_fatal b1" by blast
    moreover have "waiting e" by (simp add: waiting_def e_def)
    moreover have "en_id e = eb_next b" "en_size e = byteLength tx" by (simp_all add: e_def)
    ultimately show ?thesis
      by (intro exI [of _ "e # new"]) (simp add: b1_def queued_bytes_def upt_conv_Cons)
  qed
qed

lemma inflight_fits_append: "inflight_fits r q \<Longrightarrow> list_all waiting new \<Longrightarrow> inflight_fits r (q @ new)"
  by (cases r) (fastforce simp: list_all_iff)+

lemma enqueue_inv:
  assumes "counted b" "numbered_queue b" "inflight_ok b" and "enqueue secrets events b = (r, b')"
  shows "counted b' \<and> numbered_queue b' \<and> inflight_ok b'"
proof -
  obtain new where new: "eb_queue b' = eb_queue b @ new" "list_all waiting new"
    "map en_id new = [eb_next b..<eb_next b']" "eb_next b \<le> eb_next b'"
    "eb_bytes b' = eb_bytes b + queued_bytes new" "eb_run b' = eb_run b"
    using enqueue_appends [OF assms(4)] by blast
  have ids: "map en_id (eb_queue b') = map en_id (eb_queue b) @ [eb_next b..<eb_next b']"
    using new by simp
  have "numbered_queue b'"
    using assms(2) new(4) unfolding numbered_queue_def ids
    by (fastforce simp: sorted_wrt_append)
  with new assms show ?thesis
    by (simp add: counted_def queued_bytes_append inflight_ok_def inflight_fits_append)
qed

lemma subseq_split:
  assumes "subseq q (batch @ rest)" "filter en_inflight q = batch" "list_all en_inflight batch" "list_all waiting rest"
  shows "\<exists>rest'. q = batch @ rest' \<and> list_all waiting rest'"
proof -
  obtain x y where q: "q = x @ y" and sub: "subseq x batch" "subseq y rest"
    using assms(1) by (metis subseq_appendE)
  have "list_all en_inflight x" "list_all waiting y"
    using sub assms(3,4) by (auto simp: list_all_iff dest: list_emb_set)
  then have "filter en_inflight x = x" "filter en_inflight y = []"
    by (auto simp: list_all_iff filter_id_conv filter_empty_conv waiting_def)
  with assms(2) q have "x = batch" by simp
  with q \<open>list_all waiting y\<close> show ?thesis by blast
qed

lemma evict_inv:
  assumes "counted b" "numbered_queue b" "inflight_ok b"
  shows "counted (evict opts b) \<and> numbered_queue (evict opts b) \<and> inflight_ok (evict opts b)"
proof -
  note sh = evict_shrunk [of b opts, unfolded shrunk_def]
  have sub: "subseq (eb_queue (evict opts b)) (eb_queue b)" using sh by blast
  have "subseq (map en_id (eb_queue (evict opts b))) (map en_id (eb_queue b))"
    using sub by (rule subseq_map)
  then have "numbered_queue (evict opts b)"
    using assms(2) sh unfolding numbered_queue_def
    by (auto dest: sorted_wrt_subseq list_emb_set)
  moreover have "counted (evict opts b)"
    using assms(1) evict_bytes [of opts b] by (simp add: counted_def)
  moreover have "inflight_ok (evict opts b)"
  proof (cases "eb_run b")
    case (Posting ids attempt)
    with assms(3) obtain batch rest where q: "eb_queue b = batch @ rest" "map en_id batch = ids"
      "list_all en_inflight batch" "list_all waiting rest" by (auto simp: inflight_ok_def)
    have "filter en_inflight (eb_queue (evict opts b)) = batch"
      using evict_policy [of b opts] q by (simp add: evicted_from_def list_all_iff filter_id_conv filter_empty_conv waiting_def)
    from subseq_split [OF sub [unfolded q(1)] this q(3,4)] sh q Posting show ?thesis
      by (auto simp: inflight_ok_def)
  qed (use assms(3) sh sub in \<open>auto simp: inflight_ok_def list_all_iff dest: list_emb_set\<close>)
  ultimately show ?thesis by blast
qed

lemma push_inv:
  assumes inv: "eb_inv b" and "eb_push opts secrets events b = (None, es, b')"
  shows "eb_inv b'"
proof (cases "eb_closed b \<or> eb_fatal b")
  case True
  with assms show ?thesis by (simp add: eb_push_def)
next
  case False
  then obtain b1 where b1: "enqueue (filter (\<lambda>s. length s \<ge> 8) secrets) events b = (None, b1)"
    and b': "b' = snd (schedule opts (evict opts b1))"
    using assms(2) by (auto simp: eb_push_def split: prod.splits option.splits)
  from inv have "counted b" "numbered_queue b" "inflight_ok b" by (simp_all add: eb_inv_def)
  from enqueue_inv [OF this b1] have "counted b1" "numbered_queue b1" "inflight_ok b1" by simp_all
  from evict_inv [OF this, of opts] schedule_inv [of "evict opts b1" opts] show ?thesis by (simp add: b')
qed


subsection \<open>Settled posts keep it\<close>

lemma posting_split:
  assumes "eb_inv b" "eb_run b = Posting ids attempt"
  obtains batch rest where "eb_queue b = batch @ rest" "map en_id batch = ids"
    "list_all en_inflight batch" "list_all waiting rest" "distinct (ids @ map en_id rest)"
proof -
  obtain batch rest where q: "eb_queue b = batch @ rest" "map en_id batch = ids"
    "list_all en_inflight batch" "list_all waiting rest"
    using assms by (auto simp: eb_inv_def inflight_ok_def)
  moreover have "distinct (ids @ map en_id rest)"
    using assms(1) q strict_sorted_iff [of "map en_id (eb_queue b)"] by (auto simp: eb_inv_def numbered_queue_def)
  ultimately show ?thesis by (rule that)
qed

lemma remove_batch_rest:
  assumes "eb_queue b = batch @ rest" "distinct (map en_id batch @ map en_id rest)"
  shows "eb_queue (remove_batch (map en_id batch) b) = rest"
    and "counted b \<Longrightarrow> counted (remove_batch (map en_id batch) b)"
proof -
  have out: "e \<in> set rest \<Longrightarrow> en_id e \<notin> en_id ` set batch" for e using assms(2) by auto
  have "filter (\<lambda>e. en_id e \<notin> en_id ` set batch) rest = rest" "filter (\<lambda>e. en_id e \<in> en_id ` set batch) rest = []"
    using out by (auto simp: filter_id_conv filter_empty_conv)
  moreover have "filter (\<lambda>e. en_id e \<notin> en_id ` set batch) batch = []"
    "filter (\<lambda>e. en_id e \<in> en_id ` set batch) batch = batch"
    by (auto simp: filter_id_conv filter_empty_conv)
  ultimately show "eb_queue (remove_batch (map en_id batch) b) = rest"
    and "counted b \<Longrightarrow> counted (remove_batch (map en_id batch) b)"
    using assms(1) by (simp_all add: remove_batch_def counted_def queued_bytes_def)
qed

lemma clear_inflight_queue:
  assumes "eb_queue b = batch @ rest" "distinct (map en_id batch @ map en_id rest)"
  shows "eb_queue (clear_inflight (map en_id batch) b) = map (\<lambda>e. e\<lparr>en_inflight := False\<rparr>) batch @ rest"
proof -
  have "e \<in> set rest \<Longrightarrow> en_id e \<notin> en_id ` set batch" for e using assms(2) by auto
  then show ?thesis using assms(1) by (auto simp: clear_inflight_def intro!: map_idI)
qed

lemma clear_inflight_inv:
  assumes "eb_inv b" "eb_run b = Posting ids attempt"
  shows "counted (clear_inflight ids b)" "numbered_queue (clear_inflight ids b)"
    "list_all waiting (eb_queue (clear_inflight ids b))"
    "map en_id (eb_queue (clear_inflight ids b)) = map en_id (eb_queue b)"
proof -
  obtain batch rest where q: "eb_queue b = batch @ rest" "map en_id batch = ids" "list_all waiting rest"
    "distinct (ids @ map en_id rest)" using posting_split [OF assms] by metis
  have c: "eb_queue (clear_inflight ids b) = map (\<lambda>e. e\<lparr>en_inflight := False\<rparr>) batch @ rest"
    using clear_inflight_queue [OF q(1)] q(2,4) by simp
  then show ids: "map en_id (eb_queue (clear_inflight ids b)) = map en_id (eb_queue b)"
    using q(1) by (simp add: comp_def)
  show "list_all waiting (eb_queue (clear_inflight ids b))"
    unfolding c using q(3) by (auto simp: list_all_iff waiting_def)
  have "eb_bytes (clear_inflight ids b) = eb_bytes b" "eb_next (clear_inflight ids b) = eb_next b"
    by (simp_all add: clear_inflight_def)
  moreover have "queued_bytes (eb_queue (clear_inflight ids b)) = queued_bytes (eb_queue b)"
    by (rule queued_bytes_cong) (simp add: c q(1) comp_def)
  ultimately show "counted (clear_inflight ids b)" "numbered_queue (clear_inflight ids b)"
    using assms(1) numbered_queue_cong [OF ids] by (simp_all add: eb_inv_def counted_def)
qed

lemma removed_batch_inv:
  assumes "counted b" "numbered_queue b" "eb_queue b = batch @ rest" "list_all waiting rest"
  shows "counted (remove_batch (map en_id batch) b)" "numbered_queue (remove_batch (map en_id batch) b)"
    "list_all waiting (eb_queue (remove_batch (map en_id batch) b))"
    "eb_queue (remove_batch (map en_id batch) b) = rest"
proof -
  have "distinct (map en_id batch @ map en_id rest)"
    using assms(2,3) strict_sorted_iff [of "map en_id (eb_queue b)"] by (simp add: numbered_queue_def)
  note r = remove_batch_rest [OF assms(3) this]
  then show "counted (remove_batch (map en_id batch) b)" "eb_queue (remove_batch (map en_id batch) b) = rest"
    "list_all waiting (eb_queue (remove_batch (map en_id batch) b))"
    using assms(1,4) by simp_all
  show "numbered_queue (remove_batch (map en_id batch) b)"
    using assms(2) r(1) by (auto simp: numbered_queue_def assms(3) sorted_wrt_append remove_batch_def)
qed

lemma posted_inv:
  assumes inv: "eb_inv b" and run: "eb_run b = Posting ids attempt"
  shows "eb_inv (snd (post_settled Posted b))"
    and "map en_id (eb_queue b) = ids @ map en_id (eb_queue (snd (post_settled Posted b)))"
    and "eb_next (snd (post_settled Posted b)) = eb_next b"
proof -
  obtain batch rest where q: "eb_queue b = batch @ rest" "map en_id batch = ids" "list_all waiting rest"
    using posting_split [OF assms] by metis
  note r = removed_batch_inv [OF _ _ q(1,3), unfolded q(2)]
  have "counted b" "numbered_queue b" using inv by (simp_all add: eb_inv_def)
  note r = r [OF this]
  note l = run_loop_inv [OF r(1-3), of 0]
  have "eb_next (remove_batch ids b) = eb_next b" by (simp add: remove_batch_def)
  with l r(4) q run show "eb_inv (snd (post_settled Posted b))"
    "map en_id (eb_queue b) = ids @ map en_id (eb_queue (snd (post_settled Posted b)))"
    "eb_next (snd (post_settled Posted b)) = eb_next b"
    by (simp_all add: post_settled_def)
qed


lemma subseq_sorted_append:
  "subseq ids ids' \<Longrightarrow> sorted_wrt (<) (acked @ ids') \<Longrightarrow> sorted_wrt (<) (acked @ (ids :: nat list))"
  by (rule sorted_wrt_subseq) (auto intro: list_emb_append_mono)

lemma rejected_inv:
  assumes inv: "eb_inv b" and run: "eb_run b = Posting ids attempt" and "r \<noteq> Posted"
  shows "eb_inv (snd (post_settled r b))"
    and "subseq (map en_id (eb_queue (snd (post_settled r b)))) (map en_id (eb_queue b))"
    and "eb_next (snd (post_settled r b)) = eb_next b"
proof -
  note c = clear_inflight_inv [OF inv run]
  have nx: "eb_next (clear_inflight ids b) = eb_next b" "eb_fatal (clear_inflight ids b) = eb_fatal b"
    by (simp_all add: clear_inflight_def)
  have "eb_inv (snd (post_settled r b)) \<and>
    subseq (map en_id (eb_queue (snd (post_settled r b)))) (map en_id (eb_queue b)) \<and>
    eb_next (snd (post_settled r b)) = eb_next b"
  proof (cases r)
    case AuthRejected
    let ?b = "(clear_inflight ids b)\<lparr>eb_fatal := True\<rparr>"
    have "counted ?b" "numbered_queue ?b" "list_all waiting (eb_queue ?b)"
      using c by (simp_all add: buffer_flags)
    from run_loop_inv [OF this, of attempt] show ?thesis
      using AuthRejected run nx c(4) by (simp add: post_settled_def case_prod_beta)
  next
    case BatchRejected
    obtain batch rest where q: "eb_queue b = batch @ rest" "map en_id batch = ids" "list_all waiting rest"
      "distinct (ids @ map en_id rest)" using posting_split [OF inv run] by metis
    have "eb_queue (clear_inflight ids b) = map (\<lambda>e. e\<lparr>en_inflight := False\<rparr>) batch @ rest"
      using clear_inflight_queue [OF q(1)] q(2,4) by simp
    from removed_batch_inv [OF c(1,2) this q(3)] q(2)
    have r: "counted (remove_batch ids (clear_inflight ids b))" "numbered_queue (remove_batch ids (clear_inflight ids b))"
      "list_all waiting (eb_queue (remove_batch ids (clear_inflight ids b)))"
      "eb_queue (remove_batch ids (clear_inflight ids b)) = rest" by (simp_all add: comp_def)
    from run_loop_inv [OF r(1-3), of attempt] show ?thesis
      using BatchRejected run nx q r(4) by (simp add: post_settled_def remove_batch_def list_emb_append2)
  next
    case PostFailed
    with run c nx show ?thesis
      by (simp add: post_settled_def eb_inv_def buffer_flags inflight_ok_def awake_def eb_pumping_def)
  qed (use assms(3) in simp)
  then show "eb_inv (snd (post_settled r b))"
    "subseq (map en_id (eb_queue (snd (post_settled r b)))) (map en_id (eb_queue b))"
    "eb_next (snd (post_settled r b)) = eb_next b" by blast+
qed

subsection \<open>Runs of the buffer\<close>

text \<open>
  The buffer together with the numbers of the entries Flow has acknowledged, in the order it did. A push
  that throws is an error of its caller and not a step.
\<close>

type_synonym eb_system = "event_buffer \<times> nat list"

inductive eb_step :: "eb_options \<Rightarrow> eb_system \<Rightarrow> eb_system \<Rightarrow> bool" for opts where
  push: "eb_push opts secrets events b = (None, es, b') \<Longrightarrow> eb_step opts (b, acked) (b', acked)"
| flush: "eb_step opts (b, acked) (snd (eb_flush w b), acked)"
| close: "eb_step opts (b, acked) (eb_close b, acked)"
| posted: "eb_run b = Posting ids n \<Longrightarrow> eb_step opts (b, acked) (snd (post_settled Posted b), acked @ ids)"
| failed: "eb_run b = Posting ids n \<Longrightarrow> r \<noteq> Posted \<Longrightarrow> eb_step opts (b, acked) (snd (post_settled r b), acked)"
| slept: "eb_step opts (b, acked) (snd (sleep_over b), acked)"
| finished: "eb_step opts (b, acked) (snd (run_finally opts b), acked)"
| timer: "eb_step opts (b, acked) (snd (timer_fires b), acked)"
| timeout: "eb_step opts (b, acked) (snd (flush_timeout w b), acked)"

text \<open>What was acknowledged comes before what is queued, and nothing is acknowledged twice.\<close>

definition eb_system_inv :: "eb_system \<Rightarrow> bool" where
  "eb_system_inv s \<longleftrightarrow>
     eb_inv (fst s) \<and> sorted_wrt (<) (snd s @ map en_id (eb_queue (fst s))) \<and> (\<forall>i \<in> set (snd s). i < eb_next (fst s))"

lemma push_ids:
  assumes "eb_push opts secrets events b = (None, es, b')" and "eb_inv b"
  shows "eb_next b \<le> eb_next b'"
    and "subseq (map en_id (eb_queue b')) (map en_id (eb_queue b) @ [eb_next b..<eb_next b'])"
proof -
  have "eb_next b \<le> eb_next b' \<and>
    subseq (map en_id (eb_queue b')) (map en_id (eb_queue b) @ [eb_next b..<eb_next b'])"
  proof (cases "eb_closed b \<or> eb_fatal b")
    case True
    with assms(1) show ?thesis by (simp add: eb_push_def)
  next
    case False
    then obtain b1 where b1: "enqueue (filter (\<lambda>s. length s \<ge> 8) secrets) events b = (None, b1)"
      and b': "b' = snd (schedule opts (evict opts b1))"
      using assms(1) by (auto simp: eb_push_def split: prod.splits option.splits)
    obtain new where new: "eb_queue b1 = eb_queue b @ new" "map en_id new = [eb_next b..<eb_next b1]"
      "eb_next b \<le> eb_next b1" using enqueue_appends [OF b1] by blast
    have "counted b" "numbered_queue b" "inflight_ok b" using assms(2) by (simp_all add: eb_inv_def)
    from enqueue_inv [OF this b1] have "counted b1" "numbered_queue b1" "inflight_ok b1" by simp_all
    from evict_inv [OF this, of opts] have s: "map en_id (eb_queue b') = map en_id (eb_queue (evict opts b1))"
      "eb_next b' = eb_next (evict opts b1)" using schedule_inv [of "evict opts b1" opts] by (simp_all add: b')
    have "subseq (map en_id (eb_queue (evict opts b1))) (map en_id (eb_queue b1))" "eb_next (evict opts b1) = eb_next b1"
      using evict_shrunk [of b1 opts] by (auto simp: shrunk_def intro: subseq_map)
    with s new show ?thesis by simp
  qed
  then show "eb_next b \<le> eb_next b'"
    "subseq (map en_id (eb_queue b')) (map en_id (eb_queue b) @ [eb_next b..<eb_next b'])" by blast+
qed


lemma eb_step_inv: "eb_step opts s s' \<Longrightarrow> eb_system_inv s \<Longrightarrow> eb_system_inv s'"
proof (induction rule: eb_step.induct)
  case (push secrets events b es b' acked)
  then have inv: "eb_inv b" and srt: "sorted_wrt (<) (acked @ map en_id (eb_queue b))"
    and lt: "\<forall>i \<in> set acked. i < eb_next b" by (simp_all add: eb_system_inv_def)
  note ids = push_ids [OF push.hyps inv]
  have "sorted_wrt (<) (acked @ map en_id (eb_queue b) @ [eb_next b..<eb_next b'])"
    using srt lt inv by (fastforce simp: sorted_wrt_append eb_inv_def numbered_queue_def)
  from subseq_sorted_append [OF ids(2) this] lt ids(1) push_inv [OF inv push.hyps] show ?case
    by (auto simp: eb_system_inv_def)
next
  case (flush b acked w)
  then have inv: "eb_inv b" by (simp add: eb_system_inv_def)
  then have "counted (b\<lparr>eb_timer := False\<rparr>)" "numbered_queue (b\<lparr>eb_timer := False\<rparr>)" "inflight_ok (b\<lparr>eb_timer := False\<rparr>)"
    by (simp_all add: eb_inv_def buffer_flags)
  from pump_inv [OF this] flush show ?case
    by (auto simp: eb_system_inv_def eb_flush_def case_prod_beta eb_inv_def buffer_flags)
next
  case (close b acked)
  then show ?case by (simp add: eb_system_inv_def eb_close_def eb_inv_def buffer_flags)
next
  case (posted b ids n acked)
  then have inv: "eb_inv b" by (simp add: eb_system_inv_def)
  note p = posted_inv [OF inv posted.hyps]
  have "\<forall>i \<in> set ids. i < eb_next b"
    using inv p(2) by (auto simp: eb_inv_def numbered_queue_def simp del: set_map)
  with p posted show ?case by (auto simp: eb_system_inv_def)
next
  case (failed b ids n r acked)
  then have inv: "eb_inv b" by (simp add: eb_system_inv_def)
  note r = rejected_inv [OF inv failed.hyps]
  from failed subseq_sorted_append [OF r(2)] r(1,3) show ?case by (simp add: eb_system_inv_def)
next
  case (slept b acked)
  then have inv: "eb_inv b" by (simp add: eb_system_inv_def)
  show ?case
  proof (cases "eb_run b")
    case (Sleeping n)
    then have "counted b" "numbered_queue b" "list_all waiting (eb_queue b)"
      using inv by (simp_all add: eb_inv_def inflight_ok_def)
    from run_loop_inv [OF this, of n] slept Sleeping show ?thesis
      by (simp add: eb_system_inv_def sleep_over_def)
  qed (use slept in \<open>simp_all add: sleep_over_def\<close>)
next
  case (finished b acked)
  then have inv: "eb_inv b" by (simp add: eb_system_inv_def)
  show ?case
  proof (cases "eb_run b = Finishing")
    case True
    then have b: "counted (b\<lparr>eb_run := Idle\<rparr>)" "numbered_queue (b\<lparr>eb_run := Idle\<rparr>)" "inflight_ok (b\<lparr>eb_run := Idle\<rparr>)"
      using inv by (simp_all add: eb_inv_def buffer_flags inflight_ok_def)
    from schedule_inv [OF this, of opts] finished True b show ?thesis
      by (auto simp: eb_system_inv_def run_finally_def Let_def eb_inv_def awake_def)
  qed (use finished in \<open>simp add: run_finally_def\<close>)
next
  case (timer b acked)
  then have inv: "eb_inv b" by (simp add: eb_system_inv_def)
  then have "counted (b\<lparr>eb_timer := False\<rparr>)" "numbered_queue (b\<lparr>eb_timer := False\<rparr>)" "inflight_ok (b\<lparr>eb_timer := False\<rparr>)"
    by (simp_all add: eb_inv_def buffer_flags)
  from pump_inv [OF this] timer show ?case by (simp add: eb_system_inv_def timer_fires_def)
next
  case (timeout b acked w)
  then show ?case by (simp add: flush_timeout_def)
qed

interpretation buffer_system: invariant_system "eb_step opts" "(eb_new, [])" eb_system_inv for opts
proof
  show "eb_system_inv (eb_new, [])"
    by (simp add: eb_system_inv_def eb_new_def eb_inv_def counted_def numbered_queue_def inflight_ok_def
        awake_def queued_bytes_def)
qed (rule eb_step_inv)


lemma schedule_bytes: "eb_bytes (snd (schedule opts b)) = eb_bytes b"
  by (simp add: schedule_def pump_def run_loop_def Let_def)

text \<open>
  C15. After a push the event buffer is within its bound, or everything still queued is in flight: the
  byte count exceeds \<open>maxBytes\<close> only by the batch that is being posted.
\<close>

theorem push_bounded:
  assumes inv: "eb_inv b" and push: "eb_push opts secrets events b = (None, es, b')"
    and "\<not> eb_closed b" "\<not> eb_fatal b" "0 \<le> opt_maxBytes opts"
  shows "eb_bytes b' \<le> opt_maxBytes opts \<or> (eb_pumping b \<and> list_all en_inflight (eb_queue b'))"
proof -
  obtain b1 where b1: "enqueue (filter (\<lambda>s. length s \<ge> 8) secrets) events b = (None, b1)"
    and b': "b' = snd (schedule opts (evict opts b1))"
    using assms(2-4) by (auto simp: eb_push_def split: prod.splits option.splits)
  let ?e = "evict opts b1"
  have run: "eb_pumping ?e \<longleftrightarrow> eb_pumping b"
    using enqueue_appends [OF b1] evict_shrunk [of b1 opts] by (auto simp: eb_pumping_def shrunk_def)
  have "counted b" "numbered_queue b" "inflight_ok b" using inv by (simp_all add: eb_inv_def)
  from enqueue_inv [OF this b1] have "counted b1" "numbered_queue b1" "inflight_ok b1" by simp_all
  from evict_inv [OF this] have e: "counted ?e" "inflight_ok ?e" by simp_all
  show ?thesis
  proof (cases "eb_pumping b")
    case True
    with run have "b' = ?e" by (simp add: b' schedule_def)
    with True evict_bound [of opts b1] show ?thesis by simp
  next
    case False
    with run e(2) have "list_all waiting (eb_queue ?e)" by (simp add: eb_pumping_def inflight_ok_def)
    then have "list_all en_inflight (eb_queue ?e) \<Longrightarrow> eb_queue ?e = []"
      by (cases "eb_queue ?e") (auto simp: waiting_def)
    with evict_bound [of opts b1] e(1) assms(5) have "eb_bytes ?e \<le> opt_maxBytes opts"
      by (auto simp: counted_def queued_bytes_def)
    then show ?thesis by (simp add: b' schedule_bytes)
  qed
qed

text \<open>
  C16. When the event buffer overflows it keeps what is in flight and drops the oldest thoughts first,
  then, when no thought is left that could go, the oldest ephemeral events, then, when neither is left,
  the oldest events.
\<close>

theorem eviction_order: "evicted_from (eb_queue b) (eb_queue (evict opts b))"
  by (rule evict_policy)

section \<open>Masking\<close>

definition starless :: "string \<Rightarrow> bool" where
  "starless t \<longleftrightarrow> t \<noteq> [] \<and> CHR ''*'' \<notin> set t"

lemma prefix_mask: "starless t \<Longrightarrow> prefix t (mask_secret secret s) \<Longrightarrow> prefix t s"
proof (induction secret s arbitrary: t rule: mask_secret.induct)
  case (1 secret s)
  show ?case
  proof (cases "s = [] \<or> secret = [] \<or> prefix secret s")
    case True
    with "1.prems" show ?thesis
      by (auto simp: mask_secret.simps [of secret s] starless_def prefix_Cons split: if_splits)
  next
    case False
    then obtain c r where s: "s = c # r" by (cases s) auto
    with False "1.prems"(2) have "prefix t (c # mask_secret secret r)"
      by (simp add: mask_secret.simps [of secret "c # r"])
    then consider "t = []" | t' where "t = c # t'" "prefix t' (mask_secret secret r)" by (auto simp: prefix_Cons)
    then show ?thesis
    proof cases
      case 2
      show ?thesis
      proof (cases "t' = []")
        case True
        with 2 s show ?thesis by simp
      next
        case nonempty: False
        with 2 "1.prems"(1) have "starless t'" by (auto simp: starless_def)
        with "1.IH"(2) [of t'] False 2 s show ?thesis by simp
      qed
    qed simp
  qed
qed

lemma mask_suffix:
  "starless t \<Longrightarrow> sublist t (mask_secret secret s) \<Longrightarrow> \<exists>s'. suffix s' s \<and> prefix t (mask_secret secret s')"
proof (induction secret s rule: mask_secret.induct)
  case (1 secret s)
  show ?case
  proof (cases "s = [] \<or> secret = []")
    case True
    then have mask: "mask_secret secret u = u" if "suffix u s" for u
      using that by (subst mask_secret.simps) (auto simp: suffix_def)
    then have "sublist t s" using "1.prems"(2) by (simp add: suffix_def)
    then obtain u where "suffix u s" "prefix t u" by (fastforce simp: sublist_def suffix_def prefix_def)
    with mask show ?thesis by metis
  next
    case False
    show ?thesis
    proof (cases "prefix secret s")
      case True
      with False have "mask_secret secret s = ''***'' @ mask_secret secret (drop (length secret) s)"
        by (subst mask_secret.simps) simp
      with "1.prems" have "sublist t (mask_secret secret (drop (length secret) s))"
        by (auto simp: sublist_Cons_right prefix_Cons starless_def)
      with "1.IH"(1) [OF False True "1.prems"(1)] obtain u where "suffix u (drop (length secret) s)"
        "prefix t (mask_secret secret u)" by blast
      then show ?thesis using suffix_drop suffix_order.trans by blast
    next
      case notp: False
      obtain c r where s: "s = c # r" using False by (cases s) auto
      from notp False s have mask: "mask_secret secret s = c # mask_secret secret r"
        by (simp add: mask_secret.simps [of secret "c # r"])
      with "1.prems"(2) consider "prefix t (mask_secret secret s)" | "sublist t (mask_secret secret r)"
        by (auto simp: sublist_Cons_right)
      then show ?thesis
      proof cases
        case 1
        then show ?thesis by blast
      next
        case 2
        with "1.IH"(2) [OF False notp "1.prems"(1)] s obtain u where "suffix u r" "prefix t (mask_secret secret u)" by auto
        with s show ?thesis by (auto simp: suffix_Cons)
      qed
    qed
  qed
qed

lemma sublist_mask: "starless t \<Longrightarrow> sublist t (mask_secret secret s) \<Longrightarrow> sublist t s"
proof -
  assume t: "starless t" and "sublist t (mask_secret secret s)"
  then obtain u where "suffix u s" and "prefix t (mask_secret secret u)" using mask_suffix by blast
  from prefix_mask [OF t this(2)] \<open>suffix u s\<close> show ?thesis
    unfolding sublist_def suffix_def prefix_def by blast
qed

lemma secret_masked: "starless secret \<Longrightarrow> \<not> sublist secret (mask_secret secret s)"
proof
  assume secret: "starless secret" and "sublist secret (mask_secret secret s)"
  then obtain u where u: "prefix secret (mask_secret secret u)" using mask_suffix by blast
  with secret have "prefix secret u" by (rule_tac prefix_mask)
  with secret have "u \<noteq> []" by (auto simp: starless_def)
  with \<open>prefix secret u\<close> secret u show False
    by (subst (asm) mask_secret.simps) (auto simp: starless_def prefix_Cons)
qed

lemma mask_loop_clean:
  "mask_loop secrets tx ev = Some (tx', ev') \<Longrightarrow> list_all starless secrets \<Longrightarrow> secret \<in> set secrets \<Longrightarrow>
     \<not> sublist secret tx'"
proof -
  have keep: "mask_loop secrets tx ev = Some (tx', ev') \<Longrightarrow> starless t \<Longrightarrow> \<not> sublist t tx \<Longrightarrow> \<not> sublist t tx'"
    for t secrets tx ev
    by (induction secrets arbitrary: tx ev) (auto simp: Let_def split: if_splits option.splits dest: sublist_mask)
  show "mask_loop secrets tx ev = Some (tx', ev') \<Longrightarrow> list_all starless secrets \<Longrightarrow> secret \<in> set secrets \<Longrightarrow>
     \<not> sublist secret tx'"
    by (induction secrets arbitrary: tx ev)
      (auto simp: Let_def secret_masked split: if_splits option.splits dest: keep)
qed


text \<open>The text an event was queued with, and what \<open>push\<close> makes of the secrets.\<close>

definition queued_text :: "string list \<Rightarrow> json \<Rightarrow> (string \<times> json) option" where
  "queued_text secrets event = mask_loop (filter (\<lambda>s. length s \<ge> 8) secrets) (stringify event) event"


section \<open>Samples\<close>

definition sample_event :: json where
  "sample_event = JObj [(''id'', JStr ''1''), (''type'', JStr ''thought''), (''body'', JStr ''key sk-12345'')]"

definition masked_event :: json where
  "masked_event = JObj [(''id'', JStr ''1''), (''type'', JStr ''thought''), (''body'', JStr ''key ***'')]"


text \<open>A buffer of at most ten bytes, and what is left in it after the sample event.\<close>

definition tiny :: eb_options where
  "tiny = \<lparr>opt_maxBytes = 10, opt_batchSize = 20\<rparr>"

lemma tiny_push:
  "eb_push tiny [] [sample_event] eb_new =
     (None, [], eb_new\<lparr>eb_timer := True, eb_dropped := 1, eb_next := 1\<rparr>)"
proof -
  have "enqueue [] [sample_event] eb_new = (None, eb_new\<lparr>eb_queue :=
      [\<lparr>en_id = 0, en_event = sample_event, en_size = 49, en_inflight = False\<rparr>], eb_bytes := 49, eb_next := 1\<rparr>)"
    by code_simp
  then show ?thesis
    by (simp add: eb_push_def eb_new_def tiny_def schedule_def eb_pumping_def evict.simps evict_index_def
        findEvictable_def drop_entry_def remove_at_def)
qed


theorem push_bounded_witness:
  "eb_bytes (eb_new\<lparr>eb_timer := True, eb_dropped := 1, eb_next := 1\<rparr>) \<le> 10"
proof -
  have "eb_inv eb_new"
    using buffer_system.inv_start by (simp add: eb_system_inv_def)
  from push_bounded [OF this tiny_push] show ?thesis by (simp add: eb_new_def tiny_def eb_pumping_def)
qed

end
