(* ===== verification/Regex.thy ===== *)
theory Regex
  imports Flow_Prelude
begin

text \<open>
  The regular expressions of the sources, as far as \<open>test\<close> needs them: does the expression match
  somewhere in the text. Whether a quantifier is greedy or lazy does not matter for that question, so an
  expression is read as the positions where a match may end. All quantified parts in the modelled
  sources are character classes. A position is the character before it and the text after it,
  which is what \<open>\b\<close> looks at.
\<close>

type_synonym pos = "char option \<times> string"

text \<open>\<open>Span m n P\<close>: between \<open>m\<close> and \<open>n\<close> characters of the class \<open>P\<close>, with no upper bound for \<open>None\<close>.\<close>

datatype regex =
    Cls "char \<Rightarrow> bool"
  | Eps
  | Bnd
  | Cat regex regex
  | Alt regex regex
  | Span nat "nat option" "char \<Rightarrow> bool"

definition is_word :: "char \<Rightarrow> bool" where
  "is_word c \<longleftrightarrow> c \<in> set ''abcdefghijklmnopqrstuvwxyzABCDEFGHIJKLMNOPQRSTUVWXYZ0123456789_''"

text \<open>White space within Latin-1, for \<open>\s\<close> and \<open>trim\<close>: tab to carriage return, space, and no-break space.\<close>

definition is_space :: "char \<Rightarrow> bool" where
  "is_space c = (let n = (of_char c :: nat) in 9 \<le> n \<and> n \<le> 13 \<or> n = 32 \<or> n = 160)"

definition word_opt :: "char option \<Rightarrow> bool" where
  "word_opt c = (case c of None \<Rightarrow> False | Some d \<Rightarrow> is_word d)"

definition hd_opt :: "string \<Rightarrow> char option" where
  "hd_opt s = (case s of [] \<Rightarrow> None | c # _ \<Rightarrow> Some c)"

definition at_boundary :: "pos \<Rightarrow> bool" where
  "at_boundary q \<longleftrightarrow> word_opt (fst q) \<noteq> word_opt (hd_opt (snd q))"

text \<open>The position after \<open>k\<close> more characters.\<close>

primrec advance :: "nat \<Rightarrow> pos \<Rightarrow> pos" where
  "advance 0 q = q"
| "advance (Suc k) q = (case snd q of [] \<Rightarrow> q | c # cs \<Rightarrow> advance k (Some c, cs))"

definition span_lengths :: "nat \<Rightarrow> nat option \<Rightarrow> (char \<Rightarrow> bool) \<Rightarrow> string \<Rightarrow> nat list" where
  "span_lengths m n P s =
     (let l = length (takeWhile P s) in [m ..< Suc (case n of None \<Rightarrow> l | Some k \<Rightarrow> min k l)])"

fun ends :: "regex \<Rightarrow> pos \<Rightarrow> pos list" where
  "ends (Cls P) q = (case snd q of [] \<Rightarrow> [] | c # cs \<Rightarrow> if P c then [(Some c, cs)] else [])"
| "ends Eps q = [q]"
| "ends Bnd q = (if at_boundary q then [q] else [])"
| "ends (Cat a b) q = concat (map (ends b) (ends a q))"
| "ends (Alt a b) q = ends a q @ ends b q"
| "ends (Span m n P) q = map (\<lambda>k. advance k q) (span_lengths m n P (snd q))"

fun positions :: "char option \<Rightarrow> string \<Rightarrow> pos list" where
  "positions p [] = [(p, [])]"
| "positions p (c # cs) = (p, c # cs) # positions (Some c) cs"

definition re_test :: "regex \<Rightarrow> string \<Rightarrow> bool" where
  "re_test r s = list_ex (\<lambda>q. ends r q \<noteq> []) (positions None s)"

text \<open>Derived forms. The literals of the sources are matched without regard to case.\<close>

definition lit :: "string \<Rightarrow> regex" where
  "lit w = foldr (\<lambda>x r. Cat (Cls (\<lambda>c. latin_lower c = x)) r) w Eps"

definition seqs :: "regex list \<Rightarrow> regex" where
  "seqs rs = foldr Cat rs Eps"

primrec alts :: "regex \<Rightarrow> regex list \<Rightarrow> regex" where
  "alts r [] = r"
| "alts r (x # xs) = Alt r (alts x xs)"

definition lits :: "string \<Rightarrow> string list \<Rightarrow> regex" where
  "lits w ws = alts (lit w) (map lit ws)"

definition opt :: "regex \<Rightarrow> regex" where
  "opt r = Alt r Eps"

definition one_of :: "string \<Rightarrow> regex" where
  "one_of cs = Cls (\<lambda>c. latin_lower c \<in> set cs)"

definition spaces :: regex where
  "spaces = Span 1 None is_space"

definition digit_re :: regex where
  "digit_re = Cls is_digit"

section \<open>What a match means\<close>

text \<open>The relation the executable search decides.\<close>

inductive re_match :: "regex \<Rightarrow> pos \<Rightarrow> pos \<Rightarrow> bool" where
  m_cls: "P c \<Longrightarrow> re_match (Cls P) (p, c # cs) (Some c, cs)"
| m_eps: "re_match Eps q q"
| m_bnd: "at_boundary q \<Longrightarrow> re_match Bnd q q"
| m_cat: "re_match a q q1 \<Longrightarrow> re_match b q1 q2 \<Longrightarrow> re_match (Cat a b) q q2"
| m_alt1: "re_match a q q1 \<Longrightarrow> re_match (Alt a b) q q1"
| m_alt2: "re_match b q q1 \<Longrightarrow> re_match (Alt a b) q q1"
| m_span0: "re_match (Span 0 n P) q q"
| m_span: "P c \<Longrightarrow> n \<noteq> Some 0 \<Longrightarrow>
    re_match (Span (m - 1) (map_option (\<lambda>k. k - 1) n) P) (Some c, cs) q \<Longrightarrow>
    re_match (Span m n P) (p, c # cs) q"

lemma advance_Suc_Cons [simp]: "advance (Suc k) (p, c # cs) = advance k (Some c, cs)"
  by simp

text \<open>The character before a position that follows the text \<open>a\<close>.\<close>

primrec char_before :: "char option \<Rightarrow> string \<Rightarrow> char option" where
  "char_before p [] = p"
| "char_before p (c # cs) = char_before (Some c) cs"

lemma char_before_snoc [simp]: "char_before p (a @ [c]) = Some c"
  by (induction a arbitrary: p) auto

lemma advance_append: "advance (length a) (p, a @ b) = (char_before p a, b)"
  by (induction a arbitrary: p) auto

lemma set_span_lengths:
  "set (span_lengths m n P s) =
     {k. m \<le> k \<and> k \<le> length (takeWhile P s) \<and> (\<forall>u. n = Some u \<longrightarrow> k \<le> u)}"
  by (auto simp: span_lengths_def Let_def split: option.splits)

lemma span_sound:
  "k \<le> length (takeWhile P (snd q)) \<Longrightarrow> m \<le> k \<Longrightarrow> (\<forall>u. n = Some u \<longrightarrow> k \<le> u) \<Longrightarrow>
     re_match (Span m n P) q (advance k q)"
proof (induction k arbitrary: q m n)
  case 0
  then show ?case by (simp add: m_span0)
next
  case (Suc k)
  then obtain c cs where q: "q = (fst q, c # cs)" and c: "P c"
    by (cases q; cases "snd q") (auto split: if_splits)
  have "k \<le> length (takeWhile P cs)"
    using Suc.prems(1) c by (subst (asm) q) simp
  moreover have "\<forall>u. map_option (\<lambda>k. k - 1) n = Some u \<longrightarrow> k \<le> u"
    using Suc.prems(3) by auto
  moreover have "m - 1 \<le> k" using Suc.prems(2) by simp
  ultimately have "re_match (Span (m - 1) (map_option (\<lambda>k. k - 1) n) P) (Some c, cs) (advance k (Some c, cs))"
    using Suc.IH [of "(Some c, cs)"] by simp
  moreover have "n \<noteq> Some 0" using Suc.prems by auto
  ultimately show ?case using c by (subst q, subst (2) q) (simp del: advance.simps add: m_span)
qed

lemma span_complete:
  "re_match r q q' \<Longrightarrow> r = Span m n P \<Longrightarrow>
     \<exists>k. k \<le> length (takeWhile P (snd q)) \<and> m \<le> k \<and> (\<forall>u. n = Some u \<longrightarrow> k \<le> u) \<and> q' = advance k q"
proof (induction arbitrary: m n rule: re_match.induct)
  case (m_span0 n P q)
  then show ?case by (intro exI [of _ 0]) simp
next
  case (m_span P c n m cs q p)
  then obtain k where "k \<le> length (takeWhile P cs)" "m - 1 \<le> k"
    "\<forall>u. map_option (\<lambda>k. k - 1) n = Some u \<longrightarrow> k \<le> u" "q = advance k (Some c, cs)"
    by auto
  with m_span.hyps m_span.prems show ?case
    by (intro exI [of _ "Suc k"]) (cases n; auto)
qed auto

inductive_cases re_match_cases [elim!]:
  "re_match (Cls P) q q'" "re_match Eps q q'" "re_match Bnd q q'" "re_match (Cat a b) q q'"
  "re_match (Alt a b) q q'"

theorem ends_match: "q' \<in> set (ends r q) \<longleftrightarrow> re_match r q q'"
proof (induction r arbitrary: q q')
  case (Cls P)
  show ?case by (cases q; cases "snd q") (auto intro: m_cls)
next
  case (Span m n P)
  have "q' \<in> set (ends (Span m n P) q) \<longleftrightarrow>
          (\<exists>k. k \<le> length (takeWhile P (snd q)) \<and> m \<le> k \<and> (\<forall>u. n = Some u \<longrightarrow> k \<le> u) \<and> q' = advance k q)"
    by (auto simp: set_span_lengths)
  then show ?case using span_sound span_complete by blast
qed (auto intro: re_match.intros)

section \<open>Searching for literals\<close>

lemma positions_append:
  "q \<in> set (positions p s) \<longleftrightarrow> (\<exists>a b. s = a @ b \<and> q = (char_before p a, b))"
proof (induction s arbitrary: p)
  case Nil
  then show ?case by simp
next
  case (Cons c cs)
  have "(\<exists>a b. c # cs = a @ b \<and> q = (char_before p a, b)) \<longleftrightarrow>
     q = (p, c # cs) \<or> (\<exists>a b. cs = a @ b \<and> q = (char_before (Some c) a, b))"
    (is "?l \<longleftrightarrow> ?r")
  proof
    assume ?l
    then obtain a b where ab: "c # cs = a @ b" "q = (char_before p a, b)" by blast
    then show ?r by (cases a) auto
  next
    assume ?r
    then show ?l
    proof
      assume "q = (p, c # cs)"
      then have "c # cs = [] @ (c # cs) \<and> q = (char_before p [], c # cs)" by simp
      then show ?l by blast
    next
      assume "\<exists>a b. cs = a @ b \<and> q = (char_before (Some c) a, b)"
      then obtain a b where "cs = a @ b" "q = (char_before (Some c) a, b)" by blast
      then have "c # cs = (c # a) @ b \<and> q = (char_before p (c # a), b)" by simp
      then show ?l by blast
    qed
  qed
  with Cons.IH [of "Some c"] show ?case by simp
qed

lemma re_test_iff:
  "re_test r s \<longleftrightarrow> (\<exists>a b. s = a @ b \<and> ends r (char_before None a, b) \<noteq> [])"
  unfolding re_test_def list_ex_iff Bex_def positions_append by blast

lemma ends_lit:
  "ends (lit w) (p, s) =
     (if prefix w (map latin_lower s) then [advance (length w) (p, s)] else [])"
proof (induction w arbitrary: p s)
  case Nil
  then show ?case by (simp add: lit_def)
next
  case (Cons x w)
  have "lit (x # w) = Cat (Cls (\<lambda>c. latin_lower c = x)) (lit w)" by (simp add: lit_def)
  then show ?case by (cases s) (auto simp: Cons.IH)
qed

lemma ends_alts: "set (ends (alts r rs) q) = (\<Union>x \<in> set (r # rs). set (ends x q))"
  by (induction rs arbitrary: r) auto

lemma ends_lits:
  "ends (lits w ws) (p, s) \<noteq> [] \<longleftrightarrow> (\<exists>v \<in> set (w # ws). prefix v (map latin_lower s))"
proof -
  have "set (ends (lits w ws) (p, s)) = (\<Union>v \<in> set (w # ws). set (ends (lit v) (p, s)))"
    unfolding lits_def ends_alts by simp
  also have "\<dots> \<noteq> {} \<longleftrightarrow> (\<exists>v \<in> set (w # ws). ends (lit v) (p, s) \<noteq> [])"
    by (simp add: SUP_bot_conv)
  finally show ?thesis by (simp add: ends_lit)
qed

lemma sublist_map_lower:
  "(\<exists>a b. s = a @ b \<and> prefix v (map latin_lower b)) \<longleftrightarrow> sublist v (map latin_lower s)"
proof
  assume "\<exists>a b. s = a @ b \<and> prefix v (map latin_lower b)"
  then obtain a b t where "s = a @ b" "map latin_lower b = v @ t" by (auto simp: prefix_def)
  then have "map latin_lower s = map latin_lower a @ v @ t" by simp
  then show "sublist v (map latin_lower s)" unfolding sublist_def by blast
next
  assume "sublist v (map latin_lower s)"
  then obtain x y where xy: "map latin_lower s = x @ v @ y" unfolding sublist_def by blast
  then obtain a b where "s = a @ b" "map latin_lower b = v @ y"
    using map_eq_append_conv [of latin_lower s x "v @ y"] by metis
  then show "\<exists>a b. s = a @ b \<and> prefix v (map latin_lower b)" by (auto simp: prefix_def)
qed

theorem test_lits:
  "re_test (lits w ws) s \<longleftrightarrow> (\<exists>v \<in> set (w # ws). sublist v (map latin_lower s))"
proof -
  have "re_test (lits w ws) s \<longleftrightarrow>
          (\<exists>v \<in> set (w # ws). \<exists>a b. s = a @ b \<and> prefix v (map latin_lower b))"
    unfolding re_test_iff ends_lits by blast
  then show ?thesis unfolding sublist_map_lower .
qed

text \<open>A match at a known place.\<close>

lemma re_test_at: "ends r (char_before None a, b) \<noteq> [] \<Longrightarrow> re_test r (a @ b)"
  unfolding re_test_iff by blast

section \<open>Trimming\<close>

definition trim_start :: "string \<Rightarrow> string" where
  "trim_start s = dropWhile is_space s"

definition trim_end :: "string \<Rightarrow> string" where
  "trim_end s = rev (dropWhile is_space (rev s))"

definition trim :: "string \<Rightarrow> string" where
  "trim s = trim_end (trim_start s)"

lemma length_trim: "length (trim s) \<le> length s"
  using length_dropWhile_le le_trans unfolding trim_def trim_end_def trim_start_def length_rev
  by (metis length_rev)

lemma set_trim: "set (trim s) \<subseteq> set s"
  by (auto simp: trim_def trim_end_def trim_start_def dest!: set_dropWhileD)

lemma length_trim_end: "length (trim_end s) \<le> length s"
  using length_dropWhile_le [of is_space "rev s"] by (simp add: trim_end_def)

end
