(* ===== verification/Calendar.thy ===== *)
theory Calendar
  imports Regex Complex_Main
begin

text \<open>
  Calendar dates as JavaScript's \<open>Date\<close> computes them. A date at local midnight is its number of days since
  1970-01-01; \<open>new Date(y, m, d)\<close> and the accessors follow the formulas of the language definition. Also what
  the language's \<open>Number\<close> and \<open>String\<close> do on numbers.
\<close>

section \<open>Years, months and days\<close>

type_synonym date = int

definition day_from_year :: "int \<Rightarrow> int" where
  "day_from_year y = 365 * (y - 1970) + (y - 1969) div 4 - (y - 1901) div 100 + (y - 1601) div 400"

definition is_leap :: "int \<Rightarrow> bool" where
  "is_leap y \<longleftrightarrow> (y mod 4 = 0 \<and> y mod 100 \<noteq> 0) \<or> y mod 400 = 0"

fun days_before :: "bool \<Rightarrow> nat \<Rightarrow> int" where
  "days_before leap 0 = 0"
| "days_before leap (Suc m) = days_before leap m +
     (if m = 1 then (if leap then 29 else 28) else if m \<in> {3, 5, 8, 10} then 30 else 31)"

text \<open>\<open>new Date(y, m, d)\<close> for whole numbers: a month out of range carries into the year, a day out of range runs on.\<close>

definition make_day :: "int \<Rightarrow> int \<Rightarrow> int \<Rightarrow> date" where
  "make_day y m d =
     (let ym = y + m div 12 in day_from_year ym + days_before (is_leap ym) (nat (m mod 12)) + d - 1)"

definition to_integer :: "rat \<Rightarrow> int" where
  "to_integer x = (if x < 0 then - \<lfloor>- x\<rfloor> else \<lfloor>x\<rfloor>)"

text \<open>The constructor drops fractions and reads the years 0 to 99 as 1900 to 1999.\<close>

definition js_date :: "rat \<Rightarrow> rat \<Rightarrow> rat \<Rightarrow> date" where
  "js_date y m d =
     (let yi = to_integer y in make_day (if 0 \<le> yi \<and> yi \<le> 99 then 1900 + yi else yi) (to_integer m) (to_integer d))"

definition getFullYear :: "date \<Rightarrow> int" where
  "getFullYear d =
     (let y = 1970 + (400 * d) div 146097
      in if d < day_from_year y then y - 1 else if day_from_year (y + 1) \<le> d then y + 1 else y)"

definition month_index :: "bool \<Rightarrow> int \<Rightarrow> nat" where
  "month_index leap n = length (takeWhile (\<lambda>m. days_before leap (Suc m) \<le> n) [0..<11])"

definition getMonth :: "date \<Rightarrow> int" where
  "getMonth d = int (month_index (is_leap (getFullYear d)) (d - day_from_year (getFullYear d)))"

definition getDate :: "date \<Rightarrow> int" where
  "getDate d = d - day_from_year (getFullYear d) - days_before (is_leap (getFullYear d)) (nat (getMonth d)) + 1"

definition getDay :: "date \<Rightarrow> int" where
  "getDay d = (d + 4) mod 7"

section \<open>The accessors invert the constructor\<close>

lemma div_bounds: "0 < (b :: int) \<Longrightarrow> b * (n div b) \<le> n \<and> n < b * (n div b) + b"
  using mult_div_mod_eq [of b n] pos_mod_sign [of b n] pos_mod_bound [of b n] by linarith

lemma div_mod_at: "n = b * q + r \<Longrightarrow> 0 \<le> r \<Longrightarrow> r < b \<Longrightarrow> n div b = q \<and> n mod b = (r :: int)"
  using int_div_pos_eq int_mod_pos_eq by blast

lemma day_from_year_bounds:
  "146097 * (y - 1970) - 506 \<le> 400 * day_from_year y" "400 * day_from_year y \<le> 146097 * (y - 1970) + 589"
proof -
  define a b c where "a = (y - 1969) div 4" and "b = (y - 1901) div 100" and "c = (y - 1601) div 400"
  have "4 * a \<le> y - 1969 \<and> y - 1969 < 4 * a + 4" unfolding a_def by (rule div_bounds) simp
  moreover have "100 * b \<le> y - 1901 \<and> y - 1901 < 100 * b + 100" unfolding b_def by (rule div_bounds) simp
  moreover have "400 * c \<le> y - 1601 \<and> y - 1601 < 400 * c + 400" unfolding c_def by (rule div_bounds) simp
  ultimately show "146097 * (y - 1970) - 506 \<le> 400 * day_from_year y" "400 * day_from_year y \<le> 146097 * (y - 1970) + 589"
    unfolding day_from_year_def a_def [symmetric] b_def [symmetric] c_def [symmetric] by simp_all
qed

lemma getFullYear_bounds: "day_from_year (getFullYear d) \<le> d" "d < day_from_year (getFullYear d + 1)"
proof -
  define y where "y = 1970 + (400 * d) div 146097"
  from div_bounds [of 146097 "400 * d"] have "146097 * (y - 1970) \<le> 400 * d" "400 * d < 146097 * (y - 1970) + 146097"
    unfolding y_def by simp_all
  then have "day_from_year (y - 1) \<le> d" "d < day_from_year (y + 2)"
    using day_from_year_bounds(2) [of "y - 1"] day_from_year_bounds(1) [of "y + 2"] by simp_all
  then show "day_from_year (getFullYear d) \<le> d" "d < day_from_year (getFullYear d + 1)"
    by (auto simp: getFullYear_def y_def [symmetric] Let_def add.commute split: if_splits)
qed

lemma days_before_mono: "m \<le> n \<Longrightarrow> days_before leap m + 28 * int (n - m) \<le> days_before leap n"
proof (induction n)
  case (Suc n)
  then show ?case by (cases "m = Suc n") (auto simp: Suc_diff_le)
qed simp

lemma days_before_12: "days_before leap 12 = (if leap then 366 else 365)"
  by (simp add: eval_nat_numeral)

lemma div_step:
  assumes "0 < (b :: int)" shows "(n + 1) div b = n div b + (if (n + 1) mod b = 0 then 1 else 0)"
proof (cases "n mod b + 1 < b")
  case True
  have n: "n + 1 = b * (n div b) + (n mod b + 1)" using mult_div_mod_eq [of b n] by linarith
  have "0 \<le> n mod b" using assms by simp
  then have "0 \<le> n mod b + 1" "n mod b + 1 \<noteq> 0" by linarith+
  then show ?thesis using int_div_pos_eq [OF n _ True] int_mod_pos_eq [OF n _ True] by simp
next
  case False
  with pos_mod_bound [OF assms, of n] have n: "n + 1 = b * (n div b + 1) + 0"
    using mult_div_mod_eq [of b n] distrib_left [of b "n div b" 1] by linarith
  show ?thesis using int_div_pos_eq [OF n _ assms] int_mod_pos_eq [OF n _ assms] by simp
qed

lemma div_shift:
  assumes "0 < (b :: int)" "b dvd k" "k' = k + 1"
  shows "(y - k) div b = (y - k') div b + (if b dvd y then 1 else 0)"
proof -
  have "y - k = (y - k') + 1" using assms(3) by simp
  moreover have "b dvd y - k \<longleftrightarrow> b dvd y" using assms(2) dvd_diff_left_iff by blast
  ultimately show ?thesis using div_step [OF assms(1), of "y - k'"] by (simp only: mod_eq_0_iff_dvd)
qed

lemma year_length: "day_from_year (y + 1) = day_from_year y + (if is_leap y then 366 else 365)"
proof -
  define a b c where "a = (y - 1969) div 4" and "b = (y - 1901) div 100" and "c = (y - 1601) div 400"
  have a: "(y - 1968) div 4 = a + (if 4 dvd y then 1 else 0)" unfolding a_def by (rule div_shift) auto
  have b: "(y - 1900) div 100 = b + (if 100 dvd y then 1 else 0)" unfolding b_def by (rule div_shift) auto
  have c: "(y - 1600) div 400 = c + (if 400 dvd y then 1 else 0)" unfolding c_def by (rule div_shift) auto
  have next_year: "day_from_year (y + 1) = 365 * (y + 1 - 1970) + (y - 1968) div 4 - (y - 1900) div 100 + (y - 1600) div 400"
    unfolding day_from_year_def by (simp only: diff_add_eq_diff_diff_swap [symmetric] add_diff_eq [symmetric]) simp
  have "day_from_year y = 365 * (y - 1970) + a - b + c" by (simp only: day_from_year_def a_def b_def c_def)
  moreover have "400 dvd y \<Longrightarrow> 100 dvd y" "100 dvd y \<Longrightarrow> 4 dvd y"
    using dvd_trans [of 100 400 y] dvd_trans [of 4 100 y] by simp_all
  ultimately show ?thesis unfolding next_year a b c is_leap_def mod_eq_0_iff_dvd by auto
qed

text \<open>The first of a month; months are numbered through the years.\<close>

definition month_first :: "int \<Rightarrow> date" where
  "month_first k = make_day 0 k 1"

lemma make_day_first: "make_day y m d = month_first (12 * y + m) + d - 1"
  by (simp add: month_first_def make_day_def Let_def)

lemma month_first_at:
  "k div 12 = y \<Longrightarrow> k mod 12 = int m \<Longrightarrow> month_first k = day_from_year y + days_before (is_leap y) m"
  by (simp add: month_first_def make_day_def Let_def)

lemma month_first_next:
  assumes "k div 12 = y" "k mod 12 = int m"
  shows "month_first (k + 1) = day_from_year y + days_before (is_leap y) (Suc m)"
proof (cases "m = 11")
  case True
  have "k + 1 = 12 * (y + 1) + int 0" using True assms mult_div_mod_eq [of 12 k] by simp
  from div_mod_at [OF this] have "(k + 1) div 12 = y + 1" "(k + 1) mod 12 = int 0" by simp_all
  then have "month_first (k + 1) = day_from_year (y + 1) + days_before (is_leap (y + 1)) 0" by (rule month_first_at)
  moreover have "Suc m = 12" using True by simp
  ultimately show ?thesis using year_length [of y] days_before_12 by simp
next
  case False
  have "k mod 12 < 12" by simp
  then have "int (Suc m) < 12" using False assms(2) by simp
  have "k + 1 = 12 * y + int (Suc m)" using assms mult_div_mod_eq [of 12 k] by simp
  from div_mod_at [OF this] \<open>int (Suc m) < 12\<close> have "(k + 1) div 12 = y" "(k + 1) mod 12 = int (Suc m)" by simp_all
  then show ?thesis by (rule month_first_at)
qed

lemma month_first_step: "month_first k + 28 \<le> month_first (k + 1)"
proof -
  have "k mod 12 = int (nat (k mod 12))" by simp
  from month_first_at [OF refl this] month_first_next [OF refl this] show ?thesis by simp
qed

declare days_before.simps [simp del]

lemma month_first_mono: "j \<le> k \<Longrightarrow> month_first j + 28 * (k - j) \<le> month_first k"
proof (induction k rule: int_ge_induct)
  case (step k)
  then show ?case using month_first_step [of k] by simp
qed simp

lemma month_first_le: "j \<le> k \<Longrightarrow> month_first j \<le> month_first k"
  using month_first_mono [of j k] by simp

definition month_number :: "date \<Rightarrow> int" where
  "month_number d = 12 * getFullYear d + getMonth d"

lemma month_index_le: "month_index leap n \<le> 11"
  unfolding month_index_def using length_takeWhile_le [of "\<lambda>m. days_before leap (Suc m) \<le> n" "[0..<11]"] by simp

lemma month_index_before: "0 \<le> n \<Longrightarrow> days_before leap (month_index leap n) \<le> n"
proof (cases "month_index leap n")
  case (Suc m)
  then have "takeWhile (\<lambda>m. days_before leap (Suc m) \<le> n) [0..<11] ! m = m"
    using month_index_le [of leap n] takeWhile_nth [of m "\<lambda>m. days_before leap (Suc m) \<le> n" "[0..<11]"]
    by (simp add: month_index_def)
  then have "m \<in> set (takeWhile (\<lambda>m. days_before leap (Suc m) \<le> n) [0..<11])"
    using Suc nth_mem [of m "takeWhile (\<lambda>m. days_before leap (Suc m) \<le> n) [0..<11]"] by (simp add: month_index_def)
  then show ?thesis using Suc by (auto dest: set_takeWhileD)
qed (simp add: days_before.simps)

lemma month_index_after: "n < days_before leap 12 \<Longrightarrow> n < days_before leap (Suc (month_index leap n))"
proof (cases "month_index leap n = 11")
  case False
  then have "length (takeWhile (\<lambda>m. days_before leap (Suc m) \<le> n) [0..<11]) < length [0..<11]"
    using month_index_le [of leap n] by (simp add: month_index_def)
  from nth_length_takeWhile [OF this] False month_index_le [of leap n] show ?thesis by (simp add: month_index_def)
qed simp

lemma getMonth_range: "0 \<le> getMonth d" "getMonth d \<le> 11"
  using month_index_le by (simp_all add: getMonth_def) 

lemma getDate_first: "d = month_first (month_number d) + getDate d - 1"
proof -
  have m: "0 \<le> getMonth d" "getMonth d < 12" using getMonth_range [of d] by simp_all
  from div_mod_at [OF refl this] have "month_number d div 12 = getFullYear d" "month_number d mod 12 = int (nat (getMonth d))"
    unfolding month_number_def using m by simp_all
  from month_first_at [OF this] show ?thesis by (simp add: getDate_def)
qed

lemma getDate_range: "1 \<le> getDate d" "getDate d \<le> month_first (month_number d + 1) - month_first (month_number d)"
proof -
  let ?y = "getFullYear d"
  let ?n = "d - day_from_year ?y"
  have n: "0 \<le> ?n" "?n < days_before (is_leap ?y) 12"
    using getFullYear_bounds [of d] year_length [of ?y] by (simp_all add: days_before_12)
  show "1 \<le> getDate d" using month_index_before [OF n(1), of "is_leap ?y"] by (simp add: getDate_def getMonth_def)
  have "0 \<le> getMonth d" "getMonth d < 12" using getMonth_range [of d] by simp_all
  from div_mod_at [OF refl this] this(1) have k: "month_number d div 12 = ?y" "month_number d mod 12 = int (nat (getMonth d))"
    unfolding month_number_def by simp_all
  have "?n < days_before (is_leap ?y) (Suc (nat (getMonth d)))"
    using month_index_after [OF n(2)] by (simp add: getMonth_def)
  then show "getDate d \<le> month_first (month_number d + 1) - month_first (month_number d)"
    using month_first_at [OF k] month_first_next [OF k] by (simp add: getDate_def)
qed

lemma month_number_unique: "month_first k \<le> d \<Longrightarrow> d < month_first (k + 1) \<Longrightarrow> month_number d = k"
proof (rule ccontr)
  assume d: "month_first k \<le> d" "d < month_first (k + 1)" and "month_number d \<noteq> k"
  then consider "month_number d + 1 \<le> k" | "k + 1 \<le> month_number d" by linarith
  then show False
    using month_first_mono [of "month_number d + 1" k] month_first_mono [of "k + 1" "month_number d"]
      getDate_first [of d] getDate_range [of d] d by cases simp_all
qed

lemma js_date_month:
  "\<not> (0 \<le> y \<and> y \<le> 99) \<Longrightarrow> js_date (of_int y) (of_int m) (of_int d) = month_first (12 * y + m) + d - 1"
  by (simp add: js_date_def to_integer_def Let_def make_day_first flip: of_int_minus)

lemma month_last_day:
  "\<not> (0 \<le> y \<and> y \<le> 99) \<Longrightarrow> getDate (js_date (of_int y) (of_int (m + 1)) 0) = month_first (12 * y + m + 1) - month_first (12 * y + m)"
proof -
  assume y: "\<not> (0 \<le> y \<and> y \<le> 99)"
  define d where "d = js_date (of_int y) (of_int (m + 1)) 0"
  have e: "d = month_first (12 * y + m + 1) - 1" using js_date_month [OF y, of "m + 1" 0] by (simp add: d_def algebra_simps)
  have "month_number d = 12 * y + m"
    by (rule month_number_unique) (use month_first_step [of "12 * y + m"] in \<open>simp_all add: e\<close>)
  then show ?thesis using getDate_first [of d] e by (simp add: d_def)
qed

section \<open>Numbers and their numerals\<close>

text \<open>\<open>Number(s)\<close>, with no value for NaN. The spelling \<open>Infinity\<close> is left out.\<close>

definition split_sign :: "string \<Rightarrow> bool \<times> string" where
  "split_sign s = (case s of c # t \<Rightarrow> if c = CHR ''-'' then (True, t) else if c = CHR ''+'' then (False, t) else (False, s) | [] \<Rightarrow> (False, s))"

definition exponent_part :: "string \<Rightarrow> int option" where
  "exponent_part s =
     (let (neg, ds) = split_sign s
      in if ds \<noteq> [] \<and> list_all is_digit ds then Some ((if neg then -1 else 1) * int (digits_value ds)) else None)"

definition unsigned_decimal :: "string \<Rightarrow> rat option" where
  "unsigned_decimal s =
     (let i = takeWhile is_digit s; r = dropWhile is_digit s;
          (f, t) = (if r \<noteq> [] \<and> hd r = CHR ''.'' then (takeWhile is_digit (tl r), dropWhile is_digit (tl r)) else ([], r));
          m = of_nat (digits_value (i @ f)) / 10 ^ length f
      in if i = [] \<and> f = [] then None
         else if t = [] then Some m
         else if hd t = CHR ''e'' \<or> hd t = CHR ''E'' then
           map_option (\<lambda>e. if 0 \<le> e then m * 10 ^ nat e else m / 10 ^ nat (- e)) (exponent_part (tl t))
         else None)"

definition digit_of_base :: "nat \<Rightarrow> char \<Rightarrow> nat option" where
  "digit_of_base b c = find (\<lambda>k. latin_lower c = digit_char k) [0..<b]"

definition radix_literal :: "nat \<Rightarrow> string \<Rightarrow> rat option" where
  "radix_literal b s =
     (if s = [] \<or> list_ex (\<lambda>c. digit_of_base b c = None) s then None
      else Some (of_nat (foldl (\<lambda>n c. n * b + the (digit_of_base b c)) 0 s)))"

definition js_number :: "string \<Rightarrow> rat option" where
  "js_number str =
     (let s = trim str; p = map latin_lower (take 2 s)
      in if s = [] then Some 0
         else if p = ''0x'' then radix_literal 16 (drop 2 s)
         else if p = ''0o'' then radix_literal 8 (drop 2 s)
         else if p = ''0b'' then radix_literal 2 (drop 2 s)
         else (let (neg, t) = split_sign s in map_option (\<lambda>q. if neg then - q else q) (unsigned_decimal t)))"

text \<open>\<open>String(q)\<close>: a fraction is printed to at most 17 digits.\<close>

primrec fraction_digits :: "nat \<Rightarrow> rat \<Rightarrow> string" where
  "fraction_digits 0 q = []"
| "fraction_digits (Suc n) q = (if q = 0 then [] else nat_str (nat \<lfloor>q * 10\<rfloor>) @ fraction_digits n (q * 10 - of_int \<lfloor>q * 10\<rfloor>))"

definition num_str :: "rat \<Rightarrow> string" where
  "num_str q =
     (if q = of_int \<lfloor>q\<rfloor> then int_str \<lfloor>q\<rfloor>
      else (if q < 0 then ''-'' else []) @ nat_str (nat \<lfloor>\<bar>q\<bar>\<rfloor>) @ ''.'' @ fraction_digits 17 (\<bar>q\<bar> - of_int \<lfloor>\<bar>q\<bar>\<rfloor>))"

lemma num_str_int [simp]: "num_str (of_int i) = int_str i"
  by (simp add: num_str_def)

end
