(* ===== verification/Web_Text.thy ===== *)
theory Web_Text
  imports Json Calendar
begin

text \<open>
  Text of the web: addresses, percent encoding, query strings and headers, as the language's library treats
  them.
\<close>

section \<open>Addresses\<close>

definition unreserved :: "char \<Rightarrow> bool" where
  "unreserved c \<longleftrightarrow>
     (let n = (of_char c :: nat)
      in is_digit c \<or> (65 \<le> n \<and> n \<le> 90) \<or> (97 \<le> n \<and> n \<le> 122) \<or> c \<in> set ''-_.!~*()'' \<or> c = CHR 0x27)"

definition hex_upper :: "nat \<Rightarrow> char" where
  "hex_upper d = ''0123456789ABCDEF'' ! d"

definition percent :: "nat \<Rightarrow> string" where
  "percent b = [CHR ''%'', hex_upper (b div 16), hex_upper (b mod 16)]"

text \<open>The bytes of a Latin-1 character in UTF-8, percent encoded unless it is unreserved.\<close>

definition encodeURIComponent :: "string \<Rightarrow> string" where
  "encodeURIComponent s =
     concat (map (\<lambda>c. let n = (of_char c :: nat)
       in if unreserved c then [c]
          else if n < 128 then percent n
          else percent (192 + n div 64) @ percent (128 + n mod 64)) s)"

text \<open>\<open>baseUrl.replace(/\/+$/, '')\<close>.\<close>

definition strip_slashes :: "string \<Rightarrow> string" where
  "strip_slashes u = rev (dropWhile (\<lambda>c. c = CHR ''/'') (rev u))"

text \<open>\<open>URLSearchParams.toString()\<close>: like \<open>encodeURIComponent\<close>, with fewer characters left as they are and + for a space.\<close>

definition form_char :: "char \<Rightarrow> string" where
  "form_char c =
     (if c = CHR '' '' then ''+'' else if c \<in> set ''!~()'' \<or> c = CHR 0x27 then percent (of_char c) else encodeURIComponent [c])"

definition form_encode :: "(string \<times> string) list \<Rightarrow> string" where
  "form_encode kvs =
     join_with ''&'' (map (\<lambda>kv. concat (map form_char (fst kv)) @ ''='' @ concat (map form_char (snd kv))) kvs)"

section \<open>Headers\<close>

text \<open>The names of headers do not depend on the case of their letters: a \<open>Headers\<close> object keeps lower-case names.\<close>

type_synonym headers = "(string \<times> string) list"

definition header_get :: "headers \<Rightarrow> string \<Rightarrow> string option" where
  "header_get hs name = map_of hs (map latin_lower name)"

definition header_set :: "string \<Rightarrow> string \<Rightarrow> headers \<Rightarrow> headers" where
  "header_set name v hs = AList.update (map latin_lower name) v hs"

definition set_all :: "(string \<times> string) list \<Rightarrow> headers \<Rightarrow> headers" where
  "set_all kvs hs = foldl (\<lambda>h kv. header_set (fst kv) (snd kv) h) hs kvs"

lemma header_get_set:
  "header_get (header_set n v hs) m = (if map latin_lower m = map latin_lower n then Some v else header_get hs m)"
  by (simp add: header_get_def header_set_def update_conv)

end
