(* ===== verification/Runtime_Client.thy ===== *)
theory Runtime_Client
  imports Event_Buffer Web_Text
begin

text \<open>
  \<open>sandbox-runner/src/runtime-client.ts\<close>: one request with its retries, and the calls of the runtime API.

  The environment of an attempt is data: what \<open>fetch\<close> does, whether the caller's signal is aborted at the
  points the code asks, the clock and the random number. \<open>request_loop\<close> reads one such record per
  attempt and is \<open>None\<close> while attempts are still to come. Bodies and headers are not modelled; paths are.
\<close>

subsection \<open>Errors and one attempt\<close>

text \<open>
  \<open>Thrown\<close> is any error that is not a \<open>RuntimeError\<close>: the flags say whether it is the reason of the
  caller's signal and whether its name is \<open>AbortError\<close>.
\<close>

datatype rt_error =
    RuntimeErr nat bool
  | AuthErr nat
  | Thrown bool bool

datatype fetch_outcome = Response nat | Rejects rt_error

definition isRetryableStatus :: "nat \<Rightarrow> bool" where
  "isRetryableStatus status \<longleftrightarrow>
     status = 408 \<or> status = 425 \<or> status = 429 \<or> (status \<ge> 500 \<and> status \<noteq> 501)"

fun isAbort :: "bool \<Rightarrow> rt_error \<Rightarrow> bool" where
  "isAbort aborted (Thrown is_reason named_abort) \<longleftrightarrow> aborted \<and> (is_reason \<or> named_abort)"
| "isAbort aborted _ \<longleftrightarrow> False"

definition response_ok :: "nat \<Rightarrow> bool" where
  "response_ok status \<longleftrightarrow> 200 \<le> status \<and> status \<le> 299"

text \<open>\<open>once\<close>: the status of an accepted response, or the error it throws.\<close>

definition once :: "nat list \<Rightarrow> bool \<Rightarrow> fetch_outcome \<Rightarrow> rt_error + nat" where
  "once acceptStatus aborted outcome =
     (case outcome of
        Rejects e \<Rightarrow> if isAbort aborted e then Inl e else Inl (RuntimeErr 0 True)
      | Response status \<Rightarrow>
          if response_ok status \<or> status \<in> set acceptStatus then Inr status
          else if status = 401 \<or> status = 403 then Inl (AuthErr status)
          else Inl (RuntimeErr status (isRetryableStatus status)))"

fun is_retryable :: "bool \<Rightarrow> rt_error \<Rightarrow> bool" where
  "is_retryable aborted (RuntimeErr status r) \<longleftrightarrow> r"
| "is_retryable aborted (AuthErr status) \<longleftrightarrow> False"
| "is_retryable aborted (Thrown is_reason named_abort) \<longleftrightarrow> \<not> isAbort aborted (Thrown is_reason named_abort)"

subsection \<open>Retries\<close>

text \<open>\<open>attempts\<close> is \<open>None\<close> for \<open>Infinity\<close>.\<close>

record retry_policy =
  rp_attempts :: "nat option"
  rp_deadlineMs :: "nat option"
  rp_baseMs :: "nat option"
  rp_maxMs :: "nat option"

definition RETRY_NONE :: retry_policy where
  "RETRY_NONE = \<lparr>rp_attempts = Some 1, rp_deadlineMs = None, rp_baseMs = None, rp_maxMs = None\<rparr>"

definition RETRY_DEFAULT :: retry_policy where
  "RETRY_DEFAULT = \<lparr>rp_attempts = Some 5, rp_deadlineMs = None, rp_baseMs = Some 1000, rp_maxMs = Some 15000\<rparr>"

definition RETRY_PERSISTENT :: retry_policy where
  "RETRY_PERSISTENT =
     \<lparr>rp_attempts = None, rp_deadlineMs = Some (30 * 60000), rp_baseMs = Some 1000, rp_maxMs = Some 30000\<rparr>"

record attempt_env =
  at_abortedBefore :: bool
  at_outcome :: fetch_outcome
  at_abortedAfter :: bool
  at_elapsed :: int
  at_random :: rat
  at_sleepAborted :: bool

datatype request_result = Returned nat | Threw "rt_error option"

definition attempts_left :: "retry_policy \<Rightarrow> nat \<Rightarrow> bool" where
  "attempts_left p attempt = (case rp_attempts p of None \<Rightarrow> True | Some n \<Rightarrow> attempt < n)"

definition policy_delay :: "retry_policy \<Rightarrow> nat \<Rightarrow> rat \<Rightarrow> int" where
  "policy_delay p attempt r =
     backoffDelay attempt (case rp_baseMs p of Some b \<Rightarrow> b | None \<Rightarrow> 1000)
       (case rp_maxMs p of Some m \<Rightarrow> m | None \<Rightarrow> 30000) r"

definition past_deadline :: "retry_policy \<Rightarrow> int \<Rightarrow> int \<Rightarrow> bool" where
  "past_deadline p elapsed delay =
     (case rp_deadlineMs p of None \<Rightarrow> False | Some d \<Rightarrow> elapsed + delay > int d)"

definition signal_reason :: rt_error where
  "signal_reason = Thrown True False"

text \<open>The loop of \<open>request\<close>, with the delays it slept.\<close>

fun request_loop ::
  "retry_policy \<Rightarrow> nat list \<Rightarrow> nat \<Rightarrow> rt_error option \<Rightarrow> attempt_env list \<Rightarrow> (request_result \<times> int list) option" where
  "request_loop p accept attempt lastError envs =
     (if \<not> attempts_left p attempt then Some (Threw lastError, [])
      else
        (case envs of
           [] \<Rightarrow> None
         | e # envs' \<Rightarrow>
             if at_abortedBefore e then Some (Threw (Some signal_reason), [])
             else
               (case once accept (at_abortedAfter e) (at_outcome e) of
                  Inr status \<Rightarrow> Some (Returned status, [])
                | Inl err \<Rightarrow>
                    if \<not> is_retryable (at_abortedAfter e) err then Some (Threw (Some err), [])
                    else
                      (let delay = policy_delay p attempt (at_random e)
                       in if \<not> attempts_left p (Suc attempt) \<or> past_deadline p (at_elapsed e) delay
                          then Some (Threw (Some err), [])
                          else if at_sleepAborted e then Some (Threw (Some signal_reason), [delay])
                          else
                            map_option (\<lambda>(r, ds). (r, delay # ds))
                              (request_loop p accept (Suc attempt) (Some err) envs')))))"

declare request_loop.simps [simp del]

definition request ::
  "retry_policy option \<Rightarrow> nat list \<Rightarrow> attempt_env list \<Rightarrow> (request_result \<times> int list) option" where
  "request retry accept envs =
     request_loop (case retry of Some p \<Rightarrow> p | None \<Rightarrow> RETRY_DEFAULT) accept 0 None envs"

subsection \<open>The calls of the API\<close>

definition RUNTIME_PREFIX :: string where
  "RUNTIME_PREFIX = ''/internal/coding-runtime''"

record api_call =
  ac_method :: string
  ac_path :: string
  ac_query :: "(string \<times> string) list"
  ac_timeoutMs :: nat
  ac_retry :: "retry_policy option"
  ac_accept :: "nat list"

definition seconds_text :: "nat \<Rightarrow> string" where
  "seconds_text n = nat_str n @ ''s''"

definition bootstrap_call :: "nat option \<Rightarrow> api_call" where
  "bootstrap_call waitSeconds =
     \<lparr>ac_method = ''GET'', ac_path = RUNTIME_PREFIX @ ''/bootstrap'',
      ac_query = (case waitSeconds of Some n \<Rightarrow> if n \<noteq> 0 then [(''wait'', seconds_text n)] else [] | None \<Rightarrow> []),
      ac_timeoutMs = ((case waitSeconds of Some n \<Rightarrow> n | None \<Rightarrow> 0) + 30) * 1000,
      ac_retry = Some RETRY_PERSISTENT, ac_accept = [204]\<rparr>"

definition setupSecrets_call :: api_call where
  "setupSecrets_call =
     \<lparr>ac_method = ''GET'', ac_path = RUNTIME_PREFIX @ ''/setup-secrets'', ac_query = [],
      ac_timeoutMs = 30000, ac_retry = None, ac_accept = []\<rparr>"

definition heartbeat_call :: api_call where
  "heartbeat_call =
     \<lparr>ac_method = ''POST'', ac_path = RUNTIME_PREFIX @ ''/heartbeat'', ac_query = [],
      ac_timeoutMs = 10000, ac_retry = Some RETRY_NONE, ac_accept = []\<rparr>"

definition postEvents_call :: api_call where
  "postEvents_call =
     \<lparr>ac_method = ''POST'', ac_path = RUNTIME_PREFIX @ ''/events'', ac_query = [],
      ac_timeoutMs = 15000, ac_retry = Some RETRY_NONE, ac_accept = []\<rparr>"

definition inbox_call :: "nat \<Rightarrow> nat \<Rightarrow> api_call" where
  "inbox_call after waitSeconds =
     \<lparr>ac_method = ''GET'', ac_path = RUNTIME_PREFIX @ ''/inbox'',
      ac_query = [(''after'', nat_str after), (''wait'', seconds_text waitSeconds)],
      ac_timeoutMs = (waitSeconds + 15) * 1000, ac_retry = Some RETRY_NONE, ac_accept = []\<rparr>"

definition completeTurn_call :: "string \<Rightarrow> api_call" where
  "completeTurn_call turnId =
     \<lparr>ac_method = ''POST'', ac_path = RUNTIME_PREFIX @ ''/turns/'' @ encodeURIComponent turnId @ ''/complete'',
      ac_query = [], ac_timeoutMs = 30000, ac_retry = Some RETRY_PERSISTENT, ac_accept = []\<rparr>"

definition retry_short :: "nat \<Rightarrow> retry_policy" where
  "retry_short n = \<lparr>rp_attempts = Some n, rp_deadlineMs = None, rp_baseMs = Some 500, rp_maxMs = Some 5000\<rparr>"

definition credentials_call :: api_call where
  "credentials_call =
     \<lparr>ac_method = ''POST'', ac_path = RUNTIME_PREFIX @ ''/credentials'', ac_query = [],
      ac_timeoutMs = 30000, ac_retry = Some (retry_short 4), ac_accept = []\<rparr>"

definition sign_call :: api_call where
  "sign_call =
     \<lparr>ac_method = ''POST'', ac_path = RUNTIME_PREFIX @ ''/sign'', ac_query = [],
      ac_timeoutMs = 30000, ac_retry = Some (retry_short 4), ac_accept = []\<rparr>"

definition getHarnessState_call :: api_call where
  "getHarnessState_call =
     \<lparr>ac_method = ''GET'', ac_path = RUNTIME_PREFIX @ ''/harness-state'', ac_query = [],
      ac_timeoutMs = 120000, ac_retry = None, ac_accept = [204, 404]\<rparr>"

definition putHarnessState_call :: api_call where
  "putHarnessState_call =
     \<lparr>ac_method = ''PUT'', ac_path = RUNTIME_PREFIX @ ''/harness-state'', ac_query = [],
      ac_timeoutMs = 120000, ac_retry = None, ac_accept = []\<rparr>"

definition snapshot_path :: "string \<Rightarrow> string \<Rightarrow> string" where
  "snapshot_path snapshotId rest = RUNTIME_PREFIX @ ''/snapshots/'' @ encodeURIComponent snapshotId @ rest"

definition putSnapshotArchive_call :: "string \<Rightarrow> string option \<Rightarrow> api_call" where
  "putSnapshotArchive_call snapshotId uploadUrl =
     \<lparr>ac_method = ''PUT'',
      ac_path = (case uploadUrl of Some u \<Rightarrow> if u \<noteq> [] then u else snapshot_path snapshotId ''/archive''
                                 | None \<Rightarrow> snapshot_path snapshotId ''/archive''),
      ac_query = [], ac_timeoutMs = 2 * 60 * 60000, ac_retry = Some RETRY_NONE, ac_accept = []\<rparr>"

definition getSnapshotArchive_call :: "string \<Rightarrow> string option \<Rightarrow> api_call" where
  "getSnapshotArchive_call snapshotId archiveUrl =
     \<lparr>ac_method = ''GET'',
      ac_path = (case archiveUrl of Some u \<Rightarrow> if u \<noteq> [] then u else snapshot_path snapshotId ''/archive''
                                  | None \<Rightarrow> snapshot_path snapshotId ''/archive''),
      ac_query = [], ac_timeoutMs = 2 * 60 * 60000, ac_retry = None, ac_accept = []\<rparr>"

definition postSnapshotLogs_call :: "string \<Rightarrow> api_call" where
  "postSnapshotLogs_call snapshotId =
     \<lparr>ac_method = ''POST'', ac_path = snapshot_path snapshotId ''/logs'', ac_query = [],
      ac_timeoutMs = 30000, ac_retry = Some (retry_short 3), ac_accept = []\<rparr>"

definition completeSnapshot_call :: "string \<Rightarrow> api_call" where
  "completeSnapshot_call snapshotId =
     \<lparr>ac_method = ''POST'', ac_path = snapshot_path snapshotId ''/complete'', ac_query = [],
      ac_timeoutMs = 30000, ac_retry = Some RETRY_PERSISTENT, ac_accept = []\<rparr>"

definition full_url :: "string \<Rightarrow> string \<Rightarrow> string" where
  "full_url baseUrl path =
     (if starts_with path ''http://'' \<or> starts_with path ''https://'' then path else strip_slashes baseUrl @ path)"

definition perform :: "api_call \<Rightarrow> attempt_env list \<Rightarrow> (request_result \<times> int list) option" where
  "perform c envs = request (ac_retry c) (ac_accept c) envs"

text \<open>\<open>getHarnessState\<close> and \<open>bootstrap\<close> answer \<open>null\<close> on the statuses that mean there is nothing.\<close>

definition null_status :: "nat list \<Rightarrow> request_result \<Rightarrow> bool" where
  "null_status none r = (case r of Returned s \<Rightarrow> s \<in> set none | Threw _ \<Rightarrow> False)"

section \<open>Retries\<close>

text \<open>The attempts that failed in a way that may be tried again.\<close>

definition failed_attempt :: "nat list \<Rightarrow> attempt_env \<Rightarrow> bool" where
  "failed_attempt accept e \<longleftrightarrow>
     \<not> at_abortedBefore e \<and>
     (\<exists>err. once accept (at_abortedAfter e) (at_outcome e) = Inl err \<and> is_retryable (at_abortedAfter e) err)"

text \<open>
  Which results end a request at its last attempt: an accepted response, an error that is not retried,
  or a retryable error when attempts or time have run out or the caller aborted.
\<close>

definition attempt_ends :: "retry_policy \<Rightarrow> nat list \<Rightarrow> nat \<Rightarrow> attempt_env \<Rightarrow> request_result \<Rightarrow> bool" where
  "attempt_ends p accept n e r \<longleftrightarrow>
     (if at_abortedBefore e then r = Threw (Some signal_reason)
      else
        (case once accept (at_abortedAfter e) (at_outcome e) of
           Inr status \<Rightarrow> r = Returned status
         | Inl err \<Rightarrow>
             if \<not> is_retryable (at_abortedAfter e) err then r = Threw (Some err)
             else if \<not> attempts_left p (Suc n) \<or> past_deadline p (at_elapsed e) (policy_delay p n (at_random e))
             then r = Threw (Some err)
             else at_sleepAborted e \<and> r = Threw (Some signal_reason)))"

lemma request_loop_spec:
  assumes "request_loop p accept n le envs = Some (r, ds)" and "attempts_left p n"
  shows "\<exists>k < length envs. (\<forall>i < k. failed_attempt accept (envs ! i)) \<and> attempt_ends p accept (n + k) (envs ! k) r \<and>
    attempts_left p (n + k) \<and> k \<le> length ds \<and> length ds \<le> Suc k"
  using assms
proof (induction envs arbitrary: n le ds)
  case Nil
  then show ?case by (simp add: request_loop.simps)
next
  case (Cons e envs)
  show ?case
  proof (cases "attempt_ends p accept n e r \<and> length ds \<le> 1")
    case True
    with Cons.prems(2) show ?thesis by (intro exI [of _ 0]) auto
  next
    case False
    let ?delay = "policy_delay p n (at_random e)"
    from Cons.prems False obtain err ds' where
      "\<not> at_abortedBefore e" "once accept (at_abortedAfter e) (at_outcome e) = Inl err"
      "is_retryable (at_abortedAfter e) err" "attempts_left p (Suc n)"
      and rest: "request_loop p accept (Suc n) (Some err) envs = Some (r, ds')" and ds: "ds = ?delay # ds'"
      by (subst (asm) request_loop.simps)
        (auto simp: attempt_ends_def Let_def split: if_splits sum.splits)
    then have failed: "failed_attempt accept e" by (auto simp: failed_attempt_def)
    from Cons.IH [OF rest \<open>attempts_left p (Suc n)\<close>] obtain k where k: "k < length envs"
      "\<forall>i < k. failed_attempt accept (envs ! i)" "attempt_ends p accept (Suc n + k) (envs ! k) r"
      "attempts_left p (Suc n + k)" "k \<le> length ds'" "length ds' \<le> Suc k" by blast
    then show ?thesis
      using failed ds by (intro exI [of _ "Suc k"]) (auto simp: less_Suc_eq_0_disj)
  qed
qed

lemma request_loop_delays:
  assumes "request_loop p accept n le envs = Some (r, ds)" and "d \<in> set ds"
    and "\<And>e. e \<in> set envs \<Longrightarrow> 0 \<le> at_random e \<and> at_random e < 1"
  shows "0 \<le> d \<and> d \<le> int (case rp_maxMs p of Some m \<Rightarrow> m | None \<Rightarrow> 30000)"
  using assms
proof (induction envs arbitrary: n le ds)
  case Nil
  then show ?case by (subst (asm) request_loop.simps) (auto split: if_splits)
next
  case (Cons e envs)
  let ?max = "case rp_maxMs p of Some m \<Rightarrow> m | None \<Rightarrow> 30000"
  have "0 \<le> at_random e" "at_random e < 1" using Cons.prems(3) [of e] by simp_all
  note b = backoffDelay_bounds [OF this, of n "case rp_baseMs p of Some b \<Rightarrow> b | None \<Rightarrow> 1000" ?max]
  have d: "0 \<le> policy_delay p n (at_random e)" "policy_delay p n (at_random e) \<le> int ?max"
    using b backoff_exp_le [of n "case rp_baseMs p of Some b \<Rightarrow> b | None \<Rightarrow> 1000" ?max]
    by (simp_all add: policy_delay_def)
  from Cons.prems(1,2) consider "d = policy_delay p n (at_random e)"
    | err ds' where "request_loop p accept (Suc n) (Some err) envs = Some (r, ds')" "d \<in> set ds'"
    by (subst (asm) request_loop.simps) (auto simp: Let_def split: if_splits sum.splits)
  then show ?case
  proof cases
    case 2
    then show ?thesis using Cons.IH Cons.prems(3) by (metis list.set_intros(2))
  qed (use d in simp)
qed


lemma request_loop_total:
  assumes "rp_attempts p = Some n" and "n \<le> k + length envs"
  shows "request_loop p accept k le envs \<noteq> None"
  using assms(2)
proof (induction envs arbitrary: k le)
  case Nil
  then show ?case by (subst request_loop.simps) (simp add: attempts_left_def assms(1))
next
  case (Cons e envs)
  have "request_loop p accept (Suc k) l envs \<noteq> None" for l
    by (rule Cons.IH) (use Cons.prems in simp)
  then show ?case
    by (subst request_loop.simps) (auto simp: Let_def split: sum.split)
qed


definition flaky_envs :: "attempt_env list" where
  "flaky_envs =
     [\<lparr>at_abortedBefore = False, at_outcome = Response 503, at_abortedAfter = False, at_elapsed = 10,
       at_random = 0, at_sleepAborted = False\<rparr>,
      \<lparr>at_abortedBefore = False, at_outcome = Response 200, at_abortedAfter = False, at_elapsed = 600,
       at_random = 0, at_sleepAborted = False\<rparr>]"

lemma flaky_request: "request (Some RETRY_DEFAULT) [] flaky_envs = Some (Returned 200, [500])"
proof -
  have "\<lfloor>1001 / 2 :: rat\<rfloor> = 500" by (rule floor_unique) simp_all
  then show ?thesis
    by (simp add: request_def flaky_envs_def request_loop.simps RETRY_DEFAULT_def attempts_left_def once_def
        response_ok_def isRetryableStatus_def past_deadline_def policy_delay_def backoffDelay_def backoff_exp_def Let_def)
qed


text \<open>
  C39. A request with a finite number of attempts returns or throws: whatever happens in as many attempts,
  it does not go on.
\<close>

theorem request_terminates:
  assumes "rp_attempts p = Some n" and "n \<le> length envs"
  shows "\<exists>result. request (Some p) accept envs = Some result"
  using request_loop_total [OF assms(1), of 0 envs accept None] assms(2) by (simp add: request_def)

theorem request_terminates_witness: "\<exists>result. request (Some RETRY_NONE) [] flaky_envs = Some result"
  by (rule request_terminates [where n = 1]) (simp_all add: RETRY_NONE_def flaky_envs_def)

section \<open>Posting events\<close>

text \<open>How the event buffer's \<open>catch\<close> classifies what \<open>postEvents\<close> throws.\<close>

definition post_result_of :: "request_result \<Rightarrow> post_result" where
  "post_result_of r =
     (case r of
        Returned _ \<Rightarrow> Posted
      | Threw (Some (AuthErr s)) \<Rightarrow> AuthRejected
      | Threw (Some (RuntimeErr s retryable)) \<Rightarrow> if \<not> retryable \<and> s \<ge> 400 then BatchRejected else PostFailed
      | Threw _ \<Rightarrow> PostFailed)"

definition answered :: "nat \<Rightarrow> attempt_env" where
  "answered status =
     \<lparr>at_abortedBefore = False, at_outcome = Response status, at_abortedAfter = False, at_elapsed = 0,
      at_random = 0, at_sleepAborted = False\<rparr>"

end
