(* ===== verification/Effects.thy ===== *)
theory Effects
  imports Flow_Prelude
begin

text \<open>
  Asynchronous code that talks to the outside world (git, the file system, the Flow API) as a program:
  it returns, throws, or makes a request and continues with whatever the world answers. Nothing is
  assumed about the answers, so a fact about all runs of a program holds for every behaviour of the
  outside. \<open>bind_p\<close> is \<open>await\<close> followed by the rest of the function, \<open>catch_p\<close> is \<open>try\<close>/\<open>catch\<close>.
\<close>

datatype ('q, 'r, 'e, 'x) prog =
    Ret 'x
  | Throw 'e
  | Call 'q "'r \<Rightarrow> ('q, 'r, 'e, 'x) prog"

definition ask :: "'q \<Rightarrow> ('q, 'r, 'e, 'r) prog" where
  "ask q = Call q Ret"

primrec bind_p :: "('q, 'r, 'e, 'x) prog \<Rightarrow> ('x \<Rightarrow> ('q, 'r, 'e, 'y) prog) \<Rightarrow> ('q, 'r, 'e, 'y) prog" where
  "bind_p (Ret x) f = f x"
| "bind_p (Throw e) f = Throw e"
| "bind_p (Call q k) f = Call q (\<lambda>r. bind_p (k r) f)"

primrec catch_p :: "('q, 'r, 'e, 'x) prog \<Rightarrow> ('e \<Rightarrow> ('q, 'r, 'e, 'x) prog) \<Rightarrow> ('q, 'r, 'e, 'x) prog" where
  "catch_p (Ret x) h = Ret x"
| "catch_p (Throw e) h = h e"
| "catch_p (Call q k) h = Call q (\<lambda>r. catch_p (k r) h)"

definition then_p :: "('q, 'r, 'e, 'x) prog \<Rightarrow> ('q, 'r, 'e, 'y) prog \<Rightarrow> ('q, 'r, 'e, 'y) prog" where
  "then_p p q = bind_p p (\<lambda>_. q)"

definition map_p :: "('x \<Rightarrow> 'y) \<Rightarrow> ('q, 'r, 'e, 'x) prog \<Rightarrow> ('q, 'r, 'e, 'y) prog" where
  "map_p f p = bind_p p (\<lambda>x. Ret (f x))"

primrec mapM_p :: "('a \<Rightarrow> ('q, 'r, 'e, 'x) prog) \<Rightarrow> 'a list \<Rightarrow> ('q, 'r, 'e, 'x list) prog" where
  "mapM_p f [] = Ret []"
| "mapM_p f (a # as) = bind_p (f a) (\<lambda>x. bind_p (mapM_p f as) (\<lambda>xs. Ret (x # xs)))"

text \<open>\<open>when_p c p\<close> is \<open>if (c) await p\<close>.\<close>

definition when_p :: "bool \<Rightarrow> ('q, 'r, 'e, unit) prog \<Rightarrow> ('q, 'r, 'e, unit) prog" where
  "when_p c p = (if c then p else Ret ())"

text \<open>A program over a smaller interface, used inside one that makes other requests too.\<close>

primrec lift_p :: "('p \<Rightarrow> 'q) \<Rightarrow> ('r \<Rightarrow> 's) \<Rightarrow> ('p, 's, 'e, 'x) prog \<Rightarrow> ('q, 'r, 'e, 'x) prog" where
  "lift_p f g (Ret x) = Ret x"
| "lift_p f g (Throw e) = Throw e"
| "lift_p f g (Call q k) = Call (f q) (\<lambda>r. lift_p f g (k (g r)))"

text \<open>
  The result of a run with the given requests and answers, when the program makes exactly these
  requests. A program is a finite tree along every path, so a run always ends.
\<close>

primrec replay :: "('q, 'r, 'e, 'x) prog \<Rightarrow> ('q \<times> 'r) list \<Rightarrow> ('e + 'x) option" where
  "replay (Ret x) = (\<lambda>tr. if tr = [] then Some (Inr x) else None)"
| "replay (Throw e) = (\<lambda>tr. if tr = [] then Some (Inl e) else None)"
| "replay (Call q k) =
     (\<lambda>tr. case tr of [] \<Rightarrow> None | (q', r) # tr' \<Rightarrow> if q' = q then replay (k r) tr' else None)"

text \<open>The run against a world that answers every request from its state.\<close>

primrec run_p :: "('w \<Rightarrow> 'q \<Rightarrow> 'r \<times> 'w) \<Rightarrow> ('q, 'r, 'e, 'x) prog \<Rightarrow> 'w \<Rightarrow> ('q \<times> 'r) list \<times> ('e + 'x)" where
  "run_p world (Ret x) = (\<lambda>w. ([], Inr x))"
| "run_p world (Throw e) = (\<lambda>w. ([], Inl e))"
| "run_p world (Call q k) =
     (\<lambda>w. let (r, w') = world w q; (tr, res) = run_p world (k r) w' in ((q, r) # tr, res))"

section \<open>Facts about all runs\<close>

text \<open>
  \<open>track I Q p h\<close>: started after the exchange \<open>h\<close>, every request \<open>p\<close> makes is allowed by \<open>I\<close> given the
  exchange before it, and every result satisfies \<open>Q\<close> given the whole exchange.
\<close>

primrec track ::
  "(('q \<times> 'r) list \<Rightarrow> 'q \<Rightarrow> bool) \<Rightarrow> (('q \<times> 'r) list \<Rightarrow> 'e + 'x \<Rightarrow> bool) \<Rightarrow> ('q, 'r, 'e, 'x) prog \<Rightarrow>
     ('q \<times> 'r) list \<Rightarrow> bool" where
  "track I Q (Ret x) = (\<lambda>h. Q h (Inr x))"
| "track I Q (Throw e) = (\<lambda>h. Q h (Inl e))"
| "track I Q (Call q k) = (\<lambda>h. I h q \<and> (\<forall>r. track I Q (k r) (h @ [(q, r)])))"

text \<open>A condition on a result, by cases on how the run ended.\<close>

primrec on_res :: "('e \<Rightarrow> bool) \<Rightarrow> ('x \<Rightarrow> bool) \<Rightarrow> 'e + 'x \<Rightarrow> bool" where
  "on_res f g (Inl e) = f e"
| "on_res f g (Inr x) = g x"

lemma on_res_iff: "on_res f g r \<longleftrightarrow> (\<forall>e. r = Inl e \<longrightarrow> f e) \<and> (\<forall>x. r = Inr x \<longrightarrow> g x)"
  by (cases r) auto

lemma on_res_True [simp]: "on_res (\<lambda>_. True) (\<lambda>_. True) = (\<lambda>_. True)"
  by (auto simp: on_res_iff fun_eq_iff)

lemma track_bind [simp]:
  "track I Q (bind_p p f) h =
     track I (\<lambda>h'. on_res (\<lambda>e. Q h' (Inl e)) (\<lambda>x. track I Q (f x) h')) p h"
  by (induction p arbitrary: h) auto

lemma track_catch [simp]:
  "track I Q (catch_p p f) h =
     track I (\<lambda>h'. on_res (\<lambda>e. track I Q (f e) h') (\<lambda>x. Q h' (Inr x))) p h"
  by (induction p arbitrary: h) auto

lemma track_then [simp]:
  "track I Q (then_p p q) h =
     track I (\<lambda>h'. on_res (\<lambda>e. Q h' (Inl e)) (\<lambda>_. track I Q q h')) p h"
  by (simp add: then_p_def)

lemma track_ask [simp]: "track I Q (ask q) h \<longleftrightarrow> I h q \<and> (\<forall>r. Q (h @ [(q, r)]) (Inr r))"
  by (simp add: ask_def)

lemma track_map [simp]:
  "track I Q (map_p f p) h =
     track I (\<lambda>h'. on_res (\<lambda>e. Q h' (Inl e)) (\<lambda>x. Q h' (Inr (f x)))) p h"
  by (simp add: map_p_def)

lemma track_when [simp]:
  "track I Q (when_p c p) h \<longleftrightarrow> (if c then track I Q p h else Q h (Inr ()))"
  by (simp add: when_p_def)

lemma track_mono:
  "track I Q p h \<Longrightarrow> (\<And>h q. I h q \<Longrightarrow> J h q) \<Longrightarrow> (\<And>h res. Q h res \<Longrightarrow> R h res) \<Longrightarrow> track J R p h"
  by (induction p arbitrary: h) auto

lemma track_conj: "track I Q p h \<Longrightarrow> track J R p h \<Longrightarrow> track (\<lambda>h q. I h q \<and> J h q) (\<lambda>h r. Q h r \<and> R h r) p h"
  by (induction p arbitrary: h) auto

text \<open>What \<open>track\<close> says of a run: its result, and every request given what came before it.\<close>

lemma track_replay:
  "track I Q p h \<Longrightarrow> replay p tr = Some res \<Longrightarrow>
     Q (h @ tr) res \<and> (\<forall>i < length tr. I (h @ take i tr) (fst (tr ! i)))"
proof (induction p arbitrary: h tr)
  case (Call q k)
  then obtain r tr' where tr: "tr = (q, r) # tr'" and rest: "replay (k r) tr' = Some res"
    by (auto split: list.splits if_splits)
  have "track I Q (k r) (h @ [(q, r)])" using Call.prems by simp
  from Call.IH [OF _ this rest] have ih: "Q (h @ tr) res"
    "\<forall>i < length tr'. I (h @ take (Suc i) tr) (fst (tr' ! i))" by (simp_all add: tr)
  have "I (h @ take i tr) (fst (tr ! i))" if "i < length tr" for i
    using that ih(2) Call.prems(1) by (cases i) (simp_all add: tr)
  with ih(1) show ?case by blast
qed (auto split: if_splits)

text \<open>The common case: a fact about the kind of requests only.\<close>

abbreviation only :: "('q \<Rightarrow> bool) \<Rightarrow> ('q, 'r, 'e, 'x) prog \<Rightarrow> bool" where
  "only P p \<equiv> track (\<lambda>_. P) (\<lambda>_ _. True) p []"

lemma only_any: "track (\<lambda>_. P) (\<lambda>_ _. True) p h \<longleftrightarrow> only P p"
proof -
  have "track (\<lambda>_. P) (\<lambda>_ _. True) p h \<longleftrightarrow> track (\<lambda>_. P) (\<lambda>_ _. True) p h'" for h'
    by (induction p arbitrary: h h') (auto, blast+)
  then show ?thesis by blast
qed

lemma only_replay: "only P p \<Longrightarrow> replay p tr = Some res \<Longrightarrow> \<forall>x \<in> set tr. P (fst x)"
  by (drule track_replay) (force simp: in_set_conv_nth)+

text \<open>Every world yields a run.\<close>

lemma run_replay: "run_p world p w = (tr, res) \<Longrightarrow> replay p tr = Some res"
  by (induction p arbitrary: w tr) (auto simp: Let_def split: prod.splits)

lemma lift_bind [simp]: "lift_p f g (bind_p p k) = bind_p (lift_p f g p) (\<lambda>x. lift_p f g (k x))"
  by (induction p) auto

lemma lift_catch [simp]: "lift_p f g (catch_p p k) = catch_p (lift_p f g p) (\<lambda>e. lift_p f g (k e))"
  by (induction p) auto

lemma only_lift: "only (\<lambda>q. P (f q)) p \<Longrightarrow> only P (lift_p f g p)"
proof (induction p)
  case (Call q k)
  have "only P (lift_p f g (k (g r)))" for r
    using Call.prems by (intro Call.IH) (auto simp: only_any [of _ _ "[_]"])
  then show ?case using Call.prems by (simp add: only_any [of _ _ "[_]"])
qed simp_all

lemma lift_map [simp]: "lift_p f g (map_p k p) = map_p k (lift_p f g p)"
  by (simp add: map_p_def)

lemma lift_then [simp]: "lift_p f g (then_p p q) = then_p (lift_p f g p) (lift_p f g q)"
  by (simp add: then_p_def)

lemma lift_if [simp]: "lift_p f g (if c then p else q) = (if c then lift_p f g p else lift_p f g q)"
  by simp

lemma track_if [simp]: "track I Q (if c then p else q) h \<longleftrightarrow> (if c then track I Q p h else track I Q q h)"
  by simp

lemma lift_ask [simp]: "lift_p f g (ask q) = map_p g (ask (f q))"
  by (simp add: ask_def map_p_def)

text \<open>
  A part of a program is used through the requests it may make and what it may return: the rest of a
  proof never looks inside it again.
\<close>

lemma track_frame:
  assumes "track (\<lambda>_. P) R p []"
    and "\<And>tr q. list_all (\<lambda>x. P (fst x)) tr \<Longrightarrow> P q \<Longrightarrow> I (h @ tr) q"
    and "\<And>tr res. list_all (\<lambda>x. P (fst x)) tr \<Longrightarrow> R tr res \<Longrightarrow> Q (h @ tr) res"
  shows "track I Q p h"
proof -
  have "track (\<lambda>_. P) R p tr \<Longrightarrow> list_all (\<lambda>x. P (fst x)) tr \<Longrightarrow> track I Q p (h @ tr)" for tr
  proof (induction p arbitrary: tr)
    case (Call q k)
    have "track I Q (k r) (h @ tr @ [(q, r)])" for r
      by (rule Call.IH) (use Call.prems in auto)
    with Call.prems assms(2) show ?case by simp
  qed (auto intro: assms(3))
  from this [of "[]"] assms(1) show ?thesis by simp
qed

lemma bind_frame:
  fixes p :: "('q, 'r, 'e, 'x) prog"
  assumes "track (\<lambda>_. P) R p []"
    and "\<And>tr q. list_all (\<lambda>x. P (fst x)) tr \<Longrightarrow> P q \<Longrightarrow> I (h @ tr) q"
    and "\<And>tr e. list_all (\<lambda>x. P (fst x)) tr \<Longrightarrow> R tr (Inl e) \<Longrightarrow> Q (h @ tr) (Inl e)"
    and "\<And>tr x. list_all (\<lambda>x. P (fst x)) tr \<Longrightarrow> R tr (Inr x) \<Longrightarrow> track I Q (f x) (h @ tr)"
  shows "track I Q (bind_p p f) h"
  unfolding track_bind
proof (rule track_frame [OF assms(1)])
  fix tr :: "('q \<times> 'r) list" and res assume "list_all (\<lambda>x. P (fst x)) tr" "R tr res"
  with assms(3,4) show "on_res (\<lambda>e. Q (h @ tr) (Inl e)) (\<lambda>x. track I Q (f x) (h @ tr)) res"
    by (cases res) auto
qed (rule assms(2))

lemma catch_frame:
  fixes p :: "('q, 'r, 'e, 'x) prog"
  assumes "track (\<lambda>_. P) R p []"
    and "\<And>tr q. list_all (\<lambda>x. P (fst x)) tr \<Longrightarrow> P q \<Longrightarrow> I (h @ tr) q"
    and "\<And>tr e. list_all (\<lambda>x. P (fst x)) tr \<Longrightarrow> R tr (Inl e) \<Longrightarrow> track I Q (f e) (h @ tr)"
    and "\<And>tr x. list_all (\<lambda>x. P (fst x)) tr \<Longrightarrow> R tr (Inr x) \<Longrightarrow> Q (h @ tr) (Inr x)"
  shows "track I Q (catch_p p f) h"
  unfolding track_catch
proof (rule track_frame [OF assms(1)])
  fix tr :: "('q \<times> 'r) list" and res assume "list_all (\<lambda>x. P (fst x)) tr" "R tr res"
  with assms(3,4) show "on_res (\<lambda>e. track I Q (f e) (h @ tr)) (\<lambda>x. Q (h @ tr) (Inr x)) res"
    by (cases res) auto
qed (rule assms(2))

text \<open>What was exchanged before stays in the exchange.\<close>

lemma track_member: "x \<in> set h \<Longrightarrow> track (\<lambda>_ _. True) (\<lambda>h' _. x \<in> set h') p h"
  by (induction p arbitrary: h) auto

lemma track_grows: "track I Q p h \<Longrightarrow> track (\<lambda>h' q. I h' q \<and> prefix h h') Q p h"
proof (induction p arbitrary: h)
  case (Call q k)
  have "track (\<lambda>h' q. I h' q \<and> prefix h h') Q (k r) (h @ [(q, r)])" for r
    by (rule track_mono [OF Call.IH]) (use Call.prems append_prefixD in auto)
  with Call.prems show ?case by simp
qed simp_all

text \<open>Parts whose results do not matter for what follows.\<close>

lemma bind_any:
  "track I (\<lambda>_ _. True) p h \<Longrightarrow> (\<And>h' x. track I (\<lambda>_ _. True) (f x) h') \<Longrightarrow> track I (\<lambda>_ _. True) (bind_p p f) h"
  by (auto simp: on_res_iff elim: track_mono)

lemma catch_any:
  "track I (\<lambda>_ _. True) p h \<Longrightarrow> (\<And>h' e. track I (\<lambda>_ _. True) (f e) h') \<Longrightarrow> track I (\<lambda>_ _. True) (catch_p p f) h"
  by (auto simp: on_res_iff elim: track_mono)

lemma only_imp: "only P p \<Longrightarrow> (\<And>q. P q \<Longrightarrow> P' q) \<Longrightarrow> only P' p"
  by (erule track_mono) auto

lemma only_here:
  assumes "only P p" "\<And>h q. P q \<Longrightarrow> I h q"
  shows "track I (\<lambda>_ _. True) p h"
proof -
  have "track (\<lambda>_. P) (\<lambda>_ _. True) p h" using assms(1) only_any by blast
  then show ?thesis by (rule track_mono) (simp_all add: assms(2))
qed

lemma only_all: "track (\<lambda>_ _. True) (\<lambda>_ _. True) p h"
  by (induction p arbitrary: h) auto

text \<open>A world without state, which answers a request always the same way.\<close>

definition steady :: "('q \<Rightarrow> 'r) \<Rightarrow> ('q, 'r, 'e, 'x) prog \<Rightarrow> ('q \<times> 'r) list \<times> ('e + 'x)" where
  "steady f p = run_p (\<lambda>w q. (f q, w)) p ()"

lemma steady_replay: "replay p (fst (steady f p)) = Some (snd (steady f p))"
  by (rule run_replay [of "\<lambda>w q. (f q, w)" p "()"]) (simp add: steady_def)

lemma run_steady: "run_p (\<lambda>w q. (f q, w)) p w = (tr, res) \<Longrightarrow> (q, a) \<in> set tr \<Longrightarrow> a = f q"
proof (induction p arbitrary: tr)
  case (Call q' k)
  then obtain tr' where "run_p (\<lambda>w q. (f q, w)) (k (f q')) w = (tr', res)" "tr = (q', f q') # tr'"
    by (auto simp: Let_def split: prod.splits)
  with Call.IH [of "k (f q')" tr'] Call.prems(2) show ?case by auto
qed auto

lemma steady_answers:
  assumes "(q, a) \<in> set (fst (steady f p))"
  shows "a = f q"
proof -
  obtain tr res where run: "steady f p = (tr, res)" by (cases "steady f p")
  with assms have "(q, a) \<in> set tr" by simp
  with run_steady [OF run [unfolded steady_def]] show ?thesis .
qed

end
