(* ===== verification/Turn_Scope.thy ===== *)
theory Turn_Scope
  imports Regex Effects
begin

unbundle bit_operations_syntax

text \<open>
  \<open>sandbox-runner/src/turn-scope.ts\<close>: what a turn may do to the repository, the fingerprint of the
  workspace before and after it, and what a turn that had to keep the repository unchanged changed anyway.

  Text is Latin-1, so the Chinese patterns of \<open>READ_ONLY\<close> and \<open>NO_PUBLISH\<close>, each of which needs a
  character outside it, cannot match and are left out. SHA-256 is the parameter \<open>hash\<close>.
\<close>

section \<open>The write scope\<close>

datatype turn_scope = ScopeWrite | ScopeNoPublish | ScopeReadOnly

record turn =
  t_id :: string
  t_prompt :: string
  t_kind :: string
  t_scope :: "string option"
  t_includeLeftovers :: bool

definition WRITE_KINDS :: "string list" where
  "WRITE_KINDS = [''fixPr'', ''rebase'', ''lint'', ''test'', ''configureEnvironment'', ''fixEnvironment'']"

definition OBJECT :: regex where
  "OBJECT = alts (seqs [lit ''repo'', opt (lit ''sitory'')])
     [seqs [lit ''code'', opt (lit ''base'')], lit ''branch'', seqs [lit ''working'', opt (lit '' ''), lit ''tree''],
      lit ''worktree'', seqs [lit ''work'', opt (lit '' ''), lit ''tree''], seqs [lit ''file'', opt (lit ''s'')],
      lit ''everything'', lit ''state'', lit ''pr'', lit ''pull request'', lit ''merge request'', lit ''mr'', lit ''head'']"

text \<open>The class \<open>[^.;\n]\<close>.\<close>

definition in_clause :: "char \<Rightarrow> bool" where
  "in_clause c \<longleftrightarrow> c \<noteq> CHR ''.'' \<and> c \<noteq> CHR '';'' \<and> c \<noteq> CHR 0x0A"

definition negation :: "string list \<Rightarrow> regex" where
  "negation extra = lits ''do not'' ([''don't'', ''dont''] @ extra)"

definition READ_ONLY :: "regex list" where
  "READ_ONLY =
     [seqs [Bnd, lits ''keep'' [''leave''], Bnd, Span 0 (Some 80) in_clause, Bnd, OBJECT, Bnd,
            Span 0 (Some 60) in_clause, Bnd,
            alts (lit ''unchanged'') [lit ''untouched'', seqs [lit ''as'', one_of ''- '', lit ''is''],
              lit ''intact'', lit ''unmodified'', lit ''alone''], Bnd],
      seqs [Bnd, negation [''without''], spaces,
            opt (seqs [lit ''mak'', lits ''e'' [''ing''], spaces]), lit ''any'', spaces,
            opt (Alt (seqs [lit ''code'', spaces]) (seqs [lit ''file'', spaces])),
            lits ''changes'' [''modifications'', ''edits''], Bnd],
      seqs [Bnd, negation [''without''], spaces, lits ''chang'' [''modif'', ''edit'', ''touch'', ''alter''],
            Span 0 None is_word, spaces,
            alts (lit ''anything'')
              [seqs [lit ''the repo'', opt (lit ''sitory'')],
               seqs [lit ''any '', Alt (seqs [lit ''file'', opt (lit ''s'')]) (lit ''code'')],
               seqs [lit ''the code'', opt (lit ''base'')], lit ''the branch'',
               seqs [lit ''the '', opt (lit ''existing ''), lits ''pr'' [''pull request'', ''merge request'']]], Bnd],
      seqs [Bnd, lit ''read'', one_of ''- '', lit ''only'', Bnd],
      seqs [Bnd, alts (seqs [lit ''verif'', lits ''y'' [''ication''], one_of ''- '', lit ''only''])
              [lit ''only verify'', lit ''just verify''], Bnd]]"

definition NO_PUBLISH :: "regex list" where
  "NO_PUBLISH =
     [seqs [Bnd, negation [''never''], spaces, opt (seqs [lit ''git'', spaces]), lits ''commit'' [''push''], Bnd],
      seqs [Bnd, lit ''without'', spaces, lits ''committing'' [''pushing''], Bnd]]"

definition SCOPES :: "(string \<times> turn_scope) list" where
  "SCOPES = [(''write'', ScopeWrite), (''noPublish'', ScopeNoPublish), (''readOnly'', ScopeReadOnly)]"

definition inferTurnScope :: "turn \<Rightarrow> turn_scope" where
  "inferTurnScope t =
     (if t_kind t \<in> set WRITE_KINDS then ScopeWrite
      else if list_ex (\<lambda>p. re_test p (t_prompt t)) READ_ONLY then ScopeReadOnly
      else if list_ex (\<lambda>p. re_test p (t_prompt t)) NO_PUBLISH then ScopeNoPublish
      else ScopeWrite)"

definition turnScope :: "turn \<Rightarrow> turn_scope" where
  "turnScope t =
     (case Option.bind (t_scope t) (map_of SCOPES) of Some s \<Rightarrow> s | None \<Rightarrow> inferTurnScope t)"

definition publishes :: "turn_scope \<Rightarrow> bool" where
  "publishes s \<longleftrightarrow> s = ScopeWrite"

section \<open>The state of the workspace\<close>

record run_result =
  rr_code :: int
  rr_stdout :: string
  rr_stderr :: string
  rr_timedOut :: bool

text \<open>A git command: its arguments, what is written to its standard input, and the variables added to its environment.\<close>

datatype git_cmd = GitCmd (cmd_args: "string list") (cmd_stdin: "string option") (cmd_env: "(string \<times> string) list")

datatype remote_failure = RfAuth | RfNetwork | RfUnavailable | RfUnknown

datatype run_error =
    CommandError string run_result
  | RemoteQueryError remote_failure string string
  | BranchNotFoundError string
  | BranchPolicyError string
  | SetupError string string
  | TokenRejected
  | OtherError string

type_synonym 'x git_prog = "(git_cmd, run_result, run_error, 'x) prog"

type_synonym js_map = "(string \<times> string) list"

record workspace_state =
  ws_head :: string
  ws_branch :: string
  ws_index :: string
  ws_worktree :: string
  ws_dirty :: js_map

definition parse_entry :: "js_map \<Rightarrow> string \<Rightarrow> js_map" where
  "parse_entry m entry = (if length entry < 4 then m else AList.update (drop 3 entry) (take 2 entry) m)"

definition parseStatus :: "string \<Rightarrow> js_map" where
  "parseStatus output = foldl parse_entry [] (split_on (CHR 0x00) output)"

definition state_out :: "string list \<Rightarrow> string git_prog" where
  "state_out args =
     map_p (\<lambda>result. if rr_code result = 0 then rr_stdout result else []) (ask (GitCmd args None []))"

definition noLock :: "string list" where
  "noLock = [''--no-optional-locks'']"

text \<open>The five commands run at the same time; they are asked here in the order they start in.\<close>

definition readWorkspaceState :: "(string \<Rightarrow> string) \<Rightarrow> workspace_state git_prog" where
  "readWorkspaceState hash =
     bind_p (state_out [''rev-parse'', ''HEAD'']) (\<lambda>head.
     bind_p (state_out [''symbolic-ref'', ''--quiet'', ''HEAD'']) (\<lambda>branch.
     bind_p (state_out (noLock @ [''diff'', ''--cached'', ''--binary'', ''--no-renames'', ''--no-ext-diff''])) (\<lambda>index.
     bind_p (state_out (noLock @ [''diff'', ''--binary'', ''--no-renames'', ''--no-ext-diff''])) (\<lambda>worktree.
     bind_p (state_out (noLock @ [''status'', ''--porcelain=v1'', ''-z'', ''--untracked-files=all'', ''--no-renames''])) (\<lambda>status.
     Ret \<lparr>ws_head = trim head, ws_branch = trim branch, ws_index = hash index, ws_worktree = hash worktree,
          ws_dirty = parseStatus status\<rparr>)))))"

text \<open>What \<open>lstat\<close> and the reads after it find at a path; \<open>FsError\<close> when any of them throws.\<close>

datatype fs_entry =
    FsLink string
  | FsDir
  | FsOther
  | FsFile nat string
  | FsError

fun fingerprint :: "(string \<Rightarrow> string) \<Rightarrow> fs_entry \<Rightarrow> string" where
  "fingerprint hash (FsLink target) = ''link:'' @ hash target"
| "fingerprint hash FsDir = ''dir''"
| "fingerprint hash FsOther = ''other''"
| "fingerprint hash (FsFile mode content) =
     (if mode AND 73 \<noteq> 0 then ''x'' else ''f'') @ '':'' @ hash content"
| "fingerprint hash FsError = ''missing''"

definition fingerprintPaths :: "(string \<Rightarrow> string) \<Rightarrow> (string \<Rightarrow> fs_entry) \<Rightarrow> string list \<Rightarrow> js_map" where
  "fingerprintPaths hash fs paths = foldl (\<lambda>m p. AList.update p (fingerprint hash (fs p)) m) [] paths"

definition touchedLeftovers :: "string list \<Rightarrow> js_map \<Rightarrow> js_map \<Rightarrow> string list" where
  "touchedLeftovers leftovers before after = filter (\<lambda>p. map_of before p \<noteq> map_of after p) leftovers"

definition tracked :: "js_map \<Rightarrow> string list" where
  "tracked dirty = map fst (filter (\<lambda>(_, xy). xy \<noteq> ''??'') dirty)"

definition short :: "string \<Rightarrow> string" where
  "short sha = (if sha \<noteq> [] then take 12 sha else ''(none)'')"

definition listPaths :: "string list \<Rightarrow> nat \<Rightarrow> string" where
  "listPaths paths limit =
     (let shown = join_with '', '' (take limit paths)
      in if length paths > limit then shown @ '' and '' @ nat_str (length paths - limit) @ '' more'' else shown)"

definition or_detached :: "string \<Rightarrow> string" where
  "or_detached b = (if b \<noteq> [] then b else ''(detached)'')"

definition tracked_changed :: "workspace_state \<Rightarrow> workspace_state \<Rightarrow> bool" where
  "tracked_changed before after \<longleftrightarrow>
     ws_worktree after \<noteq> ws_worktree before \<or>
     join_with [CHR 0x00] (tracked (ws_dirty after)) \<noteq> join_with [CHR 0x00] (tracked (ws_dirty before))"

definition readOnlyViolations :: "workspace_state \<Rightarrow> workspace_state \<Rightarrow> string list \<times> string list" where
  "readOnlyViolations before after =
     ((if ws_head after \<noteq> ws_head before
       then [''HEAD moved from '' @ short (ws_head before) @ '' to '' @ short (ws_head after)] else []) @
      (if ws_branch after \<noteq> ws_branch before
       then [''the checked-out branch changed from '' @ or_detached (ws_branch before) @ '' to '' @
             or_detached (ws_branch after)] else []) @
      (if ws_index after \<noteq> ws_index before then [''the index (staged changes) changed''] else []) @
      (if tracked_changed before after
       then (let changed = filter (\<lambda>p. map_of (ws_dirty before) p \<noteq> map_of (ws_dirty after) p)
                             (tracked (ws_dirty after))
             in [''tracked files changed'' @ (if changed \<noteq> [] then '': '' @ listPaths changed 10 else [])])
       else []),
      map fst (filter (\<lambda>(p, xy). xy = ''??'' \<and> map_of (ws_dirty before) p = None) (ws_dirty after)))"

section \<open>What the harness is told\<close>

definition scope_lines :: "turn_scope \<Rightarrow> string list" where
  "scope_lines scope =
     (case scope of
        ScopeReadOnly \<Rightarrow>
          [''- Write scope: read-only. Keep the repository, its index, HEAD and the existing pull/merge request exactly as they are: do not edit, create or delete files in the repository, and do not stage, commit, stash, reset, checkout, rebase, merge or push.'',
           ''- Put temporary verification files outside the repository (for example under `$TMPDIR`). Flow does not commit or push at the end of this turn.'',
           ''- If the request cannot be done without changing the repository, do not change it: stop and say so.'']
      | ScopeNoPublish \<Rightarrow>
          [''- Write scope: you may change files, but do not commit, push or touch the pull/merge request. Flow does not commit or push at the end of this turn; your changes stay uncommitted in the working tree.'']
      | ScopeWrite \<Rightarrow>
          [''- Write scope: you may change the repository for this request. Flow commits the changes made in this turn, pushes the branch and updates the draft pull/merge request when the turn ends.''])"

definition leftover_lines :: "turn_scope \<Rightarrow> string list \<Rightarrow> bool \<Rightarrow> string list" where
  "leftover_lines scope leftovers includeLeftovers =
     (if leftovers = [] then []
      else
        (let intro = ''- The working tree already had uncommitted changes before this turn ('' @ listPaths leftovers 10 @ ''). ''
         in if \<not> publishes scope then
              [intro @ ''Leave them as they are: do not commit, discard, stash or overwrite them.'']
            else if includeLeftovers then
              [intro @ ''The latest message asks to include them: Flow commits them together with this turn's changes. Do not discard, stash or revert them.'']
            else
              [intro @ ''They are not part of this turn: Flow does not commit them, and you must not commit, discard, stash or overwrite them unless the latest message asks you to.'',
               ''- A file among them that you change in this turn counts as this turn's change: Flow commits it whole, including its earlier uncommitted changes. Leave the others untouched.'']))"

definition scopeGuidance :: "turn_scope \<Rightarrow> string list \<Rightarrow> bool \<Rightarrow> string" where
  "scopeGuidance scope leftovers includeLeftovers =
     join_with [CHR 0x0A]
       ([''## Current turn'',
         ''- The latest user message is the goal of this turn. The issue and earlier turns are background: do not continue earlier work unless the latest message asks for it. Its scope never overrides the sandbox, security or repository rules.''] @
        scope_lines scope @ leftover_lines scope leftovers includeLeftovers)"

definition requestHeader :: "turn \<Rightarrow> turn_scope \<Rightarrow> string" where
  "requestHeader t scope =
     join_with [CHR 0x0A]
       [''[Flow: current request ('' @ (if t_kind t \<noteq> [] then t_kind t else ''followUp'') @ '' turn)]'',
        ''The message below is the latest request and the goal of this turn. It replaces earlier goals from this conversation and from the issue description: do not continue earlier work unless it asks for it.'',
        (case scope of
           ScopeReadOnly \<Rightarrow> ''Write scope: read-only. Keep the repository and the existing pull request unchanged; Flow will not commit or push this turn.''
         | ScopeNoPublish \<Rightarrow> ''Write scope: changes allowed, but no commit or push; Flow will not commit or push this turn.''
         | ScopeWrite \<Rightarrow> ''Write scope: changes allowed; Flow commits and pushes this turn's changes when it ends.''),
        [], ''---'', []]"

section \<open>What decides the scope\<close>

lemma ends_Cat_nonempty: "q1 \<in> set (ends a q) \<Longrightarrow> ends b q1 \<noteq> [] \<Longrightarrow> ends (Cat a b) q \<noteq> []"
  by auto

lemma ends_Bnd_left: "\<not> word_opt p \<Longrightarrow> is_word c \<Longrightarrow> ends Bnd (p, c # s) = [(p, c # s)]"
  by (simp add: at_boundary_def hd_opt_def word_opt_def)

lemma ends_Bnd_right: "is_word c \<Longrightarrow> \<not> word_opt (hd_opt s) \<Longrightarrow> ends Bnd (Some c, s) = [(Some c, s)]"
  by (simp add: at_boundary_def word_opt_def)

text \<open>A lower-case literal matches itself.\<close>

lemma ends_lit_here:
  "map latin_lower w = w \<Longrightarrow> (char_before p w, s) \<in> set (ends (lit w) (p, w @ s))"
  by (simp add: ends_lit advance_append)

lemma ends_lits_here:
  assumes "v \<in> set (w # ws)" "map latin_lower v = v"
  shows "(char_before p v, s) \<in> set (ends (lits w ws) (p, v @ s))"
proof -
  have "set (ends (lit v) (p, v @ s)) \<subseteq> set (ends (lits w ws) (p, v @ s))"
    unfolding lits_def ends_alts using assms(1) by auto
  with ends_lit_here [OF assms(2)] show ?thesis by blast
qed

lemma ends_spaces_here:
  "is_space c \<Longrightarrow> (Some c, s) \<in> set (ends spaces (p, c # s))"
  by (auto simp: spaces_def set_span_lengths intro!: image_eqI [of _ _ 1])

definition negations :: "string list" where
  "negations = [''do not'', ''don't'', ''dont'', ''never'']"

lemma negation_never: "negation [''never''] = lits ''do not'' (tl negations)"
  by (simp add: negation_def negations_def)

lemma negations_ok: "list_all (\<lambda>n. map latin_lower n = n \<and> n \<noteq> [] \<and> is_word (hd n)) negations"
  by code_simp

lemma publish_verbs_ok:
  "list_all (\<lambda>v. map latin_lower v = v \<and> v \<noteq> [] \<and> is_word (hd v) \<and>
     char_before (Some CHR '' '') v = Some (List.last v) \<and> is_word (List.last v)) [''commit'', ''push'']"
  by code_simp

lemma space_is_space: "is_space CHR '' ''"
  by code_simp

lemma no_publish_matches:
  assumes n: "n \<in> set negations" and v: "v \<in> set [''commit'', ''push'']"
    and p: "\<not> word_opt p" and b: "\<not> word_opt (hd_opt b)"
  shows "ends (hd NO_PUBLISH) (p, n @ '' '' @ v @ b) \<noteq> []"
proof -
  have n': "map latin_lower n = n" "n \<noteq> []" "is_word (hd n)"
    using n negations_ok by (auto simp: list_all_iff)
  have v': "map latin_lower v = v" "char_before (Some CHR '' '') v = Some (List.last v)" "is_word (List.last v)"
    using v publish_verbs_ok by (auto simp: list_all_iff)
  have 1: "(p, n @ '' '' @ v @ b) \<in> set (ends Bnd (p, n @ '' '' @ v @ b))"
    using ends_Bnd_left [OF p n'(3), of "tl n @ '' '' @ v @ b"] n'(2) by (cases n) auto
  have 2: "(char_before p n, '' '' @ v @ b) \<in> set (ends (negation [''never'']) (p, n @ '' '' @ v @ b))"
    unfolding negation_never by (rule ends_lits_here [OF _ n'(1)]) (use n in \<open>auto simp: negations_def\<close>)
  have 3: "(Some CHR '' '', v @ b) \<in> set (ends spaces (char_before p n, '' '' @ v @ b))"
    using ends_spaces_here [OF space_is_space] by simp
  have 4: "(Some CHR '' '', v @ b) \<in> set (ends (opt r) (Some CHR '' '', v @ b))" for r
    by (simp add: opt_def)
  have 5: "(Some (List.last v), b) \<in> set (ends (lits ''commit'' [''push'']) (Some CHR '' '', v @ b))"
    using ends_lits_here [OF v v'(1), of "Some CHR '' ''" b] v'(2) by simp
  have 6: "ends (Cat Bnd Eps) (Some (List.last v), b) \<noteq> []"
    using ends_Bnd_right [OF v'(3) b] by simp
  show ?thesis
    unfolding NO_PUBLISH_def seqs_def list.sel foldr.simps comp_def id_def
    by (rule ends_Cat_nonempty [OF 1 ends_Cat_nonempty [OF 2 ends_Cat_nonempty [OF 3
          ends_Cat_nonempty [OF 4 ends_Cat_nonempty [OF 5 6]]]]])
qed



section \<open>Reading git's status\<close>

lemma update_fresh: "k \<notin> fst ` set m \<Longrightarrow> AList.update k v m = m @ [(k, v)]"
  by (induction m) auto

definition wf_dirty :: "js_map \<Rightarrow> bool" where
  "wf_dirty m \<longleftrightarrow> distinct (map fst m) \<and>
     list_all (\<lambda>(path, xy). path \<noteq> [] \<and> CHR 0x00 \<notin> set path \<and> length xy = 2 \<and> CHR 0x00 \<notin> set xy) m"

text \<open>The format git documents for \<open>status --porcelain=v1 -z\<close>: two status letters, a space, the path, a NUL.\<close>

definition status_entry :: "string \<times> string \<Rightarrow> string" where
  "status_entry e = snd e @ '' '' @ fst e"

definition status_text :: "js_map \<Rightarrow> string" where
  "status_text m = concat (map (\<lambda>e. status_entry e @ [CHR 0x00]) m)"

lemma parse_entry_status:
  "length (snd e) = 2 \<Longrightarrow> fst e \<noteq> [] \<Longrightarrow> parse_entry m (status_entry e) = AList.update (fst e) (snd e) m"
  by (cases "fst e") (simp_all add: parse_entry_def status_entry_def)

lemma parse_entry_Nil: "parse_entry m [] = m"
  by (simp add: parse_entry_def)

lemma split_status:
  "list_all (\<lambda>(path, xy). CHR 0x00 \<notin> set path \<and> CHR 0x00 \<notin> set xy) m \<Longrightarrow>
     split_on (CHR 0x00) (status_text m) = map status_entry m @ [[]]"
proof (induction m)
  case (Cons e m)
  then have "CHR 0x00 \<notin> set (status_entry e)" by (auto simp: status_entry_def)
  with Cons show ?case by (simp add: status_text_def split_on_append)
qed (simp add: status_text_def)

lemma parse_entries:
  "wf_dirty m \<Longrightarrow> fst ` set m \<inter> fst ` set m0 = {} \<Longrightarrow> foldl parse_entry m0 (map status_entry m) = m0 @ m"
proof (induction m arbitrary: m0)
  case (Cons e m)
  have "parse_entry m0 (status_entry e) = m0 @ [e]"
    using Cons.prems by (subst parse_entry_status) (auto simp: wf_dirty_def update_fresh)
  with Cons.IH [of "m0 @ [e]"] Cons.prems show ?case by (auto simp: wf_dirty_def)
qed simp

text \<open>C34. Reading git's status output gives back exactly the paths and status letters git wrote.\<close>

theorem parse_status_roundtrip: "wf_dirty m \<Longrightarrow> parseStatus (status_text m) = m"
proof -
  assume m: "wf_dirty m"
  then have "list_all (\<lambda>(path, xy). CHR 0x00 \<notin> set path \<and> CHR 0x00 \<notin> set xy) m"
    by (auto simp: wf_dirty_def list_all_iff)
  from split_status [OF this] show ?thesis
    using parse_entries [OF m, of "[]"] by (simp add: parseStatus_def parse_entry_Nil)
qed

theorem parse_status_roundtrip_witness:
  "parseStatus (status_text [(''a b'', '' M''), (''c'', ''??'')]) = [(''a b'', '' M''), (''c'', ''??'')]"
  by (rule parse_status_roundtrip) (simp add: wf_dirty_def)

lemma set_update_sub: "set (AList.update k v m) \<subseteq> insert (k, v) (set m)"
  by (induction m) auto

lemma wf_dirty_update:
  "wf_dirty m \<Longrightarrow> p \<noteq> [] \<Longrightarrow> CHR 0x00 \<notin> set p \<Longrightarrow> length xy = 2 \<Longrightarrow> CHR 0x00 \<notin> set xy \<Longrightarrow>
     wf_dirty (AList.update p xy m)"
  using set_update_sub [of p xy m]
  unfolding wf_dirty_def list_all_iff by (auto simp: distinct_update)

lemma parse_entry_wf:
  "wf_dirty m \<Longrightarrow> CHR 0x00 \<notin> set e \<Longrightarrow> wf_dirty (parse_entry m e)"
  unfolding parse_entry_def by (auto intro!: wf_dirty_update dest: in_set_takeD in_set_dropD)

lemma parseStatus_wf: "wf_dirty (parseStatus out)"
proof -
  have "wf_dirty m \<Longrightarrow> \<forall>e \<in> set es. CHR 0x00 \<notin> set e \<Longrightarrow> wf_dirty (foldl parse_entry m es)" for m es
    by (induction es arbitrary: m) (auto intro: parse_entry_wf)
  from this [of "[]" "split_on (CHR 0x00) out"] show ?thesis
    unfolding parseStatus_def using split_on_no_sep [of _ "CHR 0x00" out] by (simp add: wf_dirty_def)
qed

section \<open>What a read-only turn changed\<close>

lemma join_Nil: "join_with [c] xs = [] \<Longrightarrow> \<forall>x \<in> set xs. x \<noteq> [] \<Longrightarrow> xs = []"
  by (cases xs; cases "tl xs") auto

lemma join_inject:
  assumes "join_with [c] ps = join_with [c] qs"
    and ps: "\<forall>p \<in> set ps. p \<noteq> [] \<and> c \<notin> set p" and qs: "\<forall>q \<in> set qs. q \<noteq> [] \<and> c \<notin> set q"
  shows "ps = qs"
proof (cases "ps = [] \<or> qs = []")
  case False
  then have "split_on c (join_with [c] ps) = ps"
    by (intro split_join) (simp_all add: ps)
  moreover from False have "split_on c (join_with [c] qs) = qs"
    by (intro split_join) (simp_all add: qs)
  ultimately show ?thesis by (metis assms(1))
next
  case True
  then have e: "join_with [c] ps = []"
    using assms(1) by (metis join_with.simps(1))
  then have "ps = []" by (rule join_Nil) (simp add: ps)
  moreover from e have "qs = []" unfolding assms(1) by (rule join_Nil) (simp add: qs)
  ultimately show ?thesis by simp
qed

lemma tracked_wf: "wf_dirty m \<Longrightarrow> \<forall>p \<in> set (tracked m). p \<noteq> [] \<and> CHR 0x00 \<notin> set p"
  by (auto simp: wf_dirty_def tracked_def list_all_iff)

text \<open>
  C22. A turn that had to keep the repository unchanged is reported as violating that exactly when HEAD,
  the branch, the staged changes, the unstaged changes of tracked files or the list of changed tracked
  paths differ from before it; the untracked files reported are exactly the ones not there before.
\<close>

theorem read_only_violations:
  assumes "wf_dirty (ws_dirty before)" "wf_dirty (ws_dirty after)"
  shows "(fst (readOnlyViolations before after) = [] \<longleftrightarrow>
      ws_head after = ws_head before \<and> ws_branch after = ws_branch before \<and>
      ws_index after = ws_index before \<and> ws_worktree after = ws_worktree before \<and>
      tracked (ws_dirty after) = tracked (ws_dirty before)) \<and>
    set (snd (readOnlyViolations before after)) =
      {p. (p, ''??'') \<in> set (ws_dirty after) \<and> p \<notin> fst ` set (ws_dirty before)}"
proof
  have "join_with [CHR 0x00] (tracked (ws_dirty after)) = join_with [CHR 0x00] (tracked (ws_dirty before)) \<longleftrightarrow>
        tracked (ws_dirty after) = tracked (ws_dirty before)"
    using join_inject [OF _ tracked_wf [OF assms(2)] tracked_wf [OF assms(1)]] by auto
  then show "fst (readOnlyViolations before after) = [] \<longleftrightarrow>
      ws_head after = ws_head before \<and> ws_branch after = ws_branch before \<and>
      ws_index after = ws_index before \<and> ws_worktree after = ws_worktree before \<and>
      tracked (ws_dirty after) = tracked (ws_dirty before)"
    by (auto simp: readOnlyViolations_def tracked_changed_def Let_def)
qed (force simp: readOnlyViolations_def map_of_eq_None_iff)

definition sample_before :: workspace_state where
  "sample_before = \<lparr>ws_head = ''a1'', ws_branch = ''m'', ws_index = ''i'', ws_worktree = ''w'',
     ws_dirty = [(''x'', '' M'')]\<rparr>"

theorem read_only_violations_witness:
  "fst (readOnlyViolations sample_before (sample_before\<lparr>ws_dirty := [(''x'', '' M''), (''n'', ''??'')]\<rparr>)) = [] \<and>
   set (snd (readOnlyViolations sample_before (sample_before\<lparr>ws_dirty := [(''x'', '' M''), (''n'', ''??'')]\<rparr>))) = {''n''}"
  using read_only_violations [of sample_before "sample_before\<lparr>ws_dirty := [(''x'', '' M''), (''n'', ''??'')]\<rparr>"]
  by (auto simp: sample_before_def wf_dirty_def tracked_def)

end
