(* ===== verification/Git_Ops.thy ===== *)
theory Git_Ops
  imports Turn_Scope
begin

text \<open>
  \<open>sandbox-runner/src/git/git.ts\<close>: the git operations of the runner. Git itself is outside: a
  \<open>Git\<close> method is a program that asks for commands and goes on with the results. The working directory,
  time limits and the base environment of a command are the same for every request and are not part of it.
\<close>

section \<open>Reading git's and the code host's words\<close>

definition http_code :: "regex \<Rightarrow> regex" where
  "http_code code =
     seqs [lit ''http'', opt (seqs [lit ''/'', Span 1 None (\<lambda>c. is_digit c \<or> c = CHR ''.'')]), lit '' '', code]"

definition AUTH_FAILURE :: regex where
  "AUTH_FAILURE =
     alts (lit ''authentication failed'')
       [seqs [lit ''could not read '', lits ''username'' [''password'']], lit ''terminal prompts disabled'',
        lit ''invalid username or password'', seqs [lit ''returned error: 40'', one_of ''13''],
        http_code (seqs [lit ''40'', one_of ''13'']), lit ''permission denied'', lit ''access denied'',
        lit ''repository not found'', lit ''not authorized'', lit ''bad credentials'']"

definition UNAVAILABLE :: regex where
  "UNAVAILABLE =
     alts (seqs [lit ''returned error: 5'', digit_re, digit_re])
       [http_code (seqs [lit ''5'', digit_re, digit_re]), lit ''service unavailable'', lit ''bad gateway'',
        seqs [lit ''gateway time'', opt (lit ''-''), lit ''out''], lit ''internal server error'',
        seqs [lit ''server is '', lits ''busy'' [''unavailable'']], lit ''try again later'', lit ''rate limit'']"

definition NETWORK_FAILURE :: regex where
  "NETWORK_FAILURE =
     alts (lit ''could not resolve host'')
       [seqs [lit ''connection '', lits ''refused'' [''reset'', ''timed out'']], lit ''operation timed out'',
        lit ''failed to connect'', lit ''network is unreachable'', lit ''no route to host'', lit ''ssl'', lit ''tls'',
        lit ''gnutls'', lit ''early eof'', lit ''unexpected disconnect'', lit ''rpc failed'', lit ''remote end hung up'',
        lit ''timed out'']"

definition classifyRemoteFailure :: "string \<Rightarrow> bool \<Rightarrow> remote_failure" where
  "classifyRemoteFailure stderr timedOut =
     (if re_test AUTH_FAILURE stderr then RfAuth
      else if re_test UNAVAILABLE stderr then RfUnavailable
      else if timedOut \<or> re_test NETWORK_FAILURE stderr then RfNetwork
      else RfUnknown)"

fun isRemoteAuthFailure :: "run_error \<Rightarrow> bool" where
  "isRemoteAuthFailure (BranchNotFoundError b) = False"
| "isRemoteAuthFailure (RemoteQueryError kind b d) = (kind = RfAuth)"
| "isRemoteAuthFailure (CommandError command result) =
     (prefix ''git'' command \<and> \<not> word_opt (hd_opt (drop 3 command)) \<and> \<not> rr_timedOut result \<and>
      classifyRemoteFailure (rr_stderr result) False = RfAuth)"
| "isRemoteAuthFailure _ = False"

definition SIGNING_FAILURE :: regex where
  "SIGNING_FAILURE = lits ''flow-sign'' [''failed to sign'', ''gpg failed'', ''signing failed'', ''ssh-keygen'', ''signing key'']"

fun isSigningFailure :: "run_error \<Rightarrow> bool" where
  "isSigningFailure (CommandError command result) = re_test SIGNING_FAILURE (rr_stderr result @ rr_stdout result)"
| "isSigningFailure _ = False"

definition set_all :: "js_map \<Rightarrow> js_map \<Rightarrow> js_map" where
  "set_all kvs m = foldl (\<lambda>m (k, v). AList.update k v m) m kvs"

definition gitEnv :: "js_map \<Rightarrow> js_map" where
  "gitEnv base =
     set_all [(''GIT_TERMINAL_PROMPT'', ''0''), (''GIT_ASKPASS'', []), (''SSH_ASKPASS'', []),
              (''GCM_INTERACTIVE'', ''never''), (''GIT_PAGER'', ''cat''),
              (''GIT_LFS_SKIP_SMUDGE'', (case map_of base ''GIT_LFS_SKIP_SMUDGE'' of Some v \<Rightarrow> v | None \<Rightarrow> ''0''))]
       base"

section \<open>Commit messages and branches\<close>

definition MAX_SUBJECT :: nat where
  "MAX_SUBJECT = 72"

text \<open>The replacement of a colon, and white space after it, at the end of the line.\<close>

definition drop_colon :: "string \<Rightarrow> string" where
  "drop_colon s = (let t = trim_end s in if t \<noteq> [] \<and> List.last t = CHR '':'' then butlast t else s)"

definition is_marker :: "char \<Rightarrow> bool" where
  "is_marker c \<longleftrightarrow> c \<in> set ''#>*-'' \<or> is_space c"

definition clean_line :: "string \<Rightarrow> string" where
  "clean_line line = trim (drop_colon (dropWhile is_marker line))"

definition summaryLine :: "string \<Rightarrow> string option" where
  "summaryLine summary = List.find (\<lambda>l. l \<noteq> []) (map clean_line (split_on (CHR 0x0A) summary))"

text \<open>\<open>dots\<close> is the ellipsis character U+2026, which is outside Latin-1.\<close>

definition commit_subject :: "char \<Rightarrow> string \<Rightarrow> string \<Rightarrow> string" where
  "commit_subject dots summary fallback =
     (let subject = (case summaryLine summary of Some l \<Rightarrow> l | None \<Rightarrow> fallback)
      in if length subject > MAX_SUBJECT then trim_end (take (MAX_SUBJECT - 1) subject) @ [dots] else subject)"

definition commitMessage :: "char \<Rightarrow> string \<Rightarrow> string option \<Rightarrow> string option \<Rightarrow> string" where
  "commitMessage dots summary trailer fallback =
     (let subject = commit_subject dots summary
                      (case fallback of Some f \<Rightarrow> f | None \<Rightarrow> ''Update from Flow coding session'')
      in case trailer of
           Some t \<Rightarrow> if t \<noteq> [] then subject @ [CHR 0x0A, CHR 0x0A] @ t @ [CHR 0x0A] else subject @ [CHR 0x0A]
         | None \<Rightarrow> subject @ [CHR 0x0A])"

definition summaryTitle :: "string \<Rightarrow> string option" where
  "summaryTitle summary =
     (case summaryLine summary of Some l \<Rightarrow> if length l \<le> MAX_SUBJECT then Some l else None | None \<Rightarrow> None)"

record bootstrap_repo =
  br_baseRef :: string
  br_baseSha :: string
  br_branchName :: string
  br_existingBranch :: bool
  br_branchUnconfirmed :: bool
  br_branchPrefix :: string

definition checkBranchAllowed :: "bootstrap_repo \<Rightarrow> string \<Rightarrow> 'x git_prog \<Rightarrow> 'x git_prog" where
  "checkBranchAllowed repo fallbackPrefix rest =
     (if br_existingBranch repo then rest
      else
        (let prfx = (if br_branchPrefix repo \<noteq> [] then br_branchPrefix repo else fallbackPrefix)
         in if \<not> prefix prfx (br_branchName repo)
            then Throw (BranchPolicyError
                   (''refusing to push '' @ br_branchName repo @ '': branches must start with '' @ prfx))
            else rest))"

section \<open>Diff summaries\<close>

datatype file_status = FsAdded | FsDeleted | FsRenamed | FsModified

record coding_diff_summary =
  cd_path :: string
  cd_additions :: nat
  cd_deletions :: nat
  cd_status :: file_status

definition status_of_letter :: "char option \<Rightarrow> file_status" where
  "status_of_letter c =
     (if c = Some CHR ''A'' then FsAdded else if c = Some CHR ''D'' then FsDeleted
      else if c = Some CHR ''R'' then FsRenamed else FsModified)"

definition last_or_empty :: "string list \<Rightarrow> string" where
  "last_or_empty ps = (if ps = [] then [] else List.last ps)"

definition name_status :: "string \<Rightarrow> (string \<times> file_status) list" where
  "name_status nameStatus =
     foldl (\<lambda>m line.
         let pieces = split_on (CHR 0x09) line
         in AList.update (last_or_empty (tl pieces)) (status_of_letter (hd_opt (hd pieces))) m) []
       (filter (\<lambda>line. trim line \<noteq> []) (split_on (CHR 0x0A) nameStatus))"

text \<open>\<open>s === '-' ? 0 : Number(s) || 0\<close>: git writes a decimal number or, for a binary file, a dash.\<close>

definition numstat_count :: "string option \<Rightarrow> nat" where
  "numstat_count s =
     (case s of Some ds \<Rightarrow> if list_all is_digit ds then digits_value ds else 0 | None \<Rightarrow> 0)"

definition nth_opt :: "'a list \<Rightarrow> nat \<Rightarrow> 'a option" where
  "nth_opt xs i = (if i < length xs then Some (xs ! i) else None)"

definition numstat_line :: "(string \<times> file_status) list \<Rightarrow> string \<Rightarrow> coding_diff_summary" where
  "numstat_line statuses line =
     (let pieces = split_on (CHR 0x09) line; path = join_with [CHR 0x09] (drop 2 pieces)
      in \<lparr>cd_path = path, cd_additions = numstat_count (nth_opt pieces 0),
          cd_deletions = numstat_count (nth_opt pieces 1),
          cd_status = (case map_of statuses path of Some st \<Rightarrow> st | None \<Rightarrow> FsModified)\<rparr>)"

definition parseNumstat :: "string \<Rightarrow> string \<Rightarrow> coding_diff_summary list" where
  "parseNumstat numstat nameStatus =
     map (numstat_line (name_status nameStatus)) (filter (\<lambda>line. trim line \<noteq> []) (split_on (CHR 0x0A) numstat))"

section \<open>Commands\<close>

record git_conf =
  gc_repoDir :: string
  gc_credentialHelper :: string
  gc_signProgram :: string

record bootstrap_git =
  bg_authorName :: string
  bg_authorEmail :: string
  bg_committerName :: string
  bg_committerEmail :: string
  bg_signingFormat :: string
  bg_signingPublicKey :: string
  bg_coAuthorTrailer :: string

definition command_text :: "string list \<Rightarrow> string" where
  "command_text args = join_with '' '' (''git'' # args)"

text \<open>\<open>git(args)\<close>, which throws for a non-zero exit, and \<open>git(args, { check: false })\<close>.\<close>

definition git_full :: "string list \<Rightarrow> string option \<Rightarrow> js_map \<Rightarrow> run_result git_prog" where
  "git_full args stdin env =
     bind_p (ask (GitCmd args stdin env)) (\<lambda>r.
       if rr_code r \<noteq> 0 then Throw (CommandError (command_text args) r) else Ret r)"

definition git_checked :: "string list \<Rightarrow> run_result git_prog" where
  "git_checked args = git_full args None []"

definition git_unchecked :: "string list \<Rightarrow> run_result git_prog" where
  "git_unchecked args = ask (GitCmd args None [])"

definition helperArgs :: "git_conf \<Rightarrow> string list" where
  "helperArgs g = [''-c'', ''credential.helper='', ''-c'', ''credential.helper='' @ gc_credentialHelper g,
     ''-c'', ''credential.useHttpPath=true'']"

definition network :: "string list \<Rightarrow> run_result git_prog" where
  "network args =
     bind_p (git_unchecked args) (\<lambda>first.
       if rr_code first = 0 \<or> rr_timedOut first \<or> classifyRemoteFailure (rr_stderr first) False \<noteq> RfAuth
       then Ret first else git_unchecked args)"

definition clone_args :: "git_conf \<Rightarrow> string \<Rightarrow> string list" where
  "clone_args g cloneUrl = helperArgs g @ [''clone'', ''--no-tags'', ''--progress'', cloneUrl, gc_repoDir g]"

definition clone :: "git_conf \<Rightarrow> string \<Rightarrow> unit git_prog" where
  "clone g cloneUrl =
     bind_p (network (clone_args g cloneUrl)) (\<lambda>r.
       if rr_code r \<noteq> 0 then Throw (CommandError (command_text (clone_args g cloneUrl)) r) else Ret ())"

definition isRepo :: "bool git_prog" where
  "isRepo = map_p (\<lambda>r. rr_code r = 0) (git_unchecked [''rev-parse'', ''--git-dir''])"

definition configureCredentials :: "git_conf \<Rightarrow> string \<Rightarrow> unit git_prog" where
  "configureCredentials g pushUrl =
     then_p (git_checked [''config'', ''--local'', ''--replace-all'', ''credential.helper'', gc_credentialHelper g])
     (then_p (git_checked [''config'', ''--local'', ''credential.useHttpPath'', ''true''])
     (then_p (git_checked [''config'', ''--local'', ''push.autoSetupRemote'', ''true''])
     (if pushUrl \<noteq> []
      then map_p (\<lambda>_. ()) (git_checked [''remote'', ''set-url'', ''--push'', ''origin'', pushUrl])
      else map_p (\<lambda>_. ()) (git_unchecked [''config'', ''--local'', ''--unset-all'', ''remote.origin.pushurl'']))))"

definition config_set :: "string \<Rightarrow> string \<Rightarrow> unit git_prog" where
  "config_set key value = map_p (\<lambda>_. ()) (git_checked [''config'', ''--local'', key, value])"

definition configureIdentity :: "git_conf \<Rightarrow> bootstrap_git \<Rightarrow> unit git_prog" where
  "configureIdentity g i =
     then_p (when_p (bg_authorName i \<noteq> []) (config_set ''user.name'' (bg_authorName i)))
     (then_p (when_p (bg_authorEmail i \<noteq> []) (config_set ''user.email'' (bg_authorEmail i)))
     (if bg_signingFormat i = ''ssh'' \<and> bg_signingPublicKey i \<noteq> [] then
        (let key = trim (bg_signingPublicKey i)
         in then_p (config_set ''gpg.format'' ''ssh'')
            (then_p (config_set ''gpg.ssh.program'' (gc_signProgram g))
            (then_p (config_set ''user.signingkey''
                       (if prefix ''ssh-'' key \<or> prefix ''key::'' key then key else ''key::'' @ key))
            (config_set ''commit.gpgsign'' ''true''))))
      else if bg_signingFormat i = ''openpgp'' \<and> bg_signingPublicKey i \<noteq> [] then
        then_p (config_set ''gpg.format'' ''openpgp'')
        (then_p (config_set ''gpg.program'' (gc_signProgram g))
        (then_p (config_set ''user.signingkey'' (trim (bg_signingPublicKey i)))
        (config_set ''commit.gpgsign'' ''true'')))
      else config_set ''commit.gpgsign'' ''false''))"

definition fetch_all :: "unit git_prog" where
  "fetch_all =
     (let args = [''fetch'', ''--no-tags'', ''--prune'', ''origin'']
      in bind_p (network args) (\<lambda>r.
           if rr_code r \<noteq> 0 then Throw (CommandError (command_text args) r) else Ret ()))"

section \<open>The session branch\<close>

definition local_ref :: "string \<Rightarrow> string" where
  "local_ref branch = ''refs/heads/'' @ branch"

definition tail_chars :: "nat \<Rightarrow> string \<Rightarrow> string" where
  "tail_chars n s = drop (length s - n) s"

text \<open>The first line of \<open>ls-remote\<close> for the branch, when its first column is not empty.\<close>

definition listed_head :: "string \<Rightarrow> string \<Rightarrow> string option" where
  "listed_head branch stdout =
     (case List.find (\<lambda>ps. nth_opt ps 1 = Some (local_ref branch))
             (map (split_on (CHR 0x09)) (split_on (CHR 0x0A) stdout)) of
        Some ps \<Rightarrow> if hd ps \<noteq> [] then Some (hd ps) else None
      | None \<Rightarrow> None)"

definition ls_remote_args :: "git_conf \<Rightarrow> string \<Rightarrow> string list" where
  "ls_remote_args g branch =
     helperArgs g @ [''ls-remote'', ''--exit-code'', ''--heads'', ''origin'', local_ref branch]"

definition query_error :: "string \<Rightarrow> run_result \<Rightarrow> run_error" where
  "query_error branch r =
     RemoteQueryError (classifyRemoteFailure (rr_stderr r) (rr_timedOut r)) branch
       (tail_chars 1000 (trim (rr_stderr r)))"

definition remoteBranchHead :: "git_conf \<Rightarrow> string \<Rightarrow> string option git_prog" where
  "remoteBranchHead g branch =
     bind_p (network (ls_remote_args g branch)) (\<lambda>r.
       let sha = (if rr_code r = 0 then listed_head branch (rr_stdout r) else None)
       in if sha \<noteq> None then Ret sha
          else if rr_code r = 2 \<and> \<not> rr_timedOut r then Ret None
          else Throw (query_error branch r))"

definition revParse_args :: "string \<Rightarrow> string list" where
  "revParse_args ref = [''rev-parse'', ''--verify'', ''--quiet'', ref @ ''^{commit}'']"

definition revParse_result :: "run_result \<Rightarrow> string option" where
  "revParse_result r = (if rr_code r = 0 then Some (trim (rr_stdout r)) else None)"

definition revParse :: "string \<Rightarrow> string option git_prog" where
  "revParse ref = map_p revParse_result (git_unchecked (revParse_args ref))"

definition is_ancestor_args :: "string \<Rightarrow> string \<Rightarrow> string list" where
  "is_ancestor_args ancestor descendant = [''merge-base'', ''--is-ancestor'', ancestor, descendant]"

definition isAncestor :: "string \<Rightarrow> string \<Rightarrow> bool git_prog" where
  "isAncestor ancestor descendant =
     map_p (\<lambda>r. rr_code r = 0) (git_unchecked (is_ancestor_args ancestor descendant))"

text \<open>A value of type \<open>string | undefined\<close> in a condition: absent and empty both count as false.\<close>

definition truthy :: "string option \<Rightarrow> bool" where
  "truthy s \<longleftrightarrow> s \<noteq> None \<and> s \<noteq> Some []"

datatype checkout_source = CoRemote | CoKept | CoCreated

record branch_checkout =
  co_source :: checkout_source
  co_base :: "string option"
  co_note :: "string option"
  co_recovered :: bool

definition branchBase :: "git_conf \<Rightarrow> bootstrap_repo \<Rightarrow> (string \<times> string option) git_prog" where
  "branchBase g repo =
     (let fallback = ''origin/'' @ br_baseRef repo; sha = br_baseSha repo
      in if sha = [] then Ret (fallback, None)
         else
           bind_p (revParse sha) (\<lambda>found.
           if truthy found then Ret (sha, None)
           else
             then_p (git_unchecked (helperArgs g @ [''fetch'', ''--no-tags'', ''origin'', sha]))
             (bind_p (revParse sha) (\<lambda>found'.
              if truthy found' then Ret (sha, None)
              else Ret (fallback, Some (''baseline '' @ take 12 sha @ '' is not on origin; branching from '' @ fallback))))))"

definition tracking_ref :: "string \<Rightarrow> string" where
  "tracking_ref branch = ''refs/remotes/origin/'' @ branch"

definition refresh_tracking :: "git_conf \<Rightarrow> string \<Rightarrow> string \<Rightarrow> unit git_prog" where
  "refresh_tracking g branch remote =
     bind_p (revParse (tracking_ref branch)) (\<lambda>known.
       if known = Some remote then Ret ()
       else
         bind_p (network (helperArgs g @
                   [''fetch'', ''--no-tags'', ''origin'', ''+'' @ local_ref branch @ '':'' @ tracking_ref branch])) (\<lambda>fetched.
           if rr_code fetched \<noteq> 0 then Throw (query_error branch fetched) else Ret ()))"

definition reset_args :: "string \<Rightarrow> string list" where
  "reset_args branch = [''checkout'', ''-B'', branch, ''origin/'' @ branch]"

text \<open>Whether the workspace's copy has commits origin lacks, in the order the condition asks.\<close>

definition local_ahead :: "string option \<Rightarrow> string \<Rightarrow> bool git_prog" where
  "local_ahead loc remote =
     (if truthy loc \<and> loc \<noteq> Some remote then map_p Not (isAncestor (the loc) remote) else Ret False)"

definition checkout_onto :: "string \<Rightarrow> bool \<Rightarrow> branch_checkout git_prog" where
  "checkout_onto branch ahead =
     bind_p
       (if ahead
        then then_p (git_checked [''checkout'', branch])
               (Ret \<lparr>co_source = CoKept, co_base = None,
                     co_note = Some (''kept the workspace's '' @ branch @ '': it has commits origin/'' @ branch @ '' does not''),
                     co_recovered = False\<rparr>)
        else then_p (git_checked (reset_args branch))
               (Ret \<lparr>co_source = CoRemote, co_base = None, co_note = None, co_recovered = False\<rparr>)) (\<lambda>checkout.
     then_p (git_unchecked [''branch'', ''--set-upstream-to'', ''origin/'' @ branch]) (Ret checkout))"

definition checkout_remote :: "git_conf \<Rightarrow> string \<Rightarrow> string \<Rightarrow> string option \<Rightarrow> branch_checkout git_prog" where
  "checkout_remote g branch remote loc =
     then_p (refresh_tracking g branch remote) (bind_p (local_ahead loc remote) (checkout_onto branch))"

definition checkout_unpublished :: "git_conf \<Rightarrow> bootstrap_repo \<Rightarrow> string option \<Rightarrow> branch_checkout git_prog" where
  "checkout_unpublished g repo loc =
     (let branch = br_branchName repo
      in if truthy loc then
           then_p (git_checked [''checkout'', branch])
             (Ret \<lparr>co_source = CoKept, co_base = None, co_note = Some (''kept the workspace's unpublished '' @ branch),
                   co_recovered = False\<rparr>)
         else if br_existingBranch repo \<and> \<not> br_branchUnconfirmed repo then Throw (BranchNotFoundError branch)
         else
           bind_p (branchBase g repo) (\<lambda>(base, note).
           then_p (git_checked [''checkout'', ''--no-track'', ''-b'', branch, base])
             (Ret \<lparr>co_source = CoCreated, co_base = Some base, co_note = note, co_recovered = br_existingBranch repo\<rparr>)))"

definition checkoutSessionBranch :: "git_conf \<Rightarrow> bootstrap_repo \<Rightarrow> branch_checkout git_prog" where
  "checkoutSessionBranch g repo =
     (let branch = br_branchName repo
      in bind_p (remoteBranchHead g branch) (\<lambda>remote.
         bind_p (revParse (local_ref branch)) (\<lambda>loc.
         case remote of
           Some sha \<Rightarrow> checkout_remote g branch sha loc
         | None \<Rightarrow> checkout_unpublished g repo loc)))"

section \<open>Commits, pushes and diffs\<close>

definition baseRevision :: "bootstrap_repo \<Rightarrow> string" where
  "baseRevision repo = (if br_baseSha repo \<noteq> [] then br_baseSha repo else ''origin/'' @ br_baseRef repo)"

definition git_head :: "string git_prog" where
  "git_head = map_p (\<lambda>r. if rr_code r = 0 then trim (rr_stdout r) else []) (git_unchecked [''rev-parse'', ''HEAD''])"

definition hasChanges :: "bool git_prog" where
  "hasChanges = map_p (\<lambda>r. trim (rr_stdout r) \<noteq> []) (git_checked [''status'', ''--porcelain'', ''--untracked-files=all''])"

definition author_env :: "bootstrap_git \<Rightarrow> js_map" where
  "author_env a = filter (\<lambda>kv. snd kv \<noteq> [])
     [(''GIT_AUTHOR_NAME'', bg_authorName a), (''GIT_AUTHOR_EMAIL'', bg_authorEmail a),
      (''GIT_COMMITTER_NAME'', bg_committerName a), (''GIT_COMMITTER_EMAIL'', bg_committerEmail a)]"

definition commitAll :: "string \<Rightarrow> bootstrap_git \<Rightarrow> string git_prog" where
  "commitAll message author =
     then_p (git_checked [''add'', ''-A''])
     (bind_p (git_unchecked [''diff'', ''--cached'', ''--quiet'']) (\<lambda>staged.
      if rr_code staged = 0 then Ret []
      else then_p (git_full [''commit'', ''--no-verify'', ''-F'', ''-''] (Some message) (author_env author)) git_head))"

definition pathspec_list :: "string list \<Rightarrow> string" where
  "pathspec_list paths = join_with [CHR 0x00] paths @ [CHR 0x00]"

definition commitPaths :: "string \<Rightarrow> bootstrap_git \<Rightarrow> string list \<Rightarrow> string git_prog" where
  "commitPaths message author paths =
     (if paths = [] then Ret []
      else
        then_p (git_full [''--literal-pathspecs'', ''add'', ''-A'', ''--pathspec-from-file=-'', ''--pathspec-file-nul'']
                  (Some (pathspec_list paths)) [])
        (bind_p (git_checked [''diff'', ''--cached'', ''--name-only'', ''-z'', ''--no-renames'']) (\<lambda>staged.
         if \<not> list_ex (\<lambda>p. p \<in> set paths) (split_on (CHR 0x00) (rr_stdout staged)) then Ret []
         else then_p (git_full [''--literal-pathspecs'', ''commit'', ''--no-verify'', ''--only'', ''-m'', message,
                        ''--pathspec-from-file=-'', ''--pathspec-file-nul'']
                        (Some (pathspec_list paths)) (author_env author)) git_head)))"

record coding_commit =
  cc_sha :: string
  cc_branch :: string
  cc_turnActivityId :: string
  cc_message :: "string option"
  cc_signed :: bool
  cc_createdAt :: string

text \<open>\<open>new Date(date).toISOString()\<close> is the parameter \<open>toIso\<close>; it throws, \<open>None\<close>, for what is no date.\<close>

primrec parse_commits ::
  "(string option \<Rightarrow> string option) \<Rightarrow> string \<Rightarrow> string \<Rightarrow> bool \<Rightarrow> string list \<Rightarrow> coding_commit list git_prog" where
  "parse_commits toIso branch turnId signed [] = Ret []"
| "parse_commits toIso branch turnId signed (line # lines) =
     (let pieces = split_on (CHR 0x1F) line
      in case toIso (nth_opt pieces 2) of
           None \<Rightarrow> Throw (OtherError ''Invalid time value'')
         | Some at \<Rightarrow>
             map_p (Cons \<lparr>cc_sha = hd pieces, cc_branch = branch, cc_turnActivityId = turnId,
                     cc_message = nth_opt pieces 1, cc_signed = signed, cc_createdAt = at\<rparr>)
               (parse_commits toIso branch turnId signed lines))"

definition commitsSince ::
  "(string option \<Rightarrow> string option) \<Rightarrow> string \<Rightarrow> string \<Rightarrow> string \<Rightarrow> bool \<Rightarrow> coding_commit list git_prog" where
  "commitsSince toIso since branch turnId signed =
     bind_p (git_unchecked [''log'', ''--reverse'', ''--format=%H%x1f%s%x1f%cI'',
               if since \<noteq> [] then since @ ''..HEAD'' else ''HEAD'']) (\<lambda>r.
       if rr_code r \<noteq> 0 then Ret []
       else parse_commits toIso branch turnId signed (filter (\<lambda>l. l \<noteq> []) (split_on (CHR 0x0A) (rr_stdout r))))"

definition push_args :: "git_conf \<Rightarrow> string \<Rightarrow> bool \<Rightarrow> string list" where
  "push_args g branch forceWithLease =
     helperArgs g @ [''push'', ''--porcelain''] @ (if forceWithLease then [''--force-with-lease''] else []) @
     [''origin'', ''HEAD:'' @ local_ref branch]"

definition push :: "git_conf \<Rightarrow> string \<Rightarrow> bool \<Rightarrow> unit git_prog" where
  "push g branch forceWithLease =
     bind_p (network (push_args g branch forceWithLease)) (\<lambda>r.
       if rr_code r \<noteq> 0 then Throw (CommandError (command_text (push_args g branch forceWithLease)) r) else Ret ())"

definition diffSummary :: "string \<Rightarrow> coding_diff_summary list git_prog" where
  "diffSummary base =
     bind_p (git_unchecked [''diff'', ''--no-renames'', ''--numstat'', base @ ''...HEAD'']) (\<lambda>numstat.
     bind_p (git_unchecked [''diff'', ''--no-renames'', ''--name-status'', base @ ''...HEAD'']) (\<lambda>names.
       if rr_code numstat \<noteq> 0 then Ret [] else Ret (parseNumstat (rr_stdout numstat) (rr_stdout names))))"

section \<open>What the commands do\<close>

text \<open>The git subcommand of a command line, after the global options the runner uses.\<close>

fun git_sub :: "string list \<Rightarrow> string" where
  "git_sub [] = []"
| "git_sub (a # args) =
     (if a = ''-c'' then (case args of [] \<Rightarrow> [] | _ # rest \<Rightarrow> git_sub rest)
      else if a = ''--literal-pathspecs'' \<or> a = ''--no-optional-locks'' then git_sub args
      else a)"

definition issues :: "string list \<Rightarrow> git_cmd" where
  "issues args = GitCmd args None []"

lemma cmd_args_issues [simp]: "cmd_args (issues args) = args"
  by (simp add: issues_def)

lemma git_sub_helper [simp]: "git_sub (helperArgs g @ args) = git_sub args"
  by (simp add: helperArgs_def)

lemma track_git_unchecked [simp]:
  "track I Q (git_unchecked args) h \<longleftrightarrow> I h (issues args) \<and> (\<forall>r. Q (h @ [(issues args, r)]) (Inr r))"
  by (simp add: git_unchecked_def issues_def)

lemma track_git_checked [simp]:
  "track I Q (git_checked args) h \<longleftrightarrow> I h (issues args) \<and>
     (\<forall>r. Q (h @ [(issues args, r)])
            (if rr_code r \<noteq> 0 then Inl (CommandError (command_text args) r) else Inr r))"
  by (auto simp: git_checked_def git_full_def issues_def)

text \<open>A network command is asked once or twice, and nothing else is asked.\<close>

lemma network_rule:
  assumes "\<And>h'. set h \<subseteq> set h' \<Longrightarrow> I h' (issues args)"
    and "\<And>h' r. set h \<subseteq> set h' \<Longrightarrow> (issues args, r) \<in> set h' \<Longrightarrow> Q h' (Inr r)"
  shows "track I Q (network args) h"
  by (auto simp: network_def intro!: assms)

lemma revParse_rule:
  assumes "I h (issues (revParse_args ref))"
    and "\<And>r. Q (h @ [(issues (revParse_args ref), r)]) (Inr (revParse_result r))"
  shows "track I Q (revParse ref) h"
  using assms by (simp add: revParse_def)

text \<open>Git says the workspace has no commits of the branch that origin lacks.\<close>

definition no_local_work :: "git_conf \<Rightarrow> string \<Rightarrow> (git_cmd \<times> run_result) list \<Rightarrow> bool" where
  "no_local_work g branch h \<longleftrightarrow>
     (\<exists>l r sha. (issues (revParse_args (local_ref branch)), l) \<in> set h \<and>
        (issues (ls_remote_args g branch), r) \<in> set h \<and> rr_code r = 0 \<and> listed_head branch (rr_stdout r) = Some sha \<and>
        (\<not> truthy (revParse_result l) \<or> revParse_result l = Some sha \<or>
         (\<exists>a. (issues (is_ancestor_args (the (revParse_result l)) sha), a) \<in> set h \<and> rr_code a = 0)))"

lemma no_local_work_mono: "no_local_work g branch h \<Longrightarrow> set h \<subseteq> set h' \<Longrightarrow> no_local_work g branch h'"
  unfolding no_local_work_def by blast

text \<open>The code host answered that it has no such branch.\<close>

definition host_said_absent :: "git_conf \<Rightarrow> string \<Rightarrow> (git_cmd \<times> run_result) list \<Rightarrow> bool" where
  "host_said_absent g branch h \<longleftrightarrow>
     (\<exists>r. (issues (ls_remote_args g branch), r) \<in> set h \<and> rr_code r = 2 \<and> \<not> rr_timedOut r)"

definition checkout_step :: "git_conf \<Rightarrow> string \<Rightarrow> (git_cmd \<times> run_result) list \<Rightarrow> git_cmd \<Rightarrow> bool" where
  "checkout_step g branch h c \<longleftrightarrow>
     git_sub (cmd_args c) \<noteq> ''push'' \<and> (cmd_args c = reset_args branch \<longrightarrow> no_local_work g branch h)"

lemma checkout_step_other:
  "git_sub args \<noteq> ''push'' \<Longrightarrow> git_sub args \<noteq> ''checkout'' \<Longrightarrow> checkout_step g branch h (issues args)"
  by (auto simp: checkout_step_def reset_args_def)

definition checkout_end ::
  "git_conf \<Rightarrow> string \<Rightarrow> (git_cmd \<times> run_result) list \<Rightarrow> run_error + branch_checkout \<Rightarrow> bool" where
  "checkout_end g branch h res \<longleftrightarrow>
     on_res (\<lambda>e. e = BranchNotFoundError branch \<longrightarrow> host_said_absent g branch h)
       (\<lambda>c. co_source c = CoCreated \<longrightarrow> host_said_absent g branch h) res"

lemma remoteBranchHead_rule:
  assumes "\<And>h' sha r. set h \<subseteq> set h' \<Longrightarrow> (issues (ls_remote_args g branch), r) \<in> set h' \<Longrightarrow> rr_code r = 0 \<Longrightarrow>
        listed_head branch (rr_stdout r) = Some sha \<Longrightarrow> Q h' (Inr (Some sha))"
    and "\<And>h'. set h \<subseteq> set h' \<Longrightarrow> host_said_absent g branch h' \<Longrightarrow> Q h' (Inr None)"
    and "\<And>h' k d. set h \<subseteq> set h' \<Longrightarrow> Q h' (Inl (RemoteQueryError k branch d))"
  shows "track (checkout_step g branch) Q (remoteBranchHead g branch) h"
  unfolding remoteBranchHead_def track_bind
proof (rule network_rule)
  show "checkout_step g branch h' (issues (ls_remote_args g branch))" for h'
    by (rule checkout_step_other) (simp_all add: ls_remote_args_def)
next
  fix h' r
  assume "set h \<subseteq> set h'" "(issues (ls_remote_args g branch), r) \<in> set h'"
  then show "on_res (\<lambda>e. Q h' (Inl e)) (\<lambda>r. track (checkout_step g branch) Q
      (let sha = (if rr_code r = 0 then listed_head branch (rr_stdout r) else None)
       in if sha \<noteq> None then Ret sha
          else if rr_code r = 2 \<and> \<not> rr_timedOut r then Ret None
          else Throw (query_error branch r)) h') (Inr r)"
    by (auto simp: host_said_absent_def query_error_def Let_def intro!: assms)
qed

lemma refresh_tracking_rule:
  assumes "\<And>h'. set h \<subseteq> set h' \<Longrightarrow> Q h' (Inr ())"
    and "\<And>h' k d. set h \<subseteq> set h' \<Longrightarrow> Q h' (Inl (RemoteQueryError k branch d))"
  shows "track (checkout_step g branch) Q (refresh_tracking g branch remote) h"
  unfolding refresh_tracking_def track_bind
proof (rule revParse_rule)
  show "checkout_step g branch h (issues (revParse_args (tracking_ref branch)))"
    by (rule checkout_step_other) (simp_all add: revParse_args_def)
  fix r
  let ?args = "helperArgs g @ [''fetch'', ''--no-tags'', ''origin'', ''+'' @ local_ref branch @ '':'' @ tracking_ref branch]"
  let ?h = "h @ [(issues (revParse_args (tracking_ref branch)), r)]"
  have "track (checkout_step g branch)
     (\<lambda>h'. on_res (\<lambda>e. Q h' (Inl e)) (\<lambda>fetched. track (checkout_step g branch) Q
        (if rr_code fetched \<noteq> 0 then Throw (query_error branch fetched) else Ret ()) h')) (network ?args) ?h"
  proof (rule network_rule)
    show "checkout_step g branch h' (issues ?args)" for h'
      by (rule checkout_step_other) simp_all
  qed (auto simp: query_error_def intro!: assms)
  then show "on_res (\<lambda>e. Q ?h (Inl e)) (\<lambda>known. track (checkout_step g branch) Q
       (if known = Some remote then Ret ()
        else bind_p (network ?args) (\<lambda>fetched.
           if rr_code fetched \<noteq> 0 then Throw (query_error branch fetched) else Ret ())) ?h) (Inr (revParse_result r))"
    by (auto intro!: assms)
qed

lemma local_ahead_rule:
  assumes "\<And>h'. set h \<subseteq> set h' \<Longrightarrow> Q h' (Inr True)"
    and "\<And>h'. set h \<subseteq> set h' \<Longrightarrow>
       \<not> truthy loc \<or> loc = Some remote \<or>
       (\<exists>a. (issues (is_ancestor_args (the loc) remote), a) \<in> set h' \<and> rr_code a = 0) \<Longrightarrow> Q h' (Inr False)"
  shows "track (checkout_step g branch) Q (local_ahead loc remote) h"
proof -
  have step: "checkout_step g branch h (issues (is_ancestor_args (the loc) remote))"
    by (rule checkout_step_other) (simp_all add: is_ancestor_args_def)
  have "Q (h @ [(issues (is_ancestor_args (the loc) remote), r)]) (Inr (rr_code r \<noteq> 0))" for r
    by (cases "rr_code r = 0") (auto intro!: assms)
  with step show ?thesis
    by (auto simp: local_ahead_def isAncestor_def intro!: assms)
qed

lemma checkout_onto_ok:
  assumes "\<not> ahead \<Longrightarrow> no_local_work g branch h"
  shows "track (checkout_step g branch) (checkout_end g branch) (checkout_onto branch ahead) h"
proof -
  have "checkout_step g branch h (issues (if ahead then [''checkout'', branch] else reset_args branch))"
    using assms by (simp add: checkout_step_def reset_args_def)
  moreover have "checkout_step g branch h' (issues [''branch'', ''--set-upstream-to'', ''origin/'' @ branch])" for h'
    by (rule checkout_step_other) simp_all
  ultimately show ?thesis by (cases ahead) (simp_all add: checkout_onto_def checkout_end_def)
qed

lemma checkout_remote_ok:
  assumes "(issues (revParse_args (local_ref branch)), l) \<in> set h"
    and "(issues (ls_remote_args g branch), r) \<in> set h" "rr_code r = 0" "listed_head branch (rr_stdout r) = Some sha"
  shows "track (checkout_step g branch) (checkout_end g branch)
           (checkout_remote g branch sha (revParse_result l)) h"
  unfolding checkout_remote_def track_then track_bind
proof (rule refresh_tracking_rule; simp only: on_res.simps)
  fix h' assume h': "set h \<subseteq> set h'"
  show "track (checkout_step g branch)
     (\<lambda>h'. on_res (\<lambda>e. checkout_end g branch h' (Inl e))
        (\<lambda>ahead. track (checkout_step g branch) (checkout_end g branch) (checkout_onto branch ahead) h'))
     (local_ahead (revParse_result l) sha) h'"
  proof (rule local_ahead_rule; simp only: on_res.simps; rule checkout_onto_ok)
    fix h2 assume "set h' \<subseteq> set h2"
      and "\<not> truthy (revParse_result l) \<or> revParse_result l = Some sha \<or>
        (\<exists>a. (issues (is_ancestor_args (the (revParse_result l)) sha), a) \<in> set h2 \<and> rr_code a = 0)"
    with assms h' show "no_local_work g branch h2" unfolding no_local_work_def by blast
  qed simp
qed (simp add: checkout_end_def)

lemma branchBase_rule:
  assumes "\<And>h' base note. set h \<subseteq> set h' \<Longrightarrow> Q h' (Inr (base, note))"
  shows "track (checkout_step g branch) Q (branchBase g repo) h"
proof -
  have rev: "checkout_step g branch h' (issues (revParse_args ref))" for h' ref
    by (rule checkout_step_other) (simp_all add: revParse_args_def)
  have fetch: "checkout_step g branch h' (issues (helperArgs g @ [''fetch'', ''--no-tags'', ''origin'', sha]))" for h' sha
    by (rule checkout_step_other) simp_all
  show ?thesis by (auto simp: branchBase_def revParse_def Let_def rev fetch intro!: assms)
qed

lemma host_said_absent_mono: "host_said_absent g b h \<Longrightarrow> set h \<subseteq> set h' \<Longrightarrow> host_said_absent g b h'"
  unfolding host_said_absent_def by blast

lemma host_said_absent_append:
  "host_said_absent g b h \<Longrightarrow> set h \<subseteq> set h' \<Longrightarrow> host_said_absent g b (h' @ h2)"
  unfolding host_said_absent_def by auto

lemma checkout_unpublished_ok:
  assumes "host_said_absent g (br_branchName repo) h"
  shows "track (checkout_step g (br_branchName repo)) (checkout_end g (br_branchName repo))
           (checkout_unpublished g repo loc) h"
    (is "track (checkout_step g ?b) _ _ _")
proof -
  have co: "checkout_step g ?b h (issues [''checkout'', ?b])"
    and new: "checkout_step g ?b h (issues [''checkout'', ''--no-track'', ''-b'', ?b, base])" for h base
    by (simp_all add: checkout_step_def reset_args_def)
  show ?thesis
    unfolding checkout_unpublished_def Let_def
    by (auto simp: co new checkout_end_def assms
             intro!: branchBase_rule host_said_absent_append [OF assms])
qed

lemma checkout_session_branch_track:
  "track (checkout_step g (br_branchName repo)) (checkout_end g (br_branchName repo)) (checkoutSessionBranch g repo) []"
proof -
  have rev: "checkout_step g (br_branchName repo) h (issues (revParse_args (local_ref (br_branchName repo))))" for h
    by (rule checkout_step_other) (simp_all add: revParse_args_def)
  have parse: "(\<And>r. Q (h @ [(issues (revParse_args (local_ref (br_branchName repo))), r)]) (Inr (revParse_result r))) \<Longrightarrow>
      track (checkout_step g (br_branchName repo)) Q (revParse (local_ref (br_branchName repo))) h" for Q h
    using rev by (rule revParse_rule)
  show ?thesis
    unfolding checkoutSessionBranch_def Let_def track_bind
    by (rule remoteBranchHead_rule; simp only: on_res.simps; (rule parse)?; (simp only: on_res.simps option.case)?)
       (auto simp: checkout_end_def intro!: checkout_remote_ok checkout_unpublished_ok host_said_absent_append)
qed

text \<open>
  C13. Checking out the session branch never pushes. It resets the workspace's branch to origin's only
  when git answered that the workspace has no commits origin lacks. A new branch is started, or the
  branch reported as not found, only when the code host answered that it has no such branch.
\<close>

theorem checkout_keeps_work:
  assumes "replay (checkoutSessionBranch g repo) tr = Some res"
  shows "(\<forall>x \<in> set tr. git_sub (cmd_args (fst x)) \<noteq> ''push'') \<and>
    (\<forall>i < length tr. cmd_args (fst (tr ! i)) = reset_args (br_branchName repo) \<longrightarrow>
        no_local_work g (br_branchName repo) (take i tr)) \<and>
    (res = Inl (BranchNotFoundError (br_branchName repo)) \<or> (\<exists>c. res = Inr c \<and> co_source c = CoCreated) \<longrightarrow>
        host_said_absent g (br_branchName repo) tr)"
proof -
  note run = track_replay [OF checkout_session_branch_track assms, simplified]
  then have "\<forall>i < length tr. git_sub (cmd_args (fst (tr ! i))) \<noteq> ''push''"
    by (simp add: checkout_step_def)
  then have "\<forall>x \<in> set tr. git_sub (cmd_args (fst x)) \<noteq> ''push''"
    by (metis in_set_conv_nth)
  with run show ?thesis by (auto simp: checkout_step_def checkout_end_def)
qed

definition sample_conf :: git_conf where
  "sample_conf = \<lparr>gc_repoDir = ''/r'', gc_credentialHelper = ''h'', gc_signProgram = ''s''\<rparr>"

definition sample_repo :: bootstrap_repo where
  "sample_repo = \<lparr>br_baseRef = ''main'', br_baseSha = [], br_branchName = ''f'', br_existingBranch = False,
     br_branchUnconfirmed = False, br_branchPrefix = ''f''\<rparr>"

definition answer :: "int \<Rightarrow> string \<Rightarrow> run_result" where
  "answer code stdout = \<lparr>rr_code = code, rr_stdout = stdout, rr_stderr = [], rr_timedOut = False\<rparr>"

definition sample_checkout :: "(git_cmd \<times> run_result) list" where
  "sample_checkout =
     [(issues (ls_remote_args sample_conf ''f''), answer 0 (''s1'' @ [CHR 0x09] @ ''refs/heads/f'')),
      (issues (revParse_args (local_ref ''f'')), answer 0 ''s0''),
      (issues (revParse_args (tracking_ref ''f'')), answer 0 ''s1''),
      (issues (is_ancestor_args ''s0'' ''s1''), answer 0 []),
      (issues (reset_args ''f''), answer 0 []),
      (issues [''branch'', ''--set-upstream-to'', ''origin/f''], answer 0 [])]"

theorem checkout_keeps_work_witness:
  "\<exists>res. replay (checkoutSessionBranch sample_conf sample_repo) sample_checkout = Some res \<and>
     no_local_work sample_conf ''f'' (take 4 sample_checkout)"
proof -
  have run: "replay (checkoutSessionBranch sample_conf sample_repo) sample_checkout =
      Some (Inr \<lparr>co_source = CoRemote, co_base = None, co_note = None, co_recovered = False\<rparr>)"
    by code_simp
  have "4 < length sample_checkout" "cmd_args (fst (sample_checkout ! 4)) = reset_args (br_branchName sample_repo)"
    by (simp_all add: sample_checkout_def sample_repo_def)
  with checkout_keeps_work [OF run] have "no_local_work sample_conf (br_branchName sample_repo) (take 4 sample_checkout)"
    by blast
  with run show ?thesis by (simp add: sample_repo_def)
qed

section \<open>Commit subjects\<close>

lemma set_trim_end: "set (trim_end s) \<subseteq> set s"
  by (auto simp: trim_end_def dest!: set_dropWhileD)

lemma set_drop_colon: "set (drop_colon s) \<subseteq> set s"
  using set_trim_end [of s] unfolding drop_colon_def Let_def by (auto dest: in_set_butlastD)

lemma clean_line_no_newline: "CHR 0x0A \<notin> set l \<Longrightarrow> CHR 0x0A \<notin> set (clean_line l)"
  unfolding clean_line_def using set_trim set_drop_colon set_dropWhileD by (metis subsetD)

lemma summaryLine_props: "summaryLine s = Some l \<Longrightarrow> l \<noteq> [] \<and> CHR 0x0A \<notin> set l"
proof -
  assume "summaryLine s = Some l"
  then have "l \<noteq> []" "l \<in> set (map clean_line (split_on (CHR 0x0A) s))"
    unfolding summaryLine_def by (auto simp: find_Some_iff)
  then show ?thesis using split_on_no_sep clean_line_no_newline by fastforce
qed

lemma commit_subject_props:
  assumes "dots \<noteq> CHR 0x0A" "fallback \<noteq> []" "CHR 0x0A \<notin> set fallback"
  shows "commit_subject dots summary fallback \<noteq> [] \<and> length (commit_subject dots summary fallback) \<le> MAX_SUBJECT \<and>
         CHR 0x0A \<notin> set (commit_subject dots summary fallback)"
proof -
  define base where "base = (case summaryLine summary of Some l \<Rightarrow> l | None \<Rightarrow> fallback)"
  have base: "base \<noteq> []" "CHR 0x0A \<notin> set base"
    using assms summaryLine_props by (auto simp: base_def split: option.splits)
  have "length (trim_end (take (MAX_SUBJECT - 1) base)) < MAX_SUBJECT"
    using length_trim_end [of "take (MAX_SUBJECT - 1) base"] by (simp add: MAX_SUBJECT_def)
  moreover have "CHR 0x0A \<notin> set (trim_end (take n base))" for n
    using base(2) by (auto simp: trim_end_def dest!: set_dropWhileD dest: in_set_takeD)
  moreover have "commit_subject dots summary fallback =
      (if length base > MAX_SUBJECT then trim_end (take (MAX_SUBJECT - 1) base) @ [dots] else base)"
    by (simp add: commit_subject_def base_def Let_def)
  ultimately show ?thesis using base assms(1) by auto
qed

lemma takeWhile_line: "CHR 0x0A \<notin> set a \<Longrightarrow> takeWhile (\<lambda>c. c \<noteq> CHR 0x0A) (a @ CHR 0x0A # b) = a"
  by (induction a) auto

lemma commitMessage_shape:
  "\<exists>rest. commitMessage dots summary trailer fallback =
     commit_subject dots summary (case fallback of Some f \<Rightarrow> f | None \<Rightarrow> ''Update from Flow coding session'') @ CHR 0x0A # rest"
  unfolding commitMessage_def Let_def by (auto split: option.splits)

text \<open>
  The first line of a commit message is never empty and at most 72 characters long, whatever the
  agent's summary is.
\<close>

theorem commit_subject_bounds:
  assumes "dots \<noteq> CHR 0x0A" "\<forall>f. fallback = Some f \<longrightarrow> f \<noteq> [] \<and> CHR 0x0A \<notin> set f"
  shows "let subject = takeWhile (\<lambda>c. c \<noteq> CHR 0x0A) (commitMessage dots summary trailer fallback)
         in subject \<noteq> [] \<and> length subject \<le> 72"
proof -
  have "(case fallback of Some f \<Rightarrow> f | None \<Rightarrow> ''Update from Flow coding session'') \<noteq> []"
    "CHR 0x0A \<notin> set (case fallback of Some f \<Rightarrow> f | None \<Rightarrow> ''Update from Flow coding session'')"
    using assms(2) by (auto split: option.splits)
  note props = commit_subject_props [OF assms(1) this, of summary]
  obtain rest where "commitMessage dots summary trailer fallback =
     commit_subject dots summary (case fallback of Some f \<Rightarrow> f | None \<Rightarrow> ''Update from Flow coding session'') @ CHR 0x0A # rest"
    using commitMessage_shape by blast
  with props show ?thesis by (simp add: takeWhile_line MAX_SUBJECT_def)
qed

theorem commit_subject_bounds_witness:
  "let subject = takeWhile (\<lambda>c. c \<noteq> CHR 0x0A) (commitMessage (CHR ''~'') ''## Fixed it:'' None None)
   in subject \<noteq> [] \<and> length subject \<le> 72"
  by (rule commit_subject_bounds) simp_all

end
