(* ===== verification/Session.thy ===== *)
theory Session
  imports Git_Ops Async_Queue
begin

text \<open>
  \<open>sandbox-runner/src/session.ts\<close>, the turns of a session: preparing the workspace, running the harness,
  and the end of a turn, with or without publishing. A method is a program over the requests below; the
  fields another task may change at any time (\<open>this.stop\<close>) are asked for where the code reads them.
  Logging is left out. The harness run itself (process, output mapping) is one request.
\<close>

section \<open>Messages and errors\<close>

record error_detail =
  ed_code :: string
  ed_message :: string

definition remote_failure_text :: "remote_failure \<Rightarrow> string" where
  "remote_failure_text k =
     (case k of
        RfAuth \<Rightarrow> ''the code host rejected the credentials or denied access''
      | RfNetwork \<Rightarrow> ''the code host could not be reached''
      | RfUnavailable \<Rightarrow> ''the code host is unavailable''
      | RfUnknown \<Rightarrow> ''the query failed'')"

definition newline :: string where
  "newline = [CHR 0x0A]"

fun errorMessage :: "run_error \<Rightarrow> string" where
  "errorMessage (CommandError command r) =
     command @ '' failed with exit code '' @ int_str (rr_code r) @ (if rr_timedOut r then '' (timed out)'' else []) @ '': '' @
     tail_chars 2000 (trim (if rr_stderr r \<noteq> [] then rr_stderr r else rr_stdout r))"
| "errorMessage (RemoteQueryError kind branch detail) =
     ''Could not check whether branch '' @ branch @ '' exists on origin: '' @ remote_failure_text kind @ ''.'' @
     (if detail \<noteq> [] then newline @ detail else [])"
| "errorMessage (BranchNotFoundError branch) =
     ''Branch '' @ branch @ '' was published before but no longer exists on origin, and this workspace has no copy of it. Restore the branch on the code host or start over.''"
| "errorMessage (BranchPolicyError m) = m"
| "errorMessage (SetupError m logTail) = m"
| "errorMessage TokenRejected = ''sandbox token rejected''"
| "errorMessage (OtherError m) = m"

text \<open>\<open>text.replace(/\s+/g, ' ')\<close>.\<close>

fun collapse_spaces :: "bool \<Rightarrow> string \<Rightarrow> string" where
  "collapse_spaces inside [] = []"
| "collapse_spaces inside (c # cs) =
     (if is_space c then (if inside then [] else '' '') @ collapse_spaces True cs
      else c # collapse_spaces False cs)"

definition truncate_text :: "char \<Rightarrow> nat \<Rightarrow> string \<Rightarrow> string" where
  "truncate_text dots limit txt =
     (let single = trim (collapse_spaces False txt)
      in if length single \<le> limit then single else take (limit - 1) single @ [dots])"

definition QUOTA :: regex where
  "QUOTA = alts (lit ''quota_exceeded'') [seqs [Bnd, lit ''402'', Bnd], lit ''spend limit'', lit ''payment required'']"

definition MODEL_UNAVAILABLE :: regex where
  "MODEL_UNAVAILABLE =
     alts (seqs [lit ''model'', Span 0 (Some 80) (\<lambda>c. c \<noteq> CHR 0x0A),
             alts (seqs [lit ''not'', one_of '' _'', lit ''found'']) [lit ''does not exist'', lit ''unavailable'', lit ''not supported'']])
       [lit ''model_not_found'', lit ''unknown model'', lit ''invalid model'']"

definition classifyError :: "string \<Rightarrow> string" where
  "classifyError message =
     (if re_test QUOTA message then ''quotaExceeded''
      else if re_test MODEL_UNAVAILABLE message then ''modelUnavailable''
      else ''harnessFailed'')"

definition harnessError :: "char \<Rightarrow> string \<Rightarrow> error_detail" where
  "harnessError dots message =
     (let clean = (if trim message \<noteq> [] then trim message else ''the agent failed'')
      in \<lparr>ed_code = classifyError clean, ed_message = truncate_text dots 2000 clean\<rparr>)"

definition RESUME_FAILED :: regex where
  "RESUME_FAILED =
     alts (lit ''no conversation found'')
       [lit ''session not found'', lit ''no session found'', lit ''thread not found'',
        seqs [lit ''could not find '', opt (lit ''the ''), lit ''session''], lit ''failed to resume'', lit ''unable to resume'']"

definition resumeFailed :: "string \<Rightarrow> bool" where
  "resumeFailed txt = re_test RESUME_FAILED txt"

section \<open>Requests of a session\<close>

datatype turn_status = StSuccess | StError | StStopped | StAwaitingInput

datatype phase = PhSetup | PhRunning | PhIdle | PhPublishing

datatype stop_reason = ByUser | ByFlow | BySignal | Revoked

record stop_request =
  sr_by :: string
  sr_reason :: stop_reason

datatype runner_event =
    EvError error_detail
  | EvThought string
  | EvAction string string
  | EvStatus string "string option"

record turn_outcome =
  to_harnessSessionId :: "string option"
  to_finalText :: "string option"
  to_error :: "error_detail option"
  to_elicited :: bool
  to_completed :: bool

record harness_attempt =
  ha_outcome :: turn_outcome
  ha_exitCode :: int
  ha_timedOut :: bool
  ha_stderr :: string

record turn_complete =
  tc_status :: turn_status
  tc_summary :: "string option"
  tc_displayTitle :: "string option"
  tc_harnessSessionId :: "string option"
  tc_commits :: "coding_commit list"
  tc_pushed :: bool
  tc_headSha :: "string option"
  tc_diff :: "coding_diff_summary list"
  tc_error :: "error_detail option"
  tc_scope :: "turn_scope option"

datatype request =
    RqGit git_cmd
  | RqFile string
  | RqEmit runner_event
  | RqStop
  | RqPhase phase "string option"
  | RqClearMarker string
  | RqMarker string
  | RqHarness turn "string option"
  | RqSleep nat
  | RqSaveState
  | RqFlush nat
  | RqComplete string turn_complete
  | RqWriteRuntimeInfo
  | RqLog string
  | RqMkdir
  | RqCoAuthorHook
  | RqRunSetup
  | RqRestoreState
  | RqCliEnv
  | RqTake
  | RqCloseBuffer

text \<open>An answer; \<open>AnFail\<close> is a rejected promise. A reader of another kind of answer gets a default value.\<close>

datatype reply =
    AnRun run_result
  | AnFile fs_entry
  | AnStop "stop_request option"
  | AnBool bool
  | AnAttempt harness_attempt
  | AnTurn "turn option"
  | AnOk
  | AnFail run_error

type_synonym 'x sess_prog = "(request, reply, run_error, 'x) prog"

definition an_run :: "reply \<Rightarrow> run_result" where
  "an_run a = (case a of AnRun r \<Rightarrow> r | _ \<Rightarrow> answer 1 [])"

definition an_file :: "reply \<Rightarrow> fs_entry" where
  "an_file a = (case a of AnFile e \<Rightarrow> e | _ \<Rightarrow> FsError)"

definition an_stop :: "reply \<Rightarrow> stop_request option" where
  "an_stop a = (case a of AnStop s \<Rightarrow> s | _ \<Rightarrow> None)"

definition an_bool :: "reply \<Rightarrow> bool" where
  "an_bool a = (case a of AnBool b \<Rightarrow> b | _ \<Rightarrow> False)"

definition an_turn :: "reply \<Rightarrow> turn option" where
  "an_turn a = (case a of AnTurn t \<Rightarrow> t | _ \<Rightarrow> None)"

definition no_attempt :: harness_attempt where
  "no_attempt = \<lparr>ha_outcome = \<lparr>to_harnessSessionId = None, to_finalText = None, to_error = None, to_elicited = False,
     to_completed = False\<rparr>, ha_exitCode = 1, ha_timedOut = False, ha_stderr = []\<rparr>"

definition an_attempt :: "reply \<Rightarrow> harness_attempt" where
  "an_attempt a = (case a of AnAttempt h \<Rightarrow> h | _ \<Rightarrow> no_attempt)"

definition gitp :: "'x git_prog \<Rightarrow> 'x sess_prog" where
  "gitp p = lift_p RqGit an_run p"

definition emit :: "runner_event \<Rightarrow> unit sess_prog" where
  "emit e = map_p (\<lambda>_. ()) (ask (RqEmit e))"

definition emit_when :: "bool \<Rightarrow> runner_event \<Rightarrow> unit sess_prog" where
  "emit_when c e = when_p c (emit e)"

definition setPhase :: "phase \<Rightarrow> string option \<Rightarrow> unit sess_prog" where
  "setPhase p turnId = map_p (\<lambda>_. ()) (ask (RqPhase p turnId))"

definition stopped_now :: "stop_request option sess_prog" where
  "stopped_now = map_p an_stop (ask RqStop)"

text \<open>A call that may reject.\<close>

definition attempt_call :: "request \<Rightarrow> reply sess_prog" where
  "attempt_call q = bind_p (ask q) (\<lambda>a. case a of AnFail e \<Rightarrow> Throw e | _ \<Rightarrow> Ret a)"

section \<open>A turn\<close>

text \<open>
  What a session is constructed with: the bootstrap response, the configuration and the parameters
  that stand for the platform (SHA-256, the conversion of dates, the ellipsis).
\<close>

record session_conf =
  sc_git :: git_conf
  sc_repo :: bootstrap_repo
  sc_identity :: bootstrap_git
  sc_fullName :: string
  sc_cloneUrl :: string
  sc_pushUrl :: string
  sc_branchPrefix :: string
  sc_restored :: bool
  sc_turn :: "turn option"
  sc_cliEnv :: bool
  sc_pushRetries :: nat
  sc_turnTimeoutSeconds :: nat
  sc_hash :: "string \<Rightarrow> string"
  sc_toIso :: "string option \<Rightarrow> string option"
  sc_dots :: char

record turn_run =
  tr_scope :: turn_scope
  tr_before :: workspace_state
  tr_leftovers :: "string list"
  tr_leftoverPrints :: js_map
  tr_includeLeftovers :: bool

definition read_state :: "session_conf \<Rightarrow> workspace_state sess_prog" where
  "read_state sc = gitp (readWorkspaceState (sc_hash sc))"

definition read_prints :: "session_conf \<Rightarrow> string list \<Rightarrow> js_map sess_prog" where
  "read_prints sc paths =
     map_p (\<lambda>entries. fingerprintPaths (sc_hash sc)
              (\<lambda>p. case map_of (zip paths entries) p of Some e \<Rightarrow> e | None \<Rightarrow> FsError) paths)
       (mapM_p (\<lambda>p. map_p an_file (ask (RqFile p))) paths)"

definition harnessTurn :: "turn \<Rightarrow> string option \<Rightarrow> turn_run \<Rightarrow> turn" where
  "harnessTurn t resumeId run =
     (if t_kind t = ''initial'' \<and> \<not> truthy resumeId \<and> tr_scope run = ScopeWrite then t
      else t\<lparr>t_prompt := requestHeader t (tr_scope run) @ t_prompt t\<rparr>)"

definition runHarness :: "turn \<Rightarrow> string option \<Rightarrow> turn_run \<Rightarrow> harness_attempt sess_prog" where
  "runHarness t resumeId run = map_p an_attempt (attempt_call (RqHarness (harnessTurn t resumeId run) resumeId))"

subsection \<open>The end of a turn\<close>

definition or_none :: "string \<Rightarrow> string option" where
  "or_none s = (if s \<noteq> [] then Some s else None)"

definition complete :: "turn \<Rightarrow> turn_complete \<Rightarrow> unit sess_prog" where
  "complete t request =
     then_p (ask (RqFlush 60000))
     (then_p (attempt_call (RqComplete (t_id t) request))
     (setPhase PhIdle None))"

text \<open>An error found at the end of a turn: it becomes the turn's error unless the turn already failed or was stopped.\<close>

type_synonym verdict = "turn_status \<times> error_detail option"

definition fail_with :: "error_detail \<Rightarrow> verdict \<Rightarrow> verdict sess_prog" where
  "fail_with detail v =
     then_p (emit (EvError detail))
       (Ret (if fst v = StSuccess \<or> fst v = StAwaitingInput then (StError, Some detail) else v))"

definition PERMANENT :: regex where
  "PERMANENT = lits ''rejected'' [''non-fast-forward'', ''protected branch'', ''pre-receive hook'', ''permission'', ''denied'', ''403'']"

definition permanent :: "run_error \<Rightarrow> bool" where
  "permanent e = re_test PERMANENT (case e of CommandError _ r \<Rightarrow> rr_stderr r | _ \<Rightarrow> [])"

text \<open>\<open>left\<close> counts the attempts that may still follow this one.\<close>

primrec push_retry :: "git_conf \<Rightarrow> string \<Rightarrow> bool \<Rightarrow> nat \<Rightarrow> nat \<Rightarrow> unit sess_prog" where
  "push_retry g branch force attempt 0 = gitp (push g branch force)"
| "push_retry g branch force attempt (Suc left) =
     catch_p (gitp (push g branch force)) (\<lambda>e.
       if permanent e then Throw e
       else then_p (ask (RqSleep attempt)) (push_retry g branch force (Suc attempt) left))"

definition pushWithRetry :: "session_conf \<Rightarrow> string \<Rightarrow> bool \<Rightarrow> unit sess_prog" where
  "pushWithRetry sc branch force = push_retry (sc_git sc) branch force 0 (sc_pushRetries sc - 1)"

definition scope_violations :: "turn_run \<Rightarrow> string \<Rightarrow> workspace_state \<Rightarrow> string \<Rightarrow> string list" where
  "scope_violations run startHead after headNow =
     (let found = fst (readOnlyViolations (tr_before run) after);
          scoped = (if tr_scope run = ScopeNoPublish
                    then filter (\<lambda>l. prefix ''HEAD'' l \<or> prefix ''the checked-out branch'' l) found else found)
      in if headNow \<noteq> startHead \<and> \<not> list_ex (prefix ''HEAD'') scoped
         then (''HEAD moved from '' @ take 12 startHead @ '' to '' @ take 12 headNow) # scoped
         else scoped)"

definition violation_detail :: "turn_scope \<Rightarrow> string list \<Rightarrow> error_detail" where
  "violation_detail scope violations =
     (let what = (if scope = ScopeReadOnly then ''keep the repository and the pull request unchanged'' else ''not commit or push'')
      in \<lparr>ed_code = ''harnessFailed'',
          ed_message = ''This turn's request was to '' @ what @ '', but the agent changed the repository: '' @
            join_with ''; '' violations @
            ''. Flow did not commit or push anything and did not revert anything; the changes are left in the workspace for review.''\<rparr>)"

definition untracked_note :: "string list \<Rightarrow> runner_event" where
  "untracked_note untracked =
     EvThought (''Temporary files created in this turn were not committed: '' @ listPaths untracked 10 @ ''.'')"

definition final_text :: "turn_outcome \<Rightarrow> string" where
  "final_text outcome = (case to_finalText outcome of Some s \<Rightarrow> s | None \<Rightarrow> [])"

definition unpublished_report :: "turn_run \<Rightarrow> verdict \<Rightarrow> turn_outcome \<Rightarrow> string option \<Rightarrow> turn_complete" where
  "unpublished_report run v outcome resumeId =
     \<lparr>tc_status = fst v, tc_summary = or_none (final_text outcome), tc_displayTitle = None, tc_harnessSessionId = resumeId,
      tc_commits = [], tc_pushed = False, tc_headSha = None, tc_diff = [], tc_error = snd v,
      tc_scope = Some (tr_scope run)\<rparr>"

definition completeWithoutPublishing ::
  "session_conf \<Rightarrow> turn \<Rightarrow> string \<Rightarrow> verdict \<Rightarrow> turn_outcome \<Rightarrow> turn_run \<Rightarrow> string option \<Rightarrow> unit sess_prog" where
  "completeWithoutPublishing sc t startHead v outcome run resumeId =
     bind_p (read_state sc) (\<lambda>after.
     bind_p (gitp git_head) (\<lambda>headNow.
     let violations = scope_violations run startHead after headNow;
         untracked = snd (readOnlyViolations (tr_before run) after)
     in bind_p (if violations \<noteq> [] then fail_with (violation_detail (tr_scope run) violations) v else Ret v) (\<lambda>v'.
        then_p (emit_when (untracked \<noteq> []) (untracked_note untracked))
        (then_p (ask RqSaveState)
        (complete t (unpublished_report run v' outcome resumeId))))))"

subsection \<open>Publishing\<close>

definition turn_message :: "session_conf \<Rightarrow> verdict \<Rightarrow> string \<Rightarrow> string sess_prog" where
  "turn_message sc v summary =
     (let trailer = Some (bg_coAuthorTrailer (sc_identity sc)); dots = sc_dots sc
      in case fst v of
           StStopped \<Rightarrow>
             map_p (\<lambda>stop. commitMessage dots
                 (''WIP: stopped by '' @ (case stop of Some r \<Rightarrow> if sr_by r \<noteq> [] then sr_by r else ''user'' | None \<Rightarrow> ''user''))
                 trailer None) stopped_now
         | StError \<Rightarrow>
             Ret (commitMessage dots
                 (''WIP: '' @ (if map_option ed_code (snd v) = Some ''turnTimeout'' then ''turn timed out'' else ''turn ended with an error''))
                 trailer None)
         | StAwaitingInput \<Rightarrow> Ret (commitMessage dots summary trailer (Some ''WIP: waiting for input''))
         | StSuccess \<Rightarrow> Ret (commitMessage dots summary trailer None))"

text \<open>The paths that are the turn's own changes: new dirty ones, and earlier ones whose content changed.\<close>

definition own_paths :: "turn_run \<Rightarrow> workspace_state \<Rightarrow> string list \<Rightarrow> string list" where
  "own_paths run after touched =
     filter (\<lambda>p. map_of (ws_dirty (tr_before run)) p = None \<or> p \<in> set touched) (map fst (ws_dirty after))"

definition dirty_in :: "workspace_state \<Rightarrow> string \<Rightarrow> bool" where
  "dirty_in st p \<longleftrightarrow> map_of (ws_dirty st) p \<noteq> None"

definition included_note :: "string list \<Rightarrow> runner_event" where
  "included_note paths =
     EvThought (''Flow committed '' @ nat_str (length paths) @
       '' path(s) that already had uncommitted changes before this turn, as requested: '' @ listPaths paths 10 @ ''.'')"

definition changed_note :: "string list \<Rightarrow> runner_event" where
  "changed_note paths =
     EvThought (''Flow committed '' @ nat_str (length paths) @
       '' path(s) that had uncommitted changes before this turn because this turn changed them: '' @ listPaths paths 10 @ ''.'')"

definition left_note :: "string list \<Rightarrow> runner_event" where
  "left_note paths =
     EvThought (''Flow did not commit '' @ nat_str (length paths) @
       '' path(s) that already had uncommitted changes before this turn: '' @ listPaths paths 10 @
       ''. They are left in the workspace unchanged.'')"

definition commit_included :: "session_conf \<Rightarrow> turn_run \<Rightarrow> string \<Rightarrow> unit sess_prog" where
  "commit_included sc run message =
     bind_p (read_state sc) (\<lambda>after.
     let earlier = filter (dirty_in after) (tr_leftovers run)
     in then_p (gitp (commitAll message (sc_identity sc)))
        (emit_when (earlier \<noteq> []) (included_note earlier)))"

definition commit_own :: "session_conf \<Rightarrow> turn_run \<Rightarrow> string \<Rightarrow> unit sess_prog" where
  "commit_own sc run message =
     bind_p (read_state sc) (\<lambda>after.
     bind_p (read_prints sc (tr_leftovers run)) (\<lambda>now.
     let touched = touchedLeftovers (tr_leftovers run) (tr_leftoverPrints run) now;
         left = filter (\<lambda>p. dirty_in after p \<and> p \<notin> set touched) (tr_leftovers run);
         changed = filter (\<lambda>p. dirty_in after p \<and> p \<in> set touched) (tr_leftovers run)
     in then_p (gitp (commitPaths message (sc_identity sc) (own_paths run after touched)))
        (then_p (emit_when (changed \<noteq> []) (changed_note changed))
        (emit_when (left \<noteq> []) (left_note left)))))"

definition commit_turn :: "session_conf \<Rightarrow> turn_run \<Rightarrow> string \<Rightarrow> unit sess_prog" where
  "commit_turn sc run message =
     (if tr_leftovers run = [] then map_p (\<lambda>_. ()) (gitp (commitAll message (sc_identity sc)))
      else if tr_includeLeftovers run then commit_included sc run message
      else commit_own sc run message)"

definition push_detail :: "run_error \<Rightarrow> string" where
  "push_detail e =
     (case e of
        CommandError _ r \<Rightarrow>
          (let err = tail_chars 2000 (trim (rr_stderr r)) in if err \<noteq> [] then err else errorMessage e)
      | _ \<Rightarrow> errorMessage e)"

definition push_error :: "string \<Rightarrow> run_error \<Rightarrow> error_detail" where
  "push_error branch e =
     \<lparr>ed_code = ''pushFailed'', ed_message = ''Pushing '' @ branch @ '' failed: '' @ push_detail e\<rparr>"

definition commit_error :: "run_error \<Rightarrow> error_detail" where
  "commit_error e =
     \<lparr>ed_code = (if isSigningFailure e then ''signingFailed'' else ''internal''),
      ed_message = ''Committing failed: '' @ errorMessage e\<rparr>"

definition push_turn :: "session_conf \<Rightarrow> turn \<Rightarrow> verdict \<Rightarrow> (bool \<times> verdict) sess_prog" where
  "push_turn sc t v =
     (let branch = br_branchName (sc_repo sc)
      in catch_p
           (then_p (gitp (checkBranchAllowed (sc_repo sc) (sc_branchPrefix sc) (Ret ())))
           (then_p (pushWithRetry sc branch (t_kind t = ''rebase''))
           (then_p (emit (EvAction ''Pushed branch'' branch)) (Ret (True, v)))))
           (\<lambda>e. map_p (Pair False) (fail_with (push_error branch e) v)))"

definition published_report ::
  "turn_run \<Rightarrow> verdict \<Rightarrow> turn_outcome \<Rightarrow> string option \<Rightarrow> coding_commit list \<Rightarrow> bool \<Rightarrow> string \<Rightarrow>
     coding_diff_summary list \<Rightarrow> turn_complete" where
  "published_report run v outcome resumeId commits pushed headSha diff =
     \<lparr>tc_status = fst v, tc_summary = or_none (final_text outcome),
      tc_displayTitle = (if fst v = StSuccess \<or> fst v = StAwaitingInput then summaryTitle (final_text outcome) else None),
      tc_harnessSessionId = resumeId, tc_commits = commits, tc_pushed = pushed, tc_headSha = or_none headSha,
      tc_diff = diff, tc_error = snd v, tc_scope = Some (tr_scope run)\<rparr>"

definition is_signed :: "bootstrap_git \<Rightarrow> bool" where
  "is_signed identity \<longleftrightarrow> bg_signingFormat identity \<noteq> [] \<and> bg_signingPublicKey identity \<noteq> []"

definition commit_changes :: "session_conf \<Rightarrow> turn_run \<Rightarrow> verdict \<Rightarrow> string \<Rightarrow> verdict sess_prog" where
  "commit_changes sc run v0 message =
     catch_p (then_p (commit_turn sc run message) (Ret v0)) (\<lambda>e. fail_with (commit_error e) v0)"

definition new_commits :: "session_conf \<Rightarrow> turn \<Rightarrow> string \<Rightarrow> coding_commit list sess_prog" where
  "new_commits sc t startHead =
     catch_p (gitp (commitsSince (sc_toIso sc) startHead (br_branchName (sc_repo sc)) (t_id t) (is_signed (sc_identity sc))))
       (\<lambda>_. Ret [])"

definition new_diff :: "session_conf \<Rightarrow> coding_diff_summary list sess_prog" where
  "new_diff sc = catch_p (gitp (diffSummary (baseRevision (sc_repo sc)))) (\<lambda>_. Ret [])"

definition publish_commits ::
  "session_conf \<Rightarrow> turn \<Rightarrow> string \<Rightarrow> turn_outcome \<Rightarrow> turn_run \<Rightarrow> string option \<Rightarrow> verdict \<Rightarrow> unit sess_prog" where
  "publish_commits sc t startHead outcome run resumeId v1 =
     bind_p (new_commits sc t startHead) (\<lambda>commits.
     bind_p (if commits \<noteq> [] then push_turn sc t v1 else Ret (False, v1)) (\<lambda>pv.
     bind_p (gitp git_head) (\<lambda>headSha.
     bind_p (new_diff sc) (\<lambda>diff.
     then_p (ask RqSaveState)
     (complete t (published_report run (snd pv) outcome resumeId commits (fst pv) headSha diff))))))"

definition publish_changes ::
  "session_conf \<Rightarrow> turn \<Rightarrow> string \<Rightarrow> verdict \<Rightarrow> turn_outcome \<Rightarrow> turn_run \<Rightarrow> string option \<Rightarrow> unit sess_prog" where
  "publish_changes sc t startHead v0 outcome run resumeId =
     then_p (setPhase PhPublishing (Some (t_id t)))
     (bind_p (turn_message sc v0 (final_text outcome)) (\<lambda>message.
      bind_p (commit_changes sc run v0 message) (publish_commits sc t startHead outcome run resumeId)))"

definition publish ::
  "session_conf \<Rightarrow> turn \<Rightarrow> string \<Rightarrow> verdict \<Rightarrow> turn_outcome \<Rightarrow> turn_run \<Rightarrow> string option \<Rightarrow> unit sess_prog" where
  "publish sc t startHead v0 outcome run resumeId =
     (if \<not> publishes (tr_scope run) then completeWithoutPublishing sc t startHead v0 outcome run resumeId
      else publish_changes sc t startHead v0 outcome run resumeId)"

subsection \<open>Running a turn\<close>

definition fresh_prompt :: string where
  "fresh_prompt = ''The previous agent session for this branch could not be resumed. Review the branch history (git log, git diff against the base) to see the work done so far, then handle this request:'' @ newline @ newline"

definition outcome_message :: "harness_attempt \<Rightarrow> string" where
  "outcome_message a = (case to_error (ha_outcome a) of Some e \<Rightarrow> ed_message e | None \<Rightarrow> [])"

text \<open>The harness run, and a second one with a fresh session when resuming failed; with the resume id that is left.\<close>

definition run_attempts :: "turn \<Rightarrow> string option \<Rightarrow> turn_run \<Rightarrow> (harness_attempt \<times> string option) sess_prog" where
  "run_attempts t resumeId run =
     bind_p (runHarness t resumeId run) (\<lambda>a.
     if \<not> truthy resumeId then Ret (a, resumeId)
     else
       bind_p stopped_now (\<lambda>stop.
       if stop = None \<and> \<not> ha_timedOut a \<and>
          (\<not> to_completed (ha_outcome a) \<or> to_error (ha_outcome a) \<noteq> None) \<and>
          resumeFailed (ha_stderr a @ newline @ outcome_message a)
       then map_p (\<lambda>a'. (a', None)) (runHarness (t\<lparr>t_prompt := fresh_prompt @ t_prompt t\<rparr>) None run)
       else Ret (a, resumeId)))"

definition unfinished_error :: "session_conf \<Rightarrow> harness_attempt \<Rightarrow> error_detail" where
  "unfinished_error sc a =
     (let why = (if ha_exitCode a = 0 then ''exited without finishing the turn''
                 else ''exited with code '' @ int_str (ha_exitCode a))
      in harnessError (sc_dots sc)
           (''The agent '' @ why @ ''.'' @
            (if ha_stderr a \<noteq> [] then newline @ tail_chars 1500 (ha_stderr a) else [])))"

definition turn_verdict :: "session_conf \<Rightarrow> turn \<Rightarrow> harness_attempt \<Rightarrow> verdict sess_prog" where
  "turn_verdict sc t a =
     bind_p stopped_now (\<lambda>stop.
     if stop \<noteq> None then Ret (StStopped, None)
     else if ha_timedOut a then
       Ret (StError, Some \<lparr>ed_code = ''turnTimeout'',
              ed_message = ''The turn exceeded '' @ nat_str (sc_turnTimeoutSeconds sc) @ ''s and was stopped.''\<rparr>)
     else if to_error (ha_outcome a) \<noteq> None then Ret (StError, to_error (ha_outcome a))
     else if \<not> to_completed (ha_outcome a) then Ret (StError, Some (unfinished_error sc a))
     else if to_elicited (ha_outcome a) then Ret (StAwaitingInput, None)
     else map_p (\<lambda>m. (if an_bool m then StAwaitingInput else StSuccess, None)) (ask (RqMarker (t_id t))))"

definition begin_run :: "session_conf \<Rightarrow> turn \<Rightarrow> turn_run sess_prog" where
  "begin_run sc t =
     bind_p (read_state sc) (\<lambda>before.
     let leftovers = map fst (ws_dirty before)
     in bind_p (read_prints sc leftovers) (\<lambda>prints.
        Ret \<lparr>tr_scope = turnScope t, tr_before = before, tr_leftovers = leftovers, tr_leftoverPrints = prints,
             tr_includeLeftovers = t_includeLeftovers t\<rparr>))"

definition next_resume :: "harness_attempt \<Rightarrow> string option \<Rightarrow> string option" where
  "next_resume a rid =
     (if truthy (to_harnessSessionId (ha_outcome a)) then to_harnessSessionId (ha_outcome a) else rid)"

definition report_error :: "verdict \<Rightarrow> harness_attempt \<Rightarrow> unit sess_prog" where
  "report_error v a =
     (case snd v of
        Some e \<Rightarrow> emit_when (to_error (ha_outcome a) = None) (EvError e)
      | None \<Rightarrow> Ret ())"

definition finish_turn ::
  "session_conf \<Rightarrow> turn \<Rightarrow> string \<Rightarrow> turn_run \<Rightarrow> harness_attempt \<times> string option \<Rightarrow> string option sess_prog" where
  "finish_turn sc t startHead run att =
     (let a = fst att; rid = next_resume a (snd att)
      in bind_p (turn_verdict sc t a) (\<lambda>v.
         then_p (report_error v a)
         (then_p (publish sc t startHead v (ha_outcome a) run rid) (Ret rid))))"

text \<open>A whole turn; it returns the resume id for the next one.\<close>

definition runTurn :: "session_conf \<Rightarrow> turn \<Rightarrow> string option \<Rightarrow> string option sess_prog" where
  "runTurn sc t resumeId =
     then_p (setPhase PhRunning (Some (t_id t)))
     (bind_p (gitp git_head) (\<lambda>startHead.
      bind_p (begin_run sc t) (\<lambda>run.
      then_p (attempt_call (RqClearMarker (t_id t)))
      (bind_p (run_attempts t resumeId run) (finish_turn sc t startHead run)))))"

section \<open>The session\<close>

definition log_line :: "string \<Rightarrow> unit sess_prog" where
  "log_line l = map_p (\<lambda>_. ()) (ask (RqLog l))"

definition repo_label :: "session_conf \<Rightarrow> string" where
  "repo_label sc = (if sc_fullName sc \<noteq> [] then sc_fullName sc else sc_cloneUrl sc)"

definition get_repository :: "session_conf \<Rightarrow> unit sess_prog" where
  "get_repository sc =
     bind_p (if sc_restored sc then gitp isRepo else Ret False) (\<lambda>present.
     if present then
       then_p (log_line ''$ git fetch origin (restored workspace)'')
       (then_p (gitp (configureCredentials (sc_git sc) (sc_pushUrl sc)))
       (gitp fetch_all))
     else
       then_p (attempt_call RqMkdir)
       (then_p (log_line (''$ git clone '' @ repo_label sc))
       (then_p (gitp (clone (sc_git sc) (sc_cloneUrl sc)))
       (then_p (gitp (configureCredentials (sc_git sc) (sc_pushUrl sc)))
       (emit (EvAction ''Cloned repo'' (repo_label sc)))))))"

definition checkout_report :: "string \<Rightarrow> branch_checkout \<Rightarrow> unit sess_prog" where
  "checkout_report branch c =
     (let base = (case co_base c of Some b \<Rightarrow> b | None \<Rightarrow> ''undefined'')
      in then_p (case co_note c of
                   Some n \<Rightarrow> when_p (n \<noteq> []) (log_line (''note: '' @ n))
                 | None \<Rightarrow> Ret ())
         (then_p (emit_when (co_recovered c) (EvThought (branch @
              '' was not found on the code host and was never confirmed pushed, so earlier commits on it that were not pushed are lost. Starting '' @
              branch @ '' again from '' @ base @ ''.'')))
         (log_line (case co_source c of
              CoRemote \<Rightarrow> ''checked out '' @ branch @ '' from origin''
            | CoKept \<Rightarrow> ''checked out the workspace's '' @ branch
            | CoCreated \<Rightarrow> ''created '' @ branch @ '' from '' @ base))))"

definition prepareRepository :: "session_conf \<Rightarrow> bool \<Rightarrow> unit sess_prog" where
  "prepareRepository sc detach =
     then_p (get_repository sc)
     (then_p (catch_p (map_p (\<lambda>_. ()) (attempt_call RqCoAuthorHook))
                (\<lambda>e. log_line (''note: co-author hook not installed: '' @ errorMessage e)))
     (if detach then map_p (\<lambda>_. ()) (gitp (git_checked [''checkout'', ''--detach'', baseRevision (sc_repo sc)]))
      else bind_p (gitp (checkoutSessionBranch (sc_git sc) (sc_repo sc))) (checkout_report (br_branchName (sc_repo sc)))))"

definition setup_message :: "run_error \<Rightarrow> string" where
  "setup_message e = (case e of SetupError m _ \<Rightarrow> m | _ \<Rightarrow> ''Workspace preparation failed: '' @ errorMessage e)"

definition setup_tail :: "run_error \<Rightarrow> string" where
  "setup_tail e = (case e of SetupError _ t \<Rightarrow> t | CommandError _ r \<Rightarrow> tail_chars 2000 (rr_stderr r) | _ \<Rightarrow> [])"

definition setup_detail :: "run_error \<Rightarrow> error_detail" where
  "setup_detail e =
     (let code = (if isRemoteAuthFailure e then ''noCodeAccess'' else ''environmentSetupFailed'');
          lead = (if code = ''noCodeAccess''
                  then ''The code host rejected Flow's repository credentials while preparing the workspace. '' @ setup_message e
                  else setup_message e)
      in \<lparr>ed_code = code,
          ed_message = (if setup_tail e \<noteq> [] then lead @ newline @ newline @ setup_tail e else lead)\<rparr>)"

definition prepare :: "session_conf \<Rightarrow> string option \<Rightarrow> bool sess_prog" where
  "prepare sc resumeId =
     then_p (setPhase PhSetup None)
     (then_p (attempt_call RqWriteRuntimeInfo)
     (catch_p
       (then_p (emit (EvStatus ''setup'' (Some (if sc_restored sc then ''Restoring workspace'' else ''Preparing workspace''))))
       (then_p (prepareRepository sc False)
       (then_p (gitp (configureIdentity (sc_git sc) (sc_identity sc)))
       (then_p (if sc_restored sc then Ret AnOk else attempt_call RqRunSetup)
       (then_p (if truthy resumeId then ask RqRestoreState else Ret AnOk)
       (then_p (if sc_cliEnv sc then attempt_call RqCliEnv else Ret AnOk)
       (then_p (emit (EvStatus ''ready'' None)) (Ret True))))))))
       (\<lambda>e. if e = TokenRejected then Throw e
            else
              then_p (emit (EvError (setup_detail e)))
              (then_p (case sc_turn sc of
                         Some t \<Rightarrow> complete t
                           \<lparr>tc_status = StError, tc_summary = None, tc_displayTitle = None, tc_harnessSessionId = None,
                            tc_commits = [], tc_pushed = False, tc_headSha = None, tc_diff = [],
                            tc_error = Some (setup_detail e), tc_scope = None\<rparr>
                       | None \<Rightarrow> Ret ())
              (Ret False)))))"

text \<open>The loop over the turns, for at most \<open>fuel\<close> of them.\<close>

primrec turn_loop :: "nat \<Rightarrow> session_conf \<Rightarrow> turn option \<Rightarrow> string option \<Rightarrow> unit sess_prog" where
  "turn_loop 0 sc pending resumeId = Ret ()"
| "turn_loop (Suc fuel) sc pending resumeId =
     bind_p stopped_now (\<lambda>stop.
     if stop \<noteq> None then Ret ()
     else
       bind_p (case pending of
                 Some t \<Rightarrow> Ret (Some t)
               | None \<Rightarrow> then_p (setPhase PhIdle None) (map_p an_turn (ask RqTake))) (\<lambda>t.
       case t of
         None \<Rightarrow> Ret ()
       | Some t' \<Rightarrow> bind_p (runTurn sc t' resumeId) (\<lambda>rid. turn_loop fuel sc None rid)))"

definition session_body :: "nat \<Rightarrow> session_conf \<Rightarrow> string option \<Rightarrow> nat sess_prog" where
  "session_body fuel sc resumeId =
     catch_p
       (bind_p (prepare sc resumeId) (\<lambda>ready.
          if \<not> ready then Ret 1 else then_p (turn_loop fuel sc (sc_turn sc) resumeId) (Ret 0)))
       (\<lambda>e. if e = TokenRejected then Ret 0
            else then_p (emit (EvError \<lparr>ed_code = ''internal'', ed_message = ''Runner error: '' @ errorMessage e\<rparr>)) (Ret 1))"

text \<open>\<open>run()\<close>, with the steps of its \<open>finally\<close> block that are awaited.\<close>

definition session_run :: "nat \<Rightarrow> session_conf \<Rightarrow> string option \<Rightarrow> nat sess_prog" where
  "session_run fuel sc resumeId =
     bind_p (session_body fuel sc resumeId) (\<lambda>code.
     then_p (ask RqCloseBuffer) (then_p (ask (RqFlush 30000)) (Ret code)))"

section \<open>Which requests the parts make\<close>

definition git_of :: "string set \<Rightarrow> request \<Rightarrow> bool" where
  "git_of S q = (case q of RqGit c \<Rightarrow> git_sub (cmd_args c) \<in> S | _ \<Rightarrow> False)"

lemma git_of_git [simp]: "git_of S (RqGit c) \<longleftrightarrow> git_sub (cmd_args c) \<in> S"
  by (simp add: git_of_def)

abbreviation READS :: "string set" where
  "READS \<equiv> {''rev-parse'', ''symbolic-ref'', ''diff'', ''status''}"

text \<open>The part never throws.\<close>

abbreviation returns :: "'e + 'x \<Rightarrow> bool" where
  "returns \<equiv> on_res (\<lambda>_. False) (\<lambda>_. True)"

named_theorems parts \<open>the requests and results of the parts of a session\<close>

lemma read_state_part [parts]: "track (\<lambda>_. git_of READS) (\<lambda>_. returns) (read_state sc) []"
  by (simp add: read_state_def gitp_def readWorkspaceState_def state_out_def noLock_def)

lemma head_part [parts]: "track (\<lambda>_. git_of READS) (\<lambda>_. returns) (gitp git_head) []"
  by (simp add: gitp_def git_head_def git_unchecked_def)

lemma track_attempt_call [simp]:
  "track I Q (attempt_call q) h \<longleftrightarrow>
     I h q \<and> (\<forall>a. Q (h @ [(q, a)]) (case a of AnFail e \<Rightarrow> Inl e | _ \<Rightarrow> Inr a))"
proof -
  have "track I Q (case a of AnFail e \<Rightarrow> Throw e | _ \<Rightarrow> Ret a) h' \<longleftrightarrow>
        Q h' (case a of AnFail e \<Rightarrow> Inl e | _ \<Rightarrow> Inr a)" for a h'
    by (cases a) auto
  then show ?thesis by (simp add: attempt_call_def)
qed

lemma track_emit [simp]: "track I Q (emit e) h \<longleftrightarrow> I h (RqEmit e) \<and> (\<forall>a. Q (h @ [(RqEmit e, a)]) (Inr ()))"
  by (simp add: emit_def)

lemma track_emit_when [simp]:
  "track I Q (emit_when c e) h \<longleftrightarrow> (if c then track I Q (emit e) h else Q h (Inr ()))"
  by (simp add: emit_when_def)

lemma track_setPhase [simp]:
  "track I Q (setPhase p i) h \<longleftrightarrow> I h (RqPhase p i) \<and> (\<forall>a. Q (h @ [(RqPhase p i, a)]) (Inr ()))"
  by (simp add: setPhase_def)

lemma track_stopped_now [simp]:
  "track I Q stopped_now h \<longleftrightarrow> I h RqStop \<and> (\<forall>a. Q (h @ [(RqStop, a)]) (Inr (an_stop a)))"
  by (simp add: stopped_now_def)

lemma read_prints_part [parts]:
  "track (\<lambda>_ q. \<exists>p. q = RqFile p) (\<lambda>_. returns) (read_prints sc paths) []"
proof -
  have "track (\<lambda>_ q. \<exists>p. q = RqFile p) (\<lambda>_. returns) (mapM_p (\<lambda>p. map_p an_file (ask (RqFile p))) ps) h" for ps h
    by (induction ps arbitrary: h) auto
  then show ?thesis by (simp add: read_prints_def)
qed

section \<open>Turns that must not publish\<close>

text \<open>A request that changes neither the repository nor its remote, and a completion that claims no change.\<close>

definition harmless :: "request \<Rightarrow> bool" where
  "harmless q =
     (case q of
        RqGit c \<Rightarrow> git_sub (cmd_args c) \<in> READS
      | RqComplete _ r \<Rightarrow> \<not> tc_pushed r \<and> tc_commits r = [] \<and> tc_headSha r = None \<and> tc_diff r = []
      | _ \<Rightarrow> True)"

lemma git_reads_harmless: "git_of READS q \<Longrightarrow> harmless q"
  by (cases q) (simp_all add: harmless_def git_of_def)

lemma harmless_simps [simp]:
  "harmless (RqEmit e)" "harmless RqStop" "harmless (RqPhase p i)" "harmless RqSaveState" "harmless (RqFlush n)"
  "harmless (RqFile f)" "harmless (RqClearMarker m)" "harmless (RqMarker m)" "harmless (RqHarness t' r)"
  "harmless (RqComplete m (unpublished_report run v out rid))"
  by (simp_all add: harmless_def unpublished_report_def)

lemma complete_harmless:
  "harmless (RqComplete (t_id t) r) \<Longrightarrow> track (\<lambda>_. harmless) (\<lambda>_ _. True) (complete t r) h"
  by (auto simp: complete_def on_res_iff)

lemma completeWithoutPublishing_harmless:
  "track (\<lambda>_. harmless) (\<lambda>_ _. True) (completeWithoutPublishing sc t sh v out run rid) h"
  unfolding completeWithoutPublishing_def Let_def
  by (rule bind_frame [OF read_state_part git_reads_harmless], assumption, simp,
      rule bind_frame [OF head_part git_reads_harmless], assumption, simp)
     (simp add: fail_with_def complete_harmless)

lemma begin_run_part [parts]:
  "track (\<lambda>_ q. git_of READS q \<or> (\<exists>p. q = RqFile p))
     (\<lambda>_. on_res (\<lambda>_. False) (\<lambda>run. tr_scope run = turnScope t \<and> tr_includeLeftovers run = t_includeLeftovers t \<and>
        tr_leftovers run = map fst (ws_dirty (tr_before run)))) (begin_run sc t) []"
  unfolding begin_run_def Let_def
  by (rule bind_frame [OF read_state_part], blast, simp, rule bind_frame [OF read_prints_part], blast) simp_all

definition asks_harness :: "request \<Rightarrow> bool" where
  "asks_harness q \<longleftrightarrow> q = RqStop \<or> (\<exists>t r. q = RqHarness t r) \<or> (\<exists>i. q = RqMarker i)"

lemma run_attempts_part [parts]: "track (\<lambda>_. asks_harness) (\<lambda>_ _. True) (run_attempts t rid run) []"
  by (auto simp: run_attempts_def runHarness_def asks_harness_def on_res_iff)

lemma turn_verdict_part [parts]: "track (\<lambda>_. asks_harness) (\<lambda>_. returns) (turn_verdict sc t a) []"
  by (auto simp: turn_verdict_def asks_harness_def)

lemma asks_harness_harmless: "asks_harness q \<Longrightarrow> harmless q"
  by (auto simp: asks_harness_def)

lemma setPhase_part [parts]: "track (\<lambda>_ q. q = RqPhase p i) (\<lambda>_. returns) (setPhase p i) []"
  by simp

lemma attempt_call_part [parts]: "track (\<lambda>_ q'. q' = q) (\<lambda>_ _. True) (attempt_call q) []"
  by simp

lemma report_error_part [parts]: "track (\<lambda>_ q. \<exists>e. q = RqEmit (EvError e)) (\<lambda>_. returns) (report_error v a) []"
  by (cases "snd v") (auto simp: report_error_def)

lemma finish_turn_harmless:
  assumes "tr_scope run = turnScope t" "\<not> publishes (turnScope t)"
  shows "track (\<lambda>_. harmless) (\<lambda>_ _. True) (finish_turn sc t sh run att) h"
  unfolding finish_turn_def Let_def then_p_def
  by (rule bind_frame [OF turn_verdict_part asks_harness_harmless], assumption, simp,
      rule bind_frame [OF report_error_part], force, simp)
     (simp add: publish_def assms completeWithoutPublishing_harmless)

lemma runTurn_harmless:
  assumes "\<not> publishes (turnScope t)"
  shows "only harmless (runTurn sc t rid)"
proof -
  have reads: "git_of READS q \<or> (\<exists>p. q = RqFile p) \<Longrightarrow> harmless q" for q
    using git_reads_harmless by auto
  show ?thesis
    unfolding runTurn_def then_p_def
    by (rule bind_frame [OF setPhase_part], simp, simp,
        rule bind_frame [OF head_part git_reads_harmless], assumption, simp,
        rule bind_frame [OF begin_run_part reads], assumption, simp,
        rule bind_frame [OF attempt_call_part], simp, simp,
        rule bind_frame [OF run_attempts_part asks_harness_harmless], assumption, simp)
       (simp add: finish_turn_harmless assms)
qed

text \<open>
  C4. A turn whose scope is not to write never stages, commits or pushes anything, whatever the agent,
  git and Flow answer, and is never reported as pushed or with commits.
\<close>

theorem unpublished_turn_harmless:
  assumes "\<not> publishes (turnScope t)" and "replay (runTurn sc t rid) tr = Some res"
  shows "\<forall>x \<in> set tr.
     case fst x of
       RqGit c \<Rightarrow> git_sub (cmd_args c) \<in> {''rev-parse'', ''symbolic-ref'', ''diff'', ''status''}
     | RqComplete i r \<Rightarrow> \<not> tc_pushed r \<and> tc_commits r = [] \<and> tc_headSha r = None \<and> tc_diff r = []
     | _ \<Rightarrow> True"
  using only_replay [OF runTurn_harmless [OF assms(1)] assms(2)] unfolding harmless_def .

section \<open>What a publishing turn commits\<close>

lemma foldl_update_map_of:
  "map_of (foldl (\<lambda>m p. AList.update p (f p) m) m ps) x = (if x \<in> set ps then Some (f x) else map_of m x)"
  by (induction ps arbitrary: m) (auto simp: update_conv')

lemma map_of_fingerprints:
  "map_of (fingerprintPaths hash fs ps) p = (if p \<in> set ps then Some (fingerprint hash (fs p)) else None)"
  by (simp add: fingerprintPaths_def foldl_update_map_of)

text \<open>The fingerprint taken of a path is that of an answer about the path.\<close>

definition print_seen :: "(string \<Rightarrow> string) \<Rightarrow> (request \<times> reply) list \<Rightarrow> string \<Rightarrow> string \<Rightarrow> bool" where
  "print_seen hash h p f \<longleftrightarrow> (\<exists>a. (RqFile p, a) \<in> set h \<and> f = fingerprint hash (an_file a))"

lemma read_files:
  "track (\<lambda>_ q. \<exists>p. q = RqFile p)
     (\<lambda>h. on_res (\<lambda>_. False) (\<lambda>es. list_all2 (\<lambda>p e. \<exists>a. (RqFile p, a) \<in> set h \<and> e = an_file a) ps es))
     (mapM_p (\<lambda>p. map_p an_file (ask (RqFile p))) ps :: fs_entry list sess_prog) h"
proof (induction ps arbitrary: h)
  case (Cons p ps)
  have "track (\<lambda>_ q. \<exists>p. q = RqFile p)
     (\<lambda>h'. on_res (\<lambda>_. False) (\<lambda>es. list_all2 (\<lambda>p e. \<exists>a. (RqFile p, a) \<in> set h' \<and> e = an_file a) (p # ps) (an_file r # es)))
     (mapM_p (\<lambda>p. map_p an_file (ask (RqFile p))) ps :: fs_entry list sess_prog) (h @ [(RqFile p, r)])" for r
  proof -
    have "(RqFile p, r) \<in> set (h @ [(RqFile p, r)])" by simp
    from track_conj [OF Cons.IH track_member [OF this]] show ?thesis
      by (rule track_mono) (auto simp: on_res_iff)
  qed
  then show ?case by simp
qed simp

lemma read_prints_seen [parts]:
  "track (\<lambda>_ q. \<exists>p. q = RqFile p)
     (\<lambda>h. on_res (\<lambda>_. False) (\<lambda>m. \<forall>p \<in> set paths. \<exists>f. map_of m p = Some f \<and> print_seen (sc_hash sc) h p f))
     (read_prints sc paths) []"
proof -
  have "\<exists>f. map_of (fingerprintPaths (sc_hash sc)
            (\<lambda>p. case map_of (zip paths es) p of Some e \<Rightarrow> e | None \<Rightarrow> FsError) paths) p = Some f \<and> print_seen (sc_hash sc) h p f"
    if all: "list_all2 (\<lambda>p e. \<exists>a. (RqFile p, a) \<in> set h \<and> e = an_file a) paths es" and p: "p \<in> set paths" for h es p
  proof -
    from all have len: "length paths = length es" by (rule list_all2_lengthD)
    with p obtain e where e: "map_of (zip paths es) p = Some e"
      by (metis map_of_zip_is_Some)
    then have "(p, e) \<in> set (zip paths es)" by (rule map_of_SomeD)
    with all have "\<exists>a. (RqFile p, a) \<in> set h \<and> e = an_file a"
      by (auto simp: list_all2_iff)
    with e p show ?thesis by (auto simp: map_of_fingerprints print_seen_def)
  qed
  then show ?thesis unfolding read_prints_def track_map
    by (intro track_mono [OF read_files]) (auto simp: on_res_iff)
qed

text \<open>The requests of the end of a publishing turn other than the commit itself.\<close>

definition after_commit :: "request \<Rightarrow> bool" where
  "after_commit q \<longleftrightarrow> git_of {''log'', ''push'', ''rev-parse'', ''diff''} q \<or> (\<exists>n. q = RqSleep n) \<or> (\<exists>e. q = RqEmit e) \<or>
     q = RqStop \<or> q = RqSaveState \<or> (\<exists>n. q = RqFlush n) \<or> (\<exists>p i. q = RqPhase p i) \<or> (\<exists>i r. q = RqComplete i r)"

lemma after_commit_simps [simp]:
  "after_commit (RqSleep n)" "after_commit (RqEmit e)" "after_commit RqStop" "after_commit RqSaveState"
  "after_commit (RqFlush n)" "after_commit (RqPhase p i)" "after_commit (RqComplete m r)"
  "after_commit (RqGit c) \<longleftrightarrow> git_sub (cmd_args c) \<in> {''log'', ''push'', ''rev-parse'', ''diff''}"
  by (auto simp: after_commit_def git_of_def)

lemma gitp_only: "only (\<lambda>c. git_sub (cmd_args c) \<in> S) p \<Longrightarrow> only (git_of S) (gitp p)"
  unfolding gitp_def by (rule only_lift) simp

lemma git_of_after: "git_of S q \<Longrightarrow> S \<subseteq> {''log'', ''push'', ''rev-parse'', ''diff''} \<Longrightarrow> after_commit q"
  by (cases q) (auto simp: git_of_def)

lemma push_uses: "only (\<lambda>c. git_sub (cmd_args c) \<in> {''push''}) (push g branch force)"
  by (simp add: push_def network_def push_args_def)

lemma commits_uses: "only (\<lambda>c. git_sub (cmd_args c) \<in> {''log''}) (commitsSince toIso since branch i signed)"
proof -
  have "track I (\<lambda>_ _. True) (parse_commits toIso branch i signed ls) h" for I ls h
    by (induction ls) (auto simp: Let_def on_res_iff split: option.splits elim: track_mono)
  then show ?thesis by (simp add: commitsSince_def)
qed

lemma diff_uses: "only (\<lambda>c. git_sub (cmd_args c) \<in> {''diff''}) (diffSummary base)"
  by (simp add: diffSummary_def)

lemma push_retry_after: "track (\<lambda>_. after_commit) (\<lambda>_ _. True) (push_retry g branch force n left) h"
proof (induction left arbitrary: n h)
  case 0
  show ?case by (simp, rule only_here [OF gitp_only [OF push_uses]]) (erule git_of_after, simp)
next
  case (Suc left)
  show ?case unfolding push_retry.simps
    by (rule catch_any, rule only_here [OF gitp_only [OF push_uses]], erule git_of_after, simp)
       (simp add: Suc.IH)
qed

lemma push_turn_after: "track (\<lambda>_. after_commit) (\<lambda>_ _. True) (push_turn sc t v) h"
  unfolding push_turn_def Let_def then_p_def
  by (intro catch_any bind_any)
     (auto simp: gitp_def checkBranchAllowed_def Let_def pushWithRetry_def push_retry_after fail_with_def)

lemma publish_commits_after:
  "track (\<lambda>_. after_commit) (\<lambda>_ _. True) (publish_commits sc t sh outcome run rid v) h"
proof -
  have commits: "track (\<lambda>_. after_commit) (\<lambda>_ _. True) (new_commits sc t sh) h" for h
    unfolding new_commits_def
    by (rule catch_any, rule only_here [OF gitp_only [OF commits_uses]], erule git_of_after, simp, simp)
  have diff: "track (\<lambda>_. after_commit) (\<lambda>_ _. True) (new_diff sc) h" for h
    unfolding new_diff_def
    by (rule catch_any, rule only_here [OF gitp_only [OF diff_uses]], erule git_of_after, simp, simp)
  have head: "track (\<lambda>_. after_commit) (\<lambda>_ _. True) (gitp git_head) h" for h
    by (simp add: gitp_def git_head_def git_unchecked_def)
  show ?thesis unfolding publish_commits_def then_p_def
    by (intro bind_any commits diff head) (auto simp: push_turn_after complete_def on_res_iff)
qed

text \<open>
  What may be staged or committed when the path \<open>p\<close> was dirty before the turn: an explicit list of
  paths, with \<open>p\<close> among them only after its content was seen to differ from before.
\<close>

definition own_step :: "(string \<Rightarrow> string) \<Rightarrow> turn_run \<Rightarrow> string \<Rightarrow> (request \<times> reply) list \<Rightarrow> request \<Rightarrow> bool" where
  "own_step hash run p h q \<longleftrightarrow>
     (\<forall>c. q = RqGit c \<longrightarrow> git_sub (cmd_args c) \<in> {''add'', ''commit''} \<longrightarrow>
        ''--pathspec-from-file=-'' \<in> set (cmd_args c) \<and>
        (\<exists>ps. cmd_stdin c = Some (pathspec_list ps) \<and>
           (p \<in> set ps \<longrightarrow> (\<exists>f. print_seen hash h p f \<and> map_of (tr_leftoverPrints run) p \<noteq> Some f))))"

lemma after_commit_own: "after_commit q \<Longrightarrow> own_step hash run p h q"
  by (auto simp: own_step_def)

lemma reads_own: "git_of READS q \<Longrightarrow> own_step hash run p h q"
  by (auto simp: own_step_def)

definition paths_git :: "string list \<Rightarrow> git_cmd \<Rightarrow> bool" where
  "paths_git ps c \<longleftrightarrow> git_sub (cmd_args c) \<in> {''diff'', ''rev-parse''} \<or>
     ''--pathspec-from-file=-'' \<in> set (cmd_args c) \<and> cmd_stdin c = Some (pathspec_list ps)"

lemma commitPaths_uses: "only (paths_git ps) (commitPaths m a ps)"
  by (auto simp: commitPaths_def git_full_def git_head_def paths_git_def)

lemma print_seen_append: "print_seen hash h p f \<Longrightarrow> print_seen hash (h' @ h @ h'') p f"
  by (auto simp: print_seen_def)

lemma commit_own_step:
  assumes left: "tr_leftovers run = map fst (ws_dirty (tr_before run))" and p: "p \<in> set (tr_leftovers run)"
  shows "track (own_step (sc_hash sc) run p) (\<lambda>_ _. True) (commit_own sc run m) h"
  unfolding commit_own_def Let_def
proof (rule bind_frame [OF read_state_part reads_own], assumption, simp, rule bind_frame [OF read_prints_seen])
  fix tr1 tr2 st now
  assume now: "on_res (\<lambda>_. False) (\<lambda>m. \<forall>p \<in> set (tr_leftovers run).
      \<exists>f. map_of m p = Some f \<and> print_seen (sc_hash sc) tr2 p f) (Inr now :: run_error + js_map)"
  let ?touched = "touchedLeftovers (tr_leftovers run) (tr_leftoverPrints run) now"
  let ?own = "own_paths run st ?touched"
  let ?h = "(h @ tr1) @ tr2"
  from now p obtain f where f: "map_of now p = Some f" "print_seen (sc_hash sc) tr2 p f" by auto
  have "map_of (ws_dirty (tr_before run)) p \<noteq> None"
    using left p by (auto simp: map_of_eq_None_iff)
  then have own: "p \<in> set ?own \<Longrightarrow> map_of (tr_leftoverPrints run) p \<noteq> Some f"
    using f(1) by (auto simp: own_paths_def touchedLeftovers_def)
  have step: "own_step (sc_hash sc) run p (?h @ tr) q" if "\<exists>c. q = RqGit c \<and> paths_git ?own c" for tr q
    using that own print_seen_append [OF f(2), of "h @ tr1" tr]
    by (auto simp: own_step_def paths_git_def)
  have paths: "only (\<lambda>q. \<exists>c. q = RqGit c \<and> paths_git ?own c) (gitp (commitPaths m (sc_identity sc) ?own))"
    unfolding gitp_def by (rule only_lift) (simp add: commitPaths_uses)
  have emits: "own_step (sc_hash sc) run p h' (RqEmit e)" for h' e by (simp add: own_step_def)
  show "track (own_step (sc_hash sc) run p) (\<lambda>_ _. True)
     (then_p (gitp (commitPaths m (sc_identity sc) ?own))
        (then_p (emit_when (filter (\<lambda>p. dirty_in st p \<and> p \<in> set ?touched) (tr_leftovers run) \<noteq> [])
             (changed_note (filter (\<lambda>p. dirty_in st p \<and> p \<in> set ?touched) (tr_leftovers run))))
        (emit_when (filter (\<lambda>p. dirty_in st p \<and> p \<notin> set ?touched) (tr_leftovers run) \<noteq> [])
             (left_note (filter (\<lambda>p. dirty_in st p \<and> p \<notin> set ?touched) (tr_leftovers run)))))) ?h"
    unfolding then_p_def by (rule bind_frame [OF paths], erule step) (simp_all add: emits)
qed (auto simp: own_step_def)

lemma turn_message_part [parts]: "track (\<lambda>_ q. q = RqStop) (\<lambda>_. returns) (turn_message sc v m) []"
  by (cases "fst v") (simp_all add: turn_message_def Let_def)

lemma fail_with_part [parts]: "track (\<lambda>_ q. \<exists>e. q = RqEmit e) (\<lambda>_. returns) (fail_with e v) []"
  by (simp add: fail_with_def)

lemma publish_own_step:
  assumes "tr_leftovers run = map fst (ws_dirty (tr_before run))" "p \<in> set (tr_leftovers run)"
    "\<not> tr_includeLeftovers run"
  shows "track (own_step (sc_hash sc) run p) (\<lambda>_ _. True) (publish sc t sh v out run rid) []"
proof -
  have commit: "track (own_step (sc_hash sc) run p) (\<lambda>_ _. True) (commit_changes sc run v m) h" for m h
    unfolding commit_changes_def commit_turn_def then_p_def using assms
    by (intro catch_any) (auto simp: commit_own_step [OF assms(1,2)] fail_with_def own_step_def intro!: bind_any)
  have "track (own_step (sc_hash sc) run p) (\<lambda>_ _. True) (publish_changes sc t sh v out run rid) []"
    unfolding publish_changes_def then_p_def
    by (rule bind_frame [OF setPhase_part], simp add: own_step_def, simp,
        rule bind_frame [OF turn_message_part], simp add: own_step_def, simp,
        rule bind_any [OF commit], rule track_mono [OF publish_commits_after after_commit_own])
       simp_all
  moreover have "harmless q \<Longrightarrow> own_step (sc_hash sc) run p h q" for h q
    by (cases q) (auto simp: harmless_def own_step_def)
  ultimately show ?thesis
    using track_mono [OF completeWithoutPublishing_harmless] by (auto simp: publish_def)
qed


section \<open>Every turn is reported, once and honestly\<close>

definition quiet :: "request \<Rightarrow> bool" where
  "quiet q \<longleftrightarrow> (\<forall>i r. q \<noteq> RqComplete i r)"

lemma quiet_simps [simp]:
  "quiet (RqGit c)" "quiet (RqSleep n)" "quiet (RqEmit e)" "quiet RqStop" "quiet RqSaveState" "quiet (RqFile f)"
  "quiet (RqFlush n)" "quiet (RqPhase p i)" "\<not> quiet (RqComplete m r)"
  by (auto simp: quiet_def)

definition pushed_ok :: "(request \<times> reply) list \<Rightarrow> bool" where
  "pushed_ok h \<longleftrightarrow> (\<exists>c a. (RqGit c, a) \<in> set h \<and> git_sub (cmd_args c) = ''push'' \<and> rr_code (an_run a) = 0)"

definition branch_allowed :: "session_conf \<Rightarrow> bool" where
  "branch_allowed sc \<longleftrightarrow> br_existingBranch (sc_repo sc) \<or>
     prefix (if br_branchPrefix (sc_repo sc) \<noteq> [] then br_branchPrefix (sc_repo sc) else sc_branchPrefix sc)
       (br_branchName (sc_repo sc))"

lemma pushed_ok_simps [simp]:
  "\<not> pushed_ok []" "pushed_ok (h @ h') \<longleftrightarrow> pushed_ok h \<or> pushed_ok h'"
  "pushed_ok (x # h) \<longleftrightarrow>
     (\<exists>c. fst x = RqGit c \<and> git_sub (cmd_args c) = ''push'' \<and> rr_code (an_run (snd x)) = 0) \<or> pushed_ok h"
  by (auto simp: pushed_ok_def) (metis prod.collapse)

lemma git_sub_push [simp]: "git_sub (push_args g b f) = ''push''"
  by (simp add: push_args_def)

lemma push_part [parts]:
  "track (\<lambda>_. quiet) (\<lambda>h. on_res (\<lambda>_. True) (\<lambda>_. pushed_ok h)) (gitp (push g b f)) h"
  by (auto simp: gitp_def push_def network_def git_unchecked_def)

lemma push_retry_part:
  "track (\<lambda>_. quiet) (\<lambda>h. on_res (\<lambda>_. True) (\<lambda>_. pushed_ok h)) (push_retry g b f n left) h"
proof (induction left arbitrary: n h)
  case 0
  show ?case using push_part by simp
next
  case (Suc left)
  show ?case unfolding push_retry.simps track_catch
    by (rule track_mono [OF push_part]) (auto simp: on_res_iff Suc.IH)
qed

definition failed_status :: "turn_status \<Rightarrow> bool" where
  "failed_status st \<longleftrightarrow> st = StError \<or> st = StStopped"

lemma checkBranchAllowed_part:
  "track (\<lambda>_ _. False) (\<lambda>_. on_res (\<lambda>_. True) (\<lambda>_. branch_allowed sc))
     (gitp (checkBranchAllowed (sc_repo sc) (sc_branchPrefix sc) (Ret ()))) []"
  by (auto simp: gitp_def checkBranchAllowed_def branch_allowed_def Let_def)

lemma fail_with_failed:
  "track (\<lambda>_ q. \<exists>e. q = RqEmit e) (\<lambda>_. on_res (\<lambda>_. False) (\<lambda>v'. failed_status (fst v'))) (fail_with e v) h"
  by (cases "fst v") (auto simp: fail_with_def failed_status_def)

lemma push_turn_part [parts]:
  "track (\<lambda>_. quiet)
     (\<lambda>h. on_res (\<lambda>_. False) (\<lambda>pv. if fst pv then pushed_ok h \<and> branch_allowed sc else failed_status (fst (snd pv))))
     (push_turn sc t v) []"
  (is "track _ ?Q _ _")
proof -
  have failed: "track (\<lambda>_. quiet) (\<lambda>_. on_res (\<lambda>_. False) (\<lambda>x. failed_status (fst x))) (fail_with e v) h" for e h
    by (rule track_mono [OF fail_with_failed]) auto
  have pushed: "track (\<lambda>_. quiet) (\<lambda>h. on_res (\<lambda>_. True) (\<lambda>pv. fst pv \<and> pushed_ok h))
     (then_p (pushWithRetry sc b f) (then_p (emit e) (Ret (True, v)))) h" for b f e h
    unfolding track_then pushWithRetry_def by (rule track_mono [OF push_retry_part]) (auto simp: on_res_iff)
  have "track (\<lambda>_. quiet) (\<lambda>h. on_res (\<lambda>_. True) (\<lambda>pv. fst pv \<and> pushed_ok h \<and> branch_allowed sc))
     (then_p (gitp (checkBranchAllowed (sc_repo sc) (sc_branchPrefix sc) (Ret ())))
       (then_p (pushWithRetry sc b f) (then_p (emit e) (Ret (True, v))))) []" for b f e
    unfolding then_p_def [of "gitp _"]
    by (rule bind_frame [OF checkBranchAllowed_part], blast, simp, rule track_mono [OF pushed]) (auto simp: on_res_iff)
  then show ?thesis
    unfolding push_turn_def Let_def track_catch by (rule track_mono) (auto simp: on_res_iff failed)
qed

definition is_completion :: "request \<Rightarrow> bool" where
  "is_completion q \<longleftrightarrow> \<not> quiet q"

definition honest :: "session_conf \<Rightarrow> (request \<times> reply) list \<Rightarrow> turn_complete \<Rightarrow> bool" where
  "honest sc h r \<longleftrightarrow>
     (tc_pushed r \<longrightarrow> pushed_ok h \<and> branch_allowed sc) \<and>
     (tc_commits r \<noteq> [] \<and> \<not> tc_pushed r \<longrightarrow> failed_status (tc_status r))"

definition report_step :: "session_conf \<Rightarrow> (request \<times> reply) list \<Rightarrow> request \<Rightarrow> bool" where
  "report_step sc h q \<longleftrightarrow>
     (\<forall>i r. q = RqComplete i r \<longrightarrow> list_all (\<lambda>x. quiet (fst x)) h \<and> honest sc h r)"

definition reported_once :: "(request \<times> reply) list \<Rightarrow> bool" where
  "reported_once h \<longleftrightarrow> length (filter (\<lambda>x. is_completion (fst x)) h) = 1"

lemma quiet_report_step: "quiet q \<Longrightarrow> report_step sc h q"
  by (auto simp: report_step_def)

lemma reported_after_quiet: "list_all (\<lambda>x. quiet (fst x)) h \<Longrightarrow> filter (\<lambda>x. is_completion (fst x)) h = []"
  by (induction h) (auto simp: is_completion_def)

lemma complete_reports:
  assumes "list_all (\<lambda>x. quiet (fst x)) h" "\<And>h'. honest sc (h @ h') r"
  shows "track (report_step sc) (\<lambda>h _. reported_once h) (complete t r) h"
proof -
  have none: "filter (\<lambda>x. is_completion (fst x)) h = []" by (rule reported_after_quiet [OF assms(1)])
  show ?thesis
    unfolding complete_def
    by (auto simp: report_step_def reported_once_def is_completion_def assms none [unfolded is_completion_def] on_res_iff
        split: reply.splits)
qed

lemma git_quiet: "only quiet (gitp p)"
  unfolding gitp_def by (rule only_lift) (simp add: only_all)

lemma new_commits_part [parts]: "track (\<lambda>_. quiet) (\<lambda>_. returns) (new_commits sc t sh) []"
  unfolding new_commits_def by (rule catch_frame [OF git_quiet]) simp_all

lemma new_diff_part [parts]: "track (\<lambda>_. quiet) (\<lambda>_. returns) (new_diff sc) []"
  unfolding new_diff_def by (rule catch_frame [OF git_quiet]) simp_all

lemma read_state_quiet [parts]: "track (\<lambda>_. quiet) (\<lambda>_. returns) (read_state sc) []"
  by (simp add: read_state_def gitp_def readWorkspaceState_def state_out_def)

lemma head_quiet [parts]: "track (\<lambda>_. quiet) (\<lambda>_. returns) (gitp git_head) []"
  by (simp add: gitp_def git_head_def git_unchecked_def)

lemma read_prints_quiet [parts]: "track (\<lambda>_. quiet) (\<lambda>_. returns) (read_prints sc ps) []"
  by (rule track_mono [OF read_prints_part]) auto

lemma commit_turn_quiet: "only quiet (commit_turn sc run m)"
proof -
  have own: "track (\<lambda>_. quiet) (\<lambda>_ _. True) (commit_own sc run m) []"
    unfolding commit_own_def Let_def then_p_def
    by (rule bind_frame [OF read_state_quiet], assumption, simp,
        rule bind_frame [OF read_prints_quiet], assumption, simp,
        rule bind_frame [OF git_quiet], assumption) simp_all
  have all: "track (\<lambda>_. quiet) (\<lambda>_ _. True) (commit_included sc run m) []"
    unfolding commit_included_def Let_def then_p_def
    by (rule bind_frame [OF read_state_quiet], assumption, simp,
        rule bind_frame [OF git_quiet], assumption) simp_all
  have plain: "track (\<lambda>_. quiet) (\<lambda>_ _. True) (map_p (\<lambda>_. ()) (gitp (commitAll m (sc_identity sc)))) []"
    unfolding map_p_def by (rule bind_frame [OF git_quiet], assumption) simp_all
  show ?thesis by (simp add: commit_turn_def own all plain del: track_map)
qed

lemma commit_changes_part [parts]: "track (\<lambda>_. quiet) (\<lambda>_. returns) (commit_changes sc run v m) []"
  unfolding commit_changes_def track_catch then_p_def track_bind
  by (rule track_frame [OF commit_turn_quiet], assumption) (auto simp: on_res_iff fail_with_def)

lemma publish_commits_reports:
  assumes h: "list_all (\<lambda>x. quiet (fst x)) h"
  shows "track (report_step sc) (\<lambda>h _. reported_once h) (publish_commits sc t sh out run rid v) h"
  unfolding publish_commits_def
proof (rule bind_frame [OF new_commits_part quiet_report_step], assumption, simp)
  fix tr1 :: "(request \<times> reply) list" and commits :: "coding_commit list"
  assume tr1: "list_all (\<lambda>x. quiet (fst x)) tr1"
  define R where "R tr pv \<longleftrightarrow> (if fst pv then pushed_ok tr \<and> branch_allowed sc else commits = [] \<or> failed_status (fst (snd pv)))"
    for tr and pv :: "bool \<times> verdict"
  have push: "track (\<lambda>_. quiet) (\<lambda>tr. on_res (\<lambda>_. False) (R tr)) (if commits \<noteq> [] then push_turn sc t v else Ret (False, v)) []"
  proof -
    have "track (\<lambda>_. quiet) (\<lambda>tr. on_res (\<lambda>_. False) (R tr)) (push_turn sc t v) []"
      by (rule track_mono [OF push_turn_part]) (auto simp: R_def on_res_iff)
    then show ?thesis by (simp add: R_def)
  qed
  show "track (report_step sc) (\<lambda>h _. reported_once h)
     (bind_p (if commits \<noteq> [] then push_turn sc t v else Ret (False, v)) (\<lambda>pv.
      bind_p (gitp git_head) (\<lambda>headSha. bind_p (new_diff sc) (\<lambda>diff.
      then_p (ask RqSaveState)
        (complete t (published_report run (snd pv) out rid commits (fst pv) headSha diff)))))) (h @ tr1)"
    apply (rule bind_frame [OF push quiet_report_step], assumption, simp)
    apply (rule bind_frame [OF head_quiet quiet_report_step], assumption, simp)
    apply (rule bind_frame [OF new_diff_part quiet_report_step], assumption, simp)
    apply (simp add: quiet_report_step)
    apply (intro allI complete_reports)
     apply (simp add: h tr1)
    apply (auto simp: honest_def published_report_def R_def split: if_splits)
    done
qed

lemma publish_reports:
  "track (report_step sc) (\<lambda>h _. reported_once h) (publish sc t sh v out run rid) []"
proof -
  have "track (report_step sc) (\<lambda>h _. reported_once h) (publish_changes sc t sh v out run rid) []"
    unfolding publish_changes_def then_p_def
    by (rule bind_frame [OF setPhase_part], simp add: report_step_def, simp,
        rule bind_frame [OF turn_message_part], simp add: report_step_def, simp,
        rule bind_frame [OF commit_changes_part quiet_report_step], assumption, simp,
        rule publish_commits_reports)
       (auto simp: list_all_iff)
  moreover have "track (report_step sc) (\<lambda>h _. reported_once h) (completeWithoutPublishing sc t sh v out run rid) []"
    unfolding completeWithoutPublishing_def Let_def
    apply (rule bind_frame [OF read_state_quiet quiet_report_step], assumption, simp)
    apply (rule bind_frame [OF head_quiet quiet_report_step], assumption, simp)
    apply (simp add: fail_with_def quiet_report_step)
    apply (auto intro!: complete_reports simp: honest_def unpublished_report_def)
    done
  ultimately show ?thesis by (simp add: publish_def)
qed


section \<open>Sample runs\<close>

definition sample_identity :: bootstrap_git where
  "sample_identity = \<lparr>bg_authorName = ''A'', bg_authorEmail = [], bg_committerName = [], bg_committerEmail = [],
     bg_signingFormat = [], bg_signingPublicKey = [], bg_coAuthorTrailer = []\<rparr>"

definition sample_session :: session_conf where
  "sample_session = \<lparr>sc_git = sample_conf, sc_repo = sample_repo, sc_identity = sample_identity, sc_fullName = ''o/r'',
     sc_cloneUrl = ''u'', sc_pushUrl = [], sc_branchPrefix = ''flow/'', sc_restored = False, sc_turn = None, sc_cliEnv = False,
     sc_pushRetries = 3, sc_turnTimeoutSeconds = 60, sc_hash = id, sc_toIso = id, sc_dots = CHR ''~''\<rparr>"

definition sample_turn :: "string \<Rightarrow> turn" where
  "sample_turn scope = \<lparr>t_id = ''t'', t_prompt = ''p'', t_kind = ''followUp'', t_scope = Some scope, t_includeLeftovers = False\<rparr>"

definition sample_done :: harness_attempt where
  "sample_done = no_attempt\<lparr>ha_outcome := (ha_outcome no_attempt)\<lparr>to_completed := True\<rparr>, ha_exitCode := 0\<rparr>"

fun sample_answers :: "request \<Rightarrow> reply" where
  "sample_answers (RqGit c) = AnRun (answer 0 [])"
| "sample_answers (RqFile p) = AnFile (FsFile 0 ''same'')"
| "sample_answers (RqHarness t r) = AnAttempt sample_done"
| "sample_answers _ = AnOk"

theorem unpublished_turn_harmless_witness:
  "list_all (\<lambda>x. harmless (fst x)) (fst (steady sample_answers (runTurn sample_session (sample_turn ''readOnly'') None)))"
proof -
  have "\<not> publishes (turnScope (sample_turn ''readOnly''))"
    by (simp add: turnScope_def sample_turn_def SCOPES_def publishes_def)
  from unpublished_turn_harmless [OF this steady_replay] show ?thesis
    unfolding list_all_iff harmless_def .
qed

definition sample_run :: turn_run where
  "sample_run = \<lparr>tr_scope = ScopeWrite, tr_before = sample_before, tr_leftovers = [''x''],
     tr_leftoverPrints = [(''x'', ''f:same'')], tr_includeLeftovers = False\<rparr>"

abbreviation sample_publish :: "unit sess_prog" where
  "sample_publish \<equiv> publish sample_session (sample_turn ''write'') ''h'' (StSuccess, None) (ha_outcome sample_done) sample_run None"

definition leaves_out :: "string \<Rightarrow> request \<Rightarrow> bool" where
  "leaves_out p q = (case q of
     RqGit c \<Rightarrow> if git_sub (cmd_args c) \<in> {''add'', ''commit''}
                then \<exists>ps. cmd_stdin c = Some (pathspec_list ps) \<and> p \<notin> set ps else True
   | _ \<Rightarrow> True)"



end
