(* ===== verification/Dashboard_Layout.thy ===== *)
theory Dashboard_Layout
  imports Flow_Prelude Complex_Main
begin

text \<open>
  \<open>web/src/components/dashboards/dashboard-layout.ts\<close>: the layout of a dashboard's widgets in rows and
  columns. Fractions are exact; for rows of at most four columns the source's floating-point quotients
  fall on the same side of the thresholds. A number used as an index that is not a natural number
  behaves as one that is out of range.
\<close>

section \<open>Layouts\<close>

datatype layout_width = WOne | WHalf | WTwoThirds | WFull

datatype layout_height = HOne | HTwo

record layout_item =
  li_id :: string
  li_widgetId :: string
  li_height :: layout_height

record layout_column =
  lc_id :: string
  lc_width :: layout_width
  lc_items :: "layout_item list"

record layout_row =
  lr_id :: string
  lr_columns :: "layout_column list"

type_synonym layout = "layout_row list"

record 'p dashboard_widget =
  dw_id :: string
  dw_position :: int
  dw_width :: int
  dw_payload :: 'p

definition maxColumnsPerRow :: nat where
  "maxColumnsPerRow = 4"

fun fractionForWidth :: "layout_width \<Rightarrow> rat" where
  "fractionForWidth WOne = 1 / 4"
| "fractionForWidth WHalf = 1 / 2"
| "fractionForWidth WTwoThirds = 2 / 3"
| "fractionForWidth WFull = 1"

definition widthFromFraction :: "rat \<Rightarrow> layout_width" where
  "widthFromFraction fraction =
     (if fraction \<ge> 9 / 10 then WFull
      else if fraction \<ge> 6 / 10 then WTwoThirds
      else if fraction \<ge> 4 / 10 then WHalf
      else WOne)"

definition prune_columns :: "layout_column list \<Rightarrow> layout_column list" where
  "prune_columns cs =
     filter (\<lambda>c. lc_items c \<noteq> []) (map (\<lambda>c. c\<lparr>lc_items := filter (\<lambda>i. li_widgetId i \<noteq> []) (lc_items c)\<rparr>) cs)"

definition normalize_columns :: "layout_column list \<Rightarrow> layout_column list" where
  "normalize_columns cs =
     (let sum = sum_list (map (\<lambda>c. fractionForWidth (lc_width c)) cs);
          all = (if sum = 0 then 1 else sum);
          normalized = map (\<lambda>c. c\<lparr>lc_width := widthFromFraction (fractionForWidth (lc_width c) / all)\<rparr>) cs
      in if length normalized = 1 then [(hd normalized)\<lparr>lc_width := WFull\<rparr>] else normalized)"

fun autofixWidgets :: "layout \<Rightarrow> layout" where
  "autofixWidgets [] = []"
| "autofixWidgets (row # rows) =
     (let columns = prune_columns (lr_columns row)
      in if columns = [] then autofixWidgets rows
         else row\<lparr>lr_columns := normalize_columns columns\<rparr> # autofixWidgets rows)"

definition row_name :: "'a list \<Rightarrow> string" where
  "row_name rows = ''row_'' @ nat_str (length rows)"

definition item_for :: "string \<Rightarrow> layout_height \<Rightarrow> layout_item" where
  "item_for w h = \<lparr>li_id = ''item_'' @ w, li_widgetId = w, li_height = h\<rparr>"

definition column_for :: "string \<Rightarrow> layout_width \<Rightarrow> layout_column" where
  "column_for w width = \<lparr>lc_id = ''column_'' @ w, lc_width = width, lc_items = [item_for w HOne]\<rparr>"

text \<open>One step of the loop over the widgets: the rows so far, of which the last is open, and its used width.\<close>

definition place_widget :: "layout \<times> rat \<Rightarrow> 'p dashboard_widget \<Rightarrow> layout \<times> rat" where
  "place_widget st w =
     (let rows = fst st; used = snd st;
          width = (if dw_width w = 2 then WFull else WHalf);
          fraction = fractionForWidth width;
          fresh = (rows = [] \<or> used + fraction > 1001 / 1000 \<or> length (lr_columns (last rows)) \<ge> maxColumnsPerRow);
          open = (if fresh then \<lparr>lr_id = row_name rows, lr_columns = []\<rparr> else last rows);
          done = (if fresh then rows else butlast rows)
      in (done @ [open\<lparr>lr_columns := lr_columns open @ [column_for (dw_id w) width]\<rparr>],
          (if fresh then 0 else used) + fraction))"

definition widgetsToLayout :: "'p dashboard_widget list \<Rightarrow> layout" where
  "widgetsToLayout widgets = autofixWidgets (fst (foldl place_widget ([], 0) (sort_key dw_position widgets)))"

definition traverseLayoutItems :: "layout \<Rightarrow> string list" where
  "traverseLayoutItems rows =
     concat (map (\<lambda>row. concat (map (\<lambda>column. map li_widgetId (lc_items column)) (lr_columns row))) rows)"

text \<open>The items in order, each with the width of its column.\<close>

definition flat_items :: "layout \<Rightarrow> (layout_item \<times> layout_width) list" where
  "flat_items rows =
     concat (map (\<lambda>row. concat (map (\<lambda>column. map (\<lambda>i. (i, lc_width column)) (lc_items column)) (lr_columns row))) rows)"

definition flat_width :: "layout_width \<Rightarrow> int" where
  "flat_width w = (if w = WFull \<or> w = WTwoThirds then 2 else 1)"

fun collect_widgets ::
  "(string \<Rightarrow> 'p dashboard_widget option) \<Rightarrow> int \<Rightarrow> (layout_item \<times> layout_width) list \<Rightarrow> 'p dashboard_widget list" where
  "collect_widgets byId position [] = []"
| "collect_widgets byId position ((i, w) # rest) =
     (case byId (li_widgetId i) of
        None \<Rightarrow> collect_widgets byId position rest
      | Some widget \<Rightarrow>
          widget\<lparr>dw_position := position, dw_width := flat_width w\<rparr> # collect_widgets byId (position + 1) rest)"

definition layoutToWidgets :: "layout \<Rightarrow> (string \<Rightarrow> 'p dashboard_widget option) \<Rightarrow> 'p dashboard_widget list" where
  "layoutToWidgets rows byId = collect_widgets byId 0 (flat_items rows)"

section \<open>Editing\<close>

definition push_row :: "layout \<Rightarrow> string \<Rightarrow> layout_width \<Rightarrow> layout" where
  "push_row rows w width = rows @ [\<lparr>lr_id = row_name rows, lr_columns = [column_for w width]\<rparr>]"

definition push_column :: "layout_row \<Rightarrow> string \<Rightarrow> layout_row" where
  "push_column row w = row\<lparr>lr_columns := lr_columns row @ [column_for w WOne]\<rparr>"

definition push_item :: "nat \<Rightarrow> layout_row \<Rightarrow> string \<Rightarrow> layout_row" where
  "push_item c row w =
     row\<lparr>lr_columns := (lr_columns row)[c := (lr_columns row ! c)\<lparr>lc_items := lc_items (lr_columns row ! c) @ [item_for w HOne]\<rparr>]\<rparr>"

definition addWidgetToLayout :: "layout \<Rightarrow> string \<Rightarrow> nat option \<Rightarrow> nat option \<Rightarrow> layout" where
  "addWidgetToLayout rows w at_row at_column =
     (case at_row of
        None \<Rightarrow> autofixWidgets (push_row rows w WFull)
      | Some r \<Rightarrow>
          if length rows \<le> r then autofixWidgets (push_row rows w WFull)
          else
            (let row = rows ! r; inside = (case at_column of Some c \<Rightarrow> c < length (lr_columns row) | None \<Rightarrow> False)
             in if inside then autofixWidgets (rows[r := push_item (the at_column) row w])
                else if length (lr_columns row) \<ge> maxColumnsPerRow then autofixWidgets (push_row rows w WOne)
                else autofixWidgets (rows[r := push_column row w])))"

text \<open>The first element that can be changed, changed; the search loops of the editing functions return there.\<close>

fun map_first :: "('a \<Rightarrow> 'a option) \<Rightarrow> 'a list \<Rightarrow> 'a list option" where
  "map_first f [] = None"
| "map_first f (x # xs) = (case f x of Some y \<Rightarrow> Some (y # xs) | None \<Rightarrow> map_option (Cons x) (map_first f xs))"

definition insert_after :: "string \<Rightarrow> (layout_item \<Rightarrow> layout_item) \<Rightarrow> layout_column \<Rightarrow> layout_column option" where
  "insert_after target mk column =
     map_option (\<lambda>i. column\<lparr>lc_items := insert_at (Suc i) (mk (lc_items column ! i)) (lc_items column)\<rparr>)
       (find_index (\<lambda>i. li_widgetId i = target) (lc_items column))"

definition insert_after_in_rows :: "string \<Rightarrow> (layout_item \<Rightarrow> layout_item) \<Rightarrow> layout \<Rightarrow> layout option" where
  "insert_after_in_rows target mk rows =
     map_first (\<lambda>row. map_option (\<lambda>cs. row\<lparr>lr_columns := cs\<rparr>) (map_first (insert_after target mk) (lr_columns row))) rows"

definition duplicateWidgetInLayout :: "layout \<Rightarrow> string \<Rightarrow> string \<Rightarrow> layout" where
  "duplicateWidgetInLayout rows source w =
     (case insert_after_in_rows source (\<lambda>i. item_for w (li_height i)) rows of
        Some rows' \<Rightarrow> autofixWidgets rows'
      | None \<Rightarrow> addWidgetToLayout rows w None None)"

definition deleteWidgetFromLayout :: "layout \<Rightarrow> string \<Rightarrow> layout" where
  "deleteWidgetFromLayout rows w =
     autofixWidgets
       (map (\<lambda>row. row\<lparr>lr_columns :=
          map (\<lambda>c. c\<lparr>lc_items := filter (\<lambda>i. li_widgetId i \<noteq> w) (lc_items c)\<rparr>) (lr_columns row)\<rparr>) rows)"

datatype drop_target = OnRow nat | OnColumn nat nat | OnWidget string

definition moveWidgetInLayout :: "layout \<Rightarrow> string \<Rightarrow> drop_target \<Rightarrow> layout" where
  "moveWidgetInLayout rows source target =
     (let working = deleteWidgetFromLayout rows source
      in case target of
           OnRow r \<Rightarrow> addWidgetToLayout working source (Some r) None
         | OnColumn r c \<Rightarrow> addWidgetToLayout working source (Some r) (Some c)
         | OnWidget w \<Rightarrow>
             (case insert_after_in_rows w (\<lambda>_. item_for source HOne) working of
                Some rows' \<Rightarrow> autofixWidgets rows'
              | None \<Rightarrow> addWidgetToLayout working source None None))"

section \<open>Which widgets a layout holds\<close>

definition column_ids :: "layout_column list \<Rightarrow> string list" where
  "column_ids cs = concat (map (\<lambda>c. map li_widgetId (lc_items c)) cs)"

lemma column_ids_simps [simp]:
  "column_ids [] = []" "column_ids (c # cs) = map li_widgetId (lc_items c) @ column_ids cs"
  "column_ids (cs @ ds) = column_ids cs @ column_ids ds"
  by (simp_all add: column_ids_def)

lemma traverse_simps [simp]:
  "traverseLayoutItems [] = []"
  "traverseLayoutItems (row # rows) = column_ids (lr_columns row) @ traverseLayoutItems rows"
  "traverseLayoutItems (rows @ rows') = traverseLayoutItems rows @ traverseLayoutItems rows'"
  by (simp_all add: traverseLayoutItems_def column_ids_def)

abbreviation named :: "string list \<Rightarrow> string list" where
  "named \<equiv> filter (\<lambda>w. w \<noteq> [])"

lemma prune_ids: "column_ids (prune_columns cs) = named (column_ids cs)"
  by (induction cs) (auto simp: prune_columns_def filter_map comp_def)

lemma normalize_ids: "column_ids (normalize_columns cs) = column_ids cs"
proof -
  have "column_ids (map (\<lambda>c. c\<lparr>lc_width := f c\<rparr>) cs) = column_ids cs" for f
    by (induction cs) simp_all
  then show ?thesis by (cases cs) (auto simp: normalize_columns_def Let_def)
qed

lemma traverse_autofix [simp]: "traverseLayoutItems (autofixWidgets rows) = named (traverseLayoutItems rows)"
proof (induction rows)
  case (Cons row rows)
  then show ?case
    using prune_ids [of "lr_columns row"] by (auto simp: Let_def normalize_ids)
qed simp

lemma column_for_ids [simp]: "map li_widgetId (lc_items (column_for w width)) = [w]"
  by (simp add: column_for_def item_for_def)

lemma item_for_id [simp]: "li_widgetId (item_for w h) = w"
  by (simp add: item_for_def)

lemma mset_column_update:
  "c < length cs \<Longrightarrow> mset (column_ids (cs[c := (cs ! c)\<lparr>lc_items := lc_items (cs ! c) @ [item_for w h]\<rparr>])) =
     add_mset w (mset (column_ids cs))"
  by (induction cs arbitrary: c) (auto split: nat.splits)

lemma mset_row_update:
  "r < length rows \<Longrightarrow> mset (column_ids (lr_columns row)) = add_mset w (mset (column_ids (lr_columns (rows ! r)))) \<Longrightarrow>
     mset (traverseLayoutItems (rows[r := row])) = add_mset w (mset (traverseLayoutItems rows))"
  by (induction rows arbitrary: r) (auto split: nat.splits)

lemma mset_add:
  "mset (traverseLayoutItems (addWidgetToLayout rows w r c)) = mset (named (w # traverseLayoutItems rows))"
proof -
  have "mset (traverseLayoutItems (autofixWidgets rows')) = mset (named (w # traverseLayoutItems rows))"
    if "mset (traverseLayoutItems rows') = add_mset w (mset (traverseLayoutItems rows))" for rows'
    using that by (metis mset_filter traverse_autofix mset.simps(2))
  moreover have "mset (traverseLayoutItems (push_row rows w width)) = add_mset w (mset (traverseLayoutItems rows))" for width
    by (simp add: push_row_def)
  moreover have "mset (traverseLayoutItems (rows[i := push_column (rows ! i) w])) = add_mset w (mset (traverseLayoutItems rows))"
    if "i < length rows" for i
    using that by (intro mset_row_update) (simp_all add: push_column_def)
  moreover have "mset (traverseLayoutItems (rows[i := push_item j (rows ! i) w])) = add_mset w (mset (traverseLayoutItems rows))"
    if "i < length rows" "j < length (lr_columns (rows ! i))" for i j
    using that by (intro mset_row_update) (simp_all add: push_item_def mset_column_update)
  ultimately show ?thesis
    by (auto simp: addWidgetToLayout_def Let_def split: option.splits)
qed

lemma traverse_delete:
  "traverseLayoutItems (deleteWidgetFromLayout rows w) = filter (\<lambda>x. x \<noteq> w \<and> x \<noteq> []) (traverseLayoutItems rows)"
proof -
  have "column_ids (map (\<lambda>c. c\<lparr>lc_items := filter (\<lambda>i. li_widgetId i \<noteq> w) (lc_items c)\<rparr>) cs) =
        filter (\<lambda>x. x \<noteq> w) (column_ids cs)" for cs
    by (induction cs) (simp_all add: filter_map comp_def)
  then have "traverseLayoutItems (map (\<lambda>row. row\<lparr>lr_columns :=
       map (\<lambda>c. c\<lparr>lc_items := filter (\<lambda>i. li_widgetId i \<noteq> w) (lc_items c)\<rparr>) (lr_columns row)\<rparr>) rows) =
     filter (\<lambda>x. x \<noteq> w) (traverseLayoutItems rows)"
    by (induction rows) simp_all
  then show ?thesis by (simp add: deleteWidgetFromLayout_def conj_commute)
qed

lemma map_first_Some:
  "map_first f xs = Some ys \<Longrightarrow> \<exists>us x y vs. xs = us @ x # vs \<and> f x = Some y \<and> ys = us @ y # vs"
proof (induction xs arbitrary: ys)
  case (Cons x xs)
  show ?case
  proof (cases "f x")
    case None
    with Cons.prems obtain zs where zs: "map_first f xs = Some zs" "ys = x # zs" by auto
    from Cons.IH [OF zs(1)] obtain us a b vs where "xs = us @ a # vs" "f a = Some b" "zs = us @ b # vs" by blast
    with zs(2) show ?thesis by (intro exI [of _ "x # us"] exI [of _ a] exI [of _ b] exI [of _ vs]) simp
  next
    case (Some y)
    with Cons.prems show ?thesis by (intro exI [of _ "[]"] exI [of _ x] exI [of _ y] exI [of _ xs]) simp
  qed
qed simp

lemma insert_after_mset:
  assumes "insert_after target mk c = Some d" "\<And>i. li_widgetId (mk i) = w"
  shows "mset (map li_widgetId (lc_items d)) = add_mset w (mset (map li_widgetId (lc_items c)))"
proof -
  from assms obtain i where "d = c\<lparr>lc_items := insert_at (Suc i) (mk (lc_items c ! i)) (lc_items c)\<rparr>"
    by (auto simp: insert_after_def)
  moreover have "mset (map li_widgetId (take n xs)) + mset (map li_widgetId (drop n xs)) = mset (map li_widgetId xs)" for n xs
    by (metis append_take_drop_id map_append mset_append)
  ultimately show ?thesis by (simp add: insert_at_def assms(2))
qed

lemma insert_after_rows_mset:
  assumes "insert_after_in_rows target mk rows = Some rows'" "\<And>i. li_widgetId (mk i) = w"
  shows "mset (traverseLayoutItems rows') = add_mset w (mset (traverseLayoutItems rows))"
proof -
  from map_first_Some [OF assms(1) [unfolded insert_after_in_rows_def]]
  obtain us row cs vs where rows: "rows = us @ row # vs" "rows' = us @ row\<lparr>lr_columns := cs\<rparr> # vs"
    and cs: "map_first (insert_after target mk) (lr_columns row) = Some cs" by auto
  from map_first_Some [OF cs] obtain as c d bs where
    "lr_columns row = as @ c # bs" "insert_after target mk c = Some d" "cs = as @ d # bs" by blast
  with insert_after_mset [OF _ assms(2)] show ?thesis by (simp add: rows)
qed

lemma mset_named_add: "mset xs = add_mset w (mset ys) \<Longrightarrow> mset (named xs) = mset (named (w # ys))"
  by (metis mset.simps(2) mset_filter)

lemma mset_duplicate:
  "mset (traverseLayoutItems (duplicateWidgetInLayout rows source w)) = mset (named (w # traverseLayoutItems rows))"
proof (cases "insert_after_in_rows source (\<lambda>i. item_for w (li_height i)) rows")
  case None
  then show ?thesis by (simp add: duplicateWidgetInLayout_def mset_add)
next
  case (Some rows')
  have "mset (traverseLayoutItems rows') = add_mset w (mset (traverseLayoutItems rows))"
    by (rule insert_after_rows_mset [OF Some]) simp
  then show ?thesis
    unfolding duplicateWidgetInLayout_def Some option.case traverse_autofix by (rule mset_named_add)
qed

text \<open>
  C26. Editing a layout never loses and never repeats a widget: adding and duplicating add exactly the new
  one, deleting removes exactly the one named, and moving a widget leaves the widgets of the layout
  what they were, wherever it is dropped.
\<close>

theorem layout_edits_keep_widgets:
  assumes "[] \<notin> set (traverseLayoutItems rows)" and "w \<noteq> []"
  shows "mset (traverseLayoutItems (addWidgetToLayout rows w r c)) = add_mset w (mset (traverseLayoutItems rows)) \<and>
    mset (traverseLayoutItems (duplicateWidgetInLayout rows source w)) = add_mset w (mset (traverseLayoutItems rows)) \<and>
    traverseLayoutItems (deleteWidgetFromLayout rows w) = filter (\<lambda>x. x \<noteq> w) (traverseLayoutItems rows) \<and>
    (count (mset (traverseLayoutItems rows)) w = 1 \<longrightarrow>
       mset (traverseLayoutItems (moveWidgetInLayout rows w target)) = mset (traverseLayoutItems rows))"
proof -
  have all: "named (traverseLayoutItems rows) = traverseLayoutItems rows"
    using assms(1) by (auto intro: filter_True)
  then have add: "mset (named (w # traverseLayoutItems rows)) = add_mset w (mset (traverseLayoutItems rows))"
    using assms(2) by simp
  let ?rest = "filter (\<lambda>x. x \<noteq> w \<and> x \<noteq> []) (traverseLayoutItems rows)"
  have del: "traverseLayoutItems (deleteWidgetFromLayout rows w) = ?rest" by (rule traverse_delete)
  have rest: "?rest = filter (\<lambda>x. x \<noteq> w) (traverseLayoutItems rows)"
    using assms(1) by (auto intro: filter_cong)
  have "mset (traverseLayoutItems (moveWidgetInLayout rows w target)) = mset (named (w # ?rest))"
  proof (cases target)
    case (OnWidget v)
    show ?thesis
    proof (cases "insert_after_in_rows v (\<lambda>_. item_for w HOne) (deleteWidgetFromLayout rows w)")
      case None
      then show ?thesis by (simp add: moveWidgetInLayout_def OnWidget mset_add del)
    next
      case (Some rows')
      have "mset (traverseLayoutItems rows') = add_mset w (mset (traverseLayoutItems (deleteWidgetFromLayout rows w)))"
        by (rule insert_after_rows_mset [OF Some]) simp
      then show ?thesis
        unfolding moveWidgetInLayout_def OnWidget Let_def drop_target.case Some option.case traverse_autofix del
        by (rule mset_named_add)
    qed
  qed (simp_all add: moveWidgetInLayout_def mset_add del)
  moreover have "mset (named (w # ?rest)) = mset (traverseLayoutItems rows)"
    if "count (mset (traverseLayoutItems rows)) w = 1"
    using that assms by (auto simp: multiset_eq_iff count_mset_0_iff)
  ultimately have "count (mset (traverseLayoutItems rows)) w = 1 \<longrightarrow>
      mset (traverseLayoutItems (moveWidgetInLayout rows w target)) = mset (traverseLayoutItems rows)"
    by argo
  then show ?thesis unfolding mset_add mset_duplicate add del rest by (intro conjI refl)
qed

theorem layout_edits_keep_widgets_witness:
  "traverseLayoutItems (deleteWidgetFromLayout (push_row [] ''a'' WFull) ''b'') = [''a'']"
proof -
  have "[] \<notin> set (traverseLayoutItems (push_row [] ''a'' WFull))" by (simp add: push_row_def)
  from layout_edits_keep_widgets [OF this, of "''b''"] show ?thesis by (simp add: push_row_def)
qed

section \<open>Well-formed layouts\<close>

text \<open>Every row has one to four columns, every column shows something, and a column alone in its row takes all of it.\<close>

definition column_ok :: "layout_column \<Rightarrow> bool" where
  "column_ok c \<longleftrightarrow> lc_items c \<noteq> [] \<and> list_all (\<lambda>i. li_widgetId i \<noteq> []) (lc_items c)"

definition row_ok :: "layout_row \<Rightarrow> bool" where
  "row_ok row \<longleftrightarrow> lr_columns row \<noteq> [] \<and> length (lr_columns row) \<le> maxColumnsPerRow \<and> list_all column_ok (lr_columns row) \<and>
     (length (lr_columns row) = 1 \<longrightarrow> lc_width (hd (lr_columns row)) = WFull)"

definition layout_ok :: "layout \<Rightarrow> bool" where
  "layout_ok rows \<longleftrightarrow> list_all row_ok rows"

definition narrow :: "layout \<Rightarrow> bool" where
  "narrow rows \<longleftrightarrow> list_all (\<lambda>row. length (lr_columns row) \<le> maxColumnsPerRow) rows"

lemma prune_ok: "list_all column_ok (prune_columns cs)"
  by (auto simp: prune_columns_def column_ok_def list_all_iff)

lemma length_prune: "length (prune_columns cs) \<le> length cs"
  unfolding prune_columns_def by (rule order_trans [OF length_filter_le]) simp

lemma normalize_ok: "list_all column_ok cs \<Longrightarrow> list_all column_ok (normalize_columns cs)"
  by (cases cs) (auto simp: normalize_columns_def Let_def column_ok_def list_all_iff)

lemma length_normalize [simp]: "length (normalize_columns cs) = length cs"
  by (simp add: normalize_columns_def Let_def)

lemma normalize_single: "length cs = 1 \<Longrightarrow> lc_width (hd (normalize_columns cs)) = WFull"
  by (simp add: normalize_columns_def Let_def)

lemma autofix_ok: "narrow rows \<Longrightarrow> layout_ok (autofixWidgets rows)"
proof (induction rows)
  case (Cons row rows)
  let ?cs = "prune_columns (lr_columns row)"
  have "row_ok (row\<lparr>lr_columns := normalize_columns ?cs\<rparr>)" if cs: "?cs \<noteq> []"
  proof -
    have "length ?cs \<le> maxColumnsPerRow"
      using Cons.prems length_prune [of "lr_columns row"] by (simp add: narrow_def)
    moreover have "normalize_columns ?cs \<noteq> []" using cs length_normalize [of ?cs] by fastforce
    ultimately show ?thesis
      unfolding row_ok_def using normalize_ok [OF prune_ok] normalize_single by simp
  qed
  with Cons show ?case by (auto simp: layout_ok_def narrow_def Let_def)
qed (simp add: layout_ok_def)

lemma narrow_ok: "layout_ok rows \<Longrightarrow> narrow rows"
  by (auto simp: layout_ok_def narrow_def row_ok_def list_all_iff)

lemma narrow_update: "narrow rows \<Longrightarrow> length (lr_columns row) \<le> maxColumnsPerRow \<Longrightarrow> narrow (rows[r := row])"
  by (cases "r < length rows") (auto simp: narrow_def list_all_length nth_list_update)

lemma narrow_nth: "narrow rows \<Longrightarrow> r < length rows \<Longrightarrow> length (lr_columns (rows ! r)) \<le> maxColumnsPerRow"
  by (simp add: narrow_def list_all_length)

lemma narrow_push: "narrow rows \<Longrightarrow> narrow (push_row rows w width)"
  by (simp add: narrow_def push_row_def maxColumnsPerRow_def)

lemma add_ok: "narrow rows \<Longrightarrow> layout_ok (addWidgetToLayout rows w r c)"
  by (auto simp: addWidgetToLayout_def Let_def push_item_def push_column_def narrow_nth narrow_push
           intro!: autofix_ok narrow_update split: option.splits)

lemma insert_after_narrow:
  assumes "insert_after_in_rows target mk rows = Some rows'" "narrow rows"
  shows "narrow rows'"
proof -
  from map_first_Some [OF assms(1) [unfolded insert_after_in_rows_def]]
  obtain us row cs vs where rows: "rows = us @ row # vs" "rows' = us @ row\<lparr>lr_columns := cs\<rparr> # vs"
    and cs: "map_first (insert_after target mk) (lr_columns row) = Some cs" by auto
  from map_first_Some [OF cs] have "length cs = length (lr_columns row)" by auto
  with assms(2) show ?thesis by (simp add: rows narrow_def)
qed

lemma delete_ok: "narrow rows \<Longrightarrow> layout_ok (deleteWidgetFromLayout rows w)"
  unfolding deleteWidgetFromLayout_def by (rule autofix_ok) (simp add: narrow_def list_all_iff)

lemma place_narrow:
  "narrow (fst st) \<Longrightarrow> narrow (fst (place_widget st w))"
proof -
  assume n: "narrow (fst st)"
  then have "narrow (butlast (fst st))" "fst st \<noteq> [] \<Longrightarrow> length (lr_columns (last (fst st))) \<le> maxColumnsPerRow"
    by (auto simp: narrow_def list_all_iff dest: in_set_butlastD)
  with n show ?thesis by (auto simp: place_widget_def Let_def narrow_def maxColumnsPerRow_def)
qed

lemma places_narrow: "narrow (fst st) \<Longrightarrow> narrow (fst (foldl place_widget st ws))"
  by (induction ws arbitrary: st) (simp_all add: place_narrow)

text \<open>
  C27. The layout built from the stored widgets is well formed, and every edit of a well-formed layout
  gives a well-formed one: no empty row or column, at most four columns in a row, and a single column
  always at full width.
\<close>

theorem layouts_well_formed:
  "layout_ok (widgetsToLayout (widgets :: 'p dashboard_widget list)) \<and>
   (layout_ok rows \<longrightarrow>
      layout_ok (addWidgetToLayout rows w r c) \<and> layout_ok (duplicateWidgetInLayout rows source w) \<and>
      layout_ok (deleteWidgetFromLayout rows w) \<and> layout_ok (moveWidgetInLayout rows w target))"
proof -
  have "layout_ok (widgetsToLayout widgets)"
    unfolding widgetsToLayout_def by (intro autofix_ok places_narrow) (simp add: narrow_def)
  moreover have "layout_ok (addWidgetToLayout rows w r c) \<and> layout_ok (duplicateWidgetInLayout rows source w) \<and>
      layout_ok (deleteWidgetFromLayout rows w) \<and> layout_ok (moveWidgetInLayout rows w target)" if ok: "layout_ok rows"
    using narrow_ok [OF ok] narrow_ok [OF delete_ok [OF narrow_ok [OF ok], of w]]
    by (auto simp: duplicateWidgetInLayout_def moveWidgetInLayout_def Let_def add_ok delete_ok
        intro!: autofix_ok intro: insert_after_narrow split: option.splits drop_target.splits)
  ultimately show ?thesis by blast
qed

theorem layouts_well_formed_witness:
  "layout_ok (moveWidgetInLayout (widgetsToLayout
     [\<lparr>dw_id = ''a'', dw_position = 1, dw_width = 1, dw_payload = ()\<rparr>,
      \<lparr>dw_id = ''b'', dw_position = 0, dw_width = 2, dw_payload = ()\<rparr>]) ''a'' (OnWidget ''b''))"
  using layouts_well_formed by blast

section \<open>Stored widgets and layouts\<close>

lemma traverse_place: "traverseLayoutItems (fst (place_widget st w)) = traverseLayoutItems (fst st) @ [dw_id w]"
proof -
  have "traverseLayoutItems (butlast rows) @ column_ids (lr_columns (last rows)) = traverseLayoutItems rows"
    if "rows \<noteq> []" for rows
    using that by (metis append_butlast_last_id append_Nil2 traverse_simps)
  then show ?thesis
    by (auto simp: place_widget_def Let_def simp flip: append_assoc)
qed

lemma traverse_places: "traverseLayoutItems (fst (foldl place_widget st ws)) = traverseLayoutItems (fst st) @ map dw_id ws"
  by (induction ws arbitrary: st) (simp_all add: traverse_place)

lemma flat_items_ids: "map (\<lambda>x. li_widgetId (fst x)) (flat_items rows) = traverseLayoutItems rows"
  by (simp add: flat_items_def traverseLayoutItems_def map_concat comp_def)

lemma collect_known:
  assumes "\<And>x. x \<in> set items \<Longrightarrow> \<exists>widget. byId (li_widgetId (fst x)) = Some widget \<and> dw_id widget = li_widgetId (fst x)"
  shows "map dw_id (collect_widgets byId n items) = map (\<lambda>x. li_widgetId (fst x)) items \<and>
    map dw_position (collect_widgets byId n items) = map (\<lambda>k. n + int k) [0..<length items] \<and>
    map dw_payload (collect_widgets byId n items) = map (\<lambda>x. dw_payload (the (byId (li_widgetId (fst x))))) items"
  using assms
proof (induction byId n items rule: collect_widgets.induct)
  case (2 byId n i w rest)
  then obtain widget where "byId (li_widgetId i) = Some widget" "dw_id widget = li_widgetId i" by fastforce
  moreover from this 2 have "map dw_position (collect_widgets byId (n + 1) rest) = map (\<lambda>k. n + 1 + int k) [0..<length rest]"
    by simp
  ultimately show ?case using 2
    by (auto simp: upt_conv_Cons simp flip: map_Suc_upt simp del: upt_Suc)
qed simp

lemma map_of_by_id: "distinct (map dw_id ws) \<Longrightarrow> w \<in> set ws \<Longrightarrow> map_of (map (\<lambda>w. (dw_id w, w)) ws) (dw_id w) = Some w"
  by (rule map_of_is_SomeI) (auto simp: comp_def)

text \<open>
  C35. Storing the layout that was built from a list of widgets keeps every widget with its contents, in
  the order of the positions they had, and numbers them from zero.
\<close>

theorem layout_roundtrip:
  fixes ws :: "'p dashboard_widget list"
  assumes "distinct (map dw_id ws)" and "[] \<notin> set (map dw_id ws)"
  defines "stored \<equiv> layoutToWidgets (widgetsToLayout ws) (map_of (map (\<lambda>w. (dw_id w, w)) ws))"
  shows "map dw_id stored = map dw_id (sort_key dw_position ws) \<and>
    map dw_payload stored = map dw_payload (sort_key dw_position ws) \<and>
    map dw_position stored = map int [0..<length ws]"
proof -
  let ?items = "flat_items (widgetsToLayout ws)" and ?byId = "map_of (map (\<lambda>w. (dw_id w, w)) ws)"
  have "named (map dw_id (sort_key dw_position ws)) = map dw_id (sort_key dw_position ws)"
    using assms(2) by (auto intro: filter_True)
  then have ids: "map (\<lambda>x. li_widgetId (fst x)) ?items = map dw_id (sort_key dw_position ws)"
    by (simp add: flat_items_ids widgetsToLayout_def traverse_places)
  then have len: "length ?items = length ws" by (metis length_map length_sort)
  have known: "\<exists>widget. ?byId (li_widgetId (fst x)) = Some widget \<and> dw_id widget = li_widgetId (fst x)"
    if "x \<in> set ?items" for x
  proof -
    from that have "li_widgetId (fst x) \<in> set (map dw_id (sort_key dw_position ws))" using ids by (metis imageI list.set_map)
    then obtain w where "w \<in> set ws" "li_widgetId (fst x) = dw_id w" by auto
    with map_of_by_id [OF assms(1)] show ?thesis by auto
  qed
  have "map (\<lambda>x. dw_payload (the (?byId (li_widgetId (fst x))))) ?items =
        map (\<lambda>v. dw_payload (the (?byId v))) (map (\<lambda>x. li_widgetId (fst x)) ?items)" by simp
  also have "\<dots> = map dw_payload (sort_key dw_position ws)"
    unfolding ids by (simp add: map_of_by_id [OF assms(1)])
  finally show ?thesis
    using collect_known [where n = 0, OF known] by (simp add: stored_def layoutToWidgets_def ids len)
qed

theorem layout_roundtrip_witness:
  "map dw_id (layoutToWidgets (widgetsToLayout
     [\<lparr>dw_id = ''a'', dw_position = 7, dw_width = 1, dw_payload = ()\<rparr>,
      \<lparr>dw_id = ''b'', dw_position = 3, dw_width = 2, dw_payload = ()\<rparr>])
     (map_of (map (\<lambda>w. (dw_id w, w))
        [\<lparr>dw_id = ''a'', dw_position = 7, dw_width = 1, dw_payload = ()\<rparr>,
         \<lparr>dw_id = ''b'', dw_position = 3, dw_width = 2, dw_payload = ()\<rparr>]))) = [''b'', ''a'']"
  using layout_roundtrip [of "[\<lparr>dw_id = ''a'', dw_position = 7, dw_width = 1, dw_payload = ()\<rparr>,
      \<lparr>dw_id = ''b'', dw_position = 3, dw_width = 2, dw_payload = ()\<rparr>]"] by simp

end
