(* ===== verification/Estimates.thy ===== *)
theory Estimates
  imports Flow_Prelude Complex_Main
begin

text \<open>
  \<open>web/src/lib/estimates.ts\<close>: the estimate scales of teams, labels, point totals, and the choice of a value
  on a team's scale. Estimates are whole numbers; totals, which may be averages, are rational.
\<close>

section \<open>Scales\<close>

datatype estimate_type = NotUsed | Exponential | Fibonacci | FlowScale | TShirt

record estimate_settings =
  es_type :: "estimate_type option"
  es_allowZero :: bool
  es_extended :: bool
  es_countUnestimated :: "bool option"

fun base_values :: "estimate_type \<Rightarrow> int list" where
  "base_values NotUsed = []"
| "base_values Exponential = [1, 2, 4, 8, 16]"
| "base_values Fibonacci = [1, 2, 3, 5, 8]"
| "base_values FlowScale = [1, 2, 3, 4, 5]"
| "base_values TShirt = [1, 2, 3, 5, 8]"

fun extended_values :: "estimate_type \<Rightarrow> int list" where
  "extended_values NotUsed = []"
| "extended_values Exponential = [32, 64]"
| "extended_values Fibonacci = [13, 21]"
| "extended_values FlowScale = [6, 7]"
| "extended_values TShirt = [13, 21]"

definition T_SHIRT_LABELS :: "(int \<times> string) list" where
  "T_SHIRT_LABELS = [(0, ''-''), (1, ''XS''), (2, ''S''), (3, ''M''), (5, ''L''), (8, ''XL''), (13, ''XXL''), (21, ''XXXL'')]"

fun ESTIMATE_TYPE_NAMES :: "estimate_type \<Rightarrow> string" where
  "ESTIMATE_TYPE_NAMES NotUsed = ''Not in use''"
| "ESTIMATE_TYPE_NAMES Exponential = ''Exponential''"
| "ESTIMATE_TYPE_NAMES Fibonacci = ''Fibonacci''"
| "ESTIMATE_TYPE_NAMES FlowScale = ''Linear''"
| "ESTIMATE_TYPE_NAMES TShirt = ''T-Shirt''"

text \<open>Settings that are \<open>undefined\<close> are \<open>None\<close>.\<close>

definition scale_type :: "estimate_settings option \<Rightarrow> estimate_type" where
  "scale_type settings = (case Option.bind settings es_type of Some t \<Rightarrow> t | None \<Rightarrow> NotUsed)"

definition allows_zero :: "estimate_settings option \<Rightarrow> bool" where
  "allows_zero settings = (case settings of Some s \<Rightarrow> es_allowZero s | None \<Rightarrow> False)"

definition is_extended :: "estimate_settings option \<Rightarrow> bool" where
  "is_extended settings = (case settings of Some s \<Rightarrow> es_extended s | None \<Rightarrow> False)"

definition estimateValues :: "estimate_settings option \<Rightarrow> int list" where
  "estimateValues settings =
     (if scale_type settings = NotUsed then []
      else (if allows_zero settings then [0] else []) @ base_values (scale_type settings) @
           (if is_extended settings then extended_values (scale_type settings) else []))"

definition estimateScaleDetails :: "estimate_type \<Rightarrow> bool \<Rightarrow> bool \<Rightarrow> string" where
  "estimateScaleDetails t allowZero extended =
     (let values = estimateValues (Some \<lparr>es_type = Some t, es_allowZero = allowZero, es_extended = extended,
                     es_countUnestimated = None\<rparr>)
      in if t = NotUsed then []
         else if t = TShirt then ''('' @ join_with '', '' (map (\<lambda>v. the (map_of T_SHIRT_LABELS v)) values) @ '')''
         else ''('' @ join_with '', '' (map int_str values) @ '' Points)'')"

definition estimateLabel :: "int option \<Rightarrow> estimate_type \<Rightarrow> string" where
  "estimateLabel value t =
     (case value of
        None \<Rightarrow> ''Estimate''
      | Some v \<Rightarrow>
          if t = TShirt then (case map_of T_SHIRT_LABELS v of Some l \<Rightarrow> l | None \<Rightarrow> int_str v @ '' Points'')
          else int_str v @ '' Point'' @ (if v = 1 then [] else ''s''))"

definition estimateShortLabel :: "int \<Rightarrow> estimate_type \<Rightarrow> string" where
  "estimateShortLabel v t =
     (if t = TShirt then (case map_of T_SHIRT_LABELS v of Some l \<Rightarrow> l | None \<Rightarrow> int_str v) else int_str v)"

section \<open>Points\<close>

definition unestimatedValue :: "estimate_settings option \<Rightarrow> int" where
  "unestimatedValue settings = (if Option.bind settings es_countUnestimated = Some False then 0 else 1)"

definition teamUsesEstimates :: "estimate_settings option \<Rightarrow> bool" where
  "teamUsesEstimates settings \<longleftrightarrow> scale_type settings \<noteq> NotUsed"

definition estimatePoints :: "int option \<Rightarrow> estimate_settings option \<Rightarrow> int" where
  "estimatePoints estimate settings =
     (case estimate of
        None \<Rightarrow> unestimatedValue settings
      | Some e \<Rightarrow> if e < 0 \<or> (e = 0 \<and> \<not> allows_zero settings) then unestimatedValue settings else e)"

definition add_points :: "(string option \<Rightarrow> estimate_settings option) \<Rightarrow> int option \<Rightarrow> int option \<times> string option \<Rightarrow> int option" where
  "add_points settingsForTeam acc issue =
     (let settings = settingsForTeam (snd issue)
      in if \<not> teamUsesEstimates settings then acc
         else Some ((case acc of Some n \<Rightarrow> n | None \<Rightarrow> 0) + estimatePoints (fst issue) settings))"

text \<open>An issue is its estimate and its team.\<close>

definition sumEstimatePoints ::
  "(int option \<times> string option) list \<Rightarrow> (string option \<Rightarrow> estimate_settings option) \<Rightarrow> int option" where
  "sumEstimatePoints issues settingsForTeam = foldl (add_points settingsForTeam) None issues"

definition formatEstimatePoints :: "rat \<Rightarrow> string" where
  "formatEstimatePoints points =
     (if points = of_int \<lfloor>points\<rfloor> then int_str \<lfloor>points\<rfloor>
      else
        (let tenths = \<lfloor>points * 10 + 1 / 2\<rfloor>
         in if tenths mod 10 = 0 then int_str (tenths div 10)
            else (if tenths < 0 then ''-'' else []) @ int_str (\<bar>tenths\<bar> div 10) @ ''.'' @ int_str (\<bar>tenths\<bar> mod 10)))"

section \<open>A value on a team's scale\<close>

definition NO_ESTIMATE :: int where
  "NO_ESTIMATE = -1"

definition closer :: "int \<Rightarrow> int \<Rightarrow> int \<Rightarrow> int" where
  "closer value best item =
     (if \<bar>item - value\<bar> < \<bar>best - value\<bar> \<or> (\<bar>item - value\<bar> = \<bar>best - value\<bar> \<and> item > best) then item else best)"

definition estimateOnTeamScale :: "int \<Rightarrow> estimate_settings option \<Rightarrow> int option" where
  "estimateOnTeamScale value settings =
     (if \<not> teamUsesEstimates settings then None
      else if value < 0 then Some NO_ESTIMATE
      else
        (let scale = estimateValues settings
         in if value \<in> set scale then Some value else Some (foldl (closer value) (hd scale) scale)))"

record bulk_values =
  bv_values :: "int list"
  bv_type :: estimate_type
  bv_settings :: "estimate_settings option"

definition estimateBulkValues :: "estimate_settings option list \<Rightarrow> bulk_values" where
  "estimateBulkValues scales =
     (let used = filter teamUsesEstimates scales; first = hd used
      in if used = [] then \<lparr>bv_values = [], bv_type = NotUsed, bv_settings = None\<rparr>
         else if list_all (\<lambda>s. scale_type s = scale_type first \<and> estimateValues s = estimateValues first) used
         then \<lparr>bv_values = estimateValues first, bv_type = scale_type first, bv_settings = first\<rparr>
         else \<lparr>bv_values = sort (js_uniq (concat (map estimateValues used))),
               bv_type = (if list_all (\<lambda>s. scale_type s = TShirt) used then TShirt else Fibonacci), bv_settings = None\<rparr>)"

definition estimatePickerOptions :: "estimate_settings option \<Rightarrow> (string \<times> string \<times> int) list" where
  "estimatePickerOptions settings =
     (int_str NO_ESTIMATE, ''No estimate'', NO_ESTIMATE) #
     map (\<lambda>v. (int_str v, estimateLabel (Some v) (scale_type settings), v)) (estimateValues settings)"

section \<open>The nearest value\<close>

definition nearest :: "int \<Rightarrow> int set \<Rightarrow> int \<Rightarrow> bool" where
  "nearest value scale e \<longleftrightarrow> e \<in> scale \<and>
     (\<forall>x \<in> scale. \<bar>e - value\<bar> < \<bar>x - value\<bar> \<or> (\<bar>e - value\<bar> = \<bar>x - value\<bar> \<and> x \<le> e))"

lemma nearest_closer: "nearest value S best \<Longrightarrow> nearest value (insert item S) (closer value best item)"
  by (auto simp: nearest_def closer_def)

lemma nearest_foldl: "nearest value S best \<Longrightarrow> nearest value (S \<union> set items) (foldl (closer value) best items)"
proof (induction items arbitrary: S best)
  case (Cons item items)
  from Cons.IH [OF nearest_closer [OF Cons.prems, of item]] show ?case by simp
qed simp

lemma estimateValues_nonempty: "teamUsesEstimates settings \<Longrightarrow> estimateValues settings \<noteq> []"
  by (cases "scale_type settings") (auto simp: teamUsesEstimates_def estimateValues_def)

text \<open>
  C36. Setting several issues to a value at once gives each issue of a team that uses estimates a value of
  that team's scale, and no value of the scale is nearer to the one asked for; of two values equally near
  it is the larger one.
\<close>

theorem estimate_on_scale_nearest:
  assumes "teamUsesEstimates settings" and "0 \<le> value"
  shows "\<exists>e. estimateOnTeamScale value settings = Some e \<and> e \<in> set (estimateValues settings) \<and>
    (\<forall>x \<in> set (estimateValues settings). \<bar>e - value\<bar> < \<bar>x - value\<bar> \<or> (\<bar>e - value\<bar> = \<bar>x - value\<bar> \<and> x \<le> e))"
proof (cases "value \<in> set (estimateValues settings)")
  case True
  then show ?thesis using assms by (auto simp: estimateOnTeamScale_def)
next
  case False
  let ?scale = "estimateValues settings"
  have "?scale \<noteq> []" by (rule estimateValues_nonempty [OF assms(1)])
  then have "insert (hd ?scale) (set ?scale) = set ?scale" by (cases ?scale) auto
  moreover have "nearest value {hd ?scale} (hd ?scale)" by (simp add: nearest_def)
  ultimately have "nearest value (set ?scale) (foldl (closer value) (hd ?scale) ?scale)"
    using nearest_foldl [of "value" "{hd ?scale}" "hd ?scale" ?scale] by simp
  moreover have "estimateOnTeamScale value settings = Some (foldl (closer value) (hd ?scale) ?scale)"
    using False assms by (simp add: estimateOnTeamScale_def Let_def)
  ultimately show ?thesis unfolding nearest_def by blast
qed

definition sample_settings :: "estimate_settings option" where
  "sample_settings = Some \<lparr>es_type = Some Fibonacci, es_allowZero = False, es_extended = False, es_countUnestimated = None\<rparr>"

theorem estimate_on_scale_nearest_witness:
  "\<exists>e. estimateOnTeamScale 4 sample_settings = Some e \<and> e \<in> set (estimateValues sample_settings)"
proof -
  have "teamUsesEstimates sample_settings" by code_simp
  from estimate_on_scale_nearest [OF this, of 4] show ?thesis by auto
qed

lemma bulk_values_merged:
  "\<not> list_all (\<lambda>s. scale_type s = scale_type (hd (filter teamUsesEstimates scales)) \<and>
        estimateValues s = estimateValues (hd (filter teamUsesEstimates scales))) (filter teamUsesEstimates scales) \<Longrightarrow>
     sorted (bv_values (estimateBulkValues scales)) \<and> distinct (bv_values (estimateBulkValues scales)) \<and>
     set (bv_values (estimateBulkValues scales)) = (\<Union>s \<in> set (filter teamUsesEstimates scales). set (estimateValues s))"
  by (auto simp: estimateBulkValues_def Let_def)

end
