(* ===== verification/Team_Hierarchy.thy ===== *)
theory Team_Hierarchy
  imports Estimates "HOL-Library.Multiset"
begin

text \<open>
  \<open>web/src/lib/team-hierarchy.ts\<close>: the tree of teams, the check of a new parent, the rows of the tree view, and
  the settings a team inherits. Teams name their parent by id; nothing in the data forbids a cycle, so the
  loops over parents carry the set of ids they have seen.
\<close>

section \<open>Inherited settings\<close>

record team_settings = estimate_settings +
  ts_inherit :: bool
  ts_parent :: "string option"

definition with_estimates_of :: "team_settings \<Rightarrow> team_settings \<Rightarrow> team_settings" where
  "with_estimates_of parent current = current\<lparr>es_type := es_type parent, es_allowZero := es_allowZero parent,
     es_extended := es_extended parent, es_countUnestimated := es_countUnestimated parent\<rparr>"

function resolvedTeamSettings ::
  "(string \<times> team_settings) list \<Rightarrow> string \<Rightarrow> string list \<Rightarrow> team_settings option" where
  "resolvedTeamSettings settings teamId seen =
     (case map_of settings teamId of
        None \<Rightarrow> None
      | Some current \<Rightarrow>
          if teamId \<in> set seen then Some current
          else if \<not> ts_inherit current \<or> ts_parent current = None \<or> ts_parent current = Some [] then Some current
          else case resolvedTeamSettings settings (the (ts_parent current)) (teamId # seen) of
              Some parent \<Rightarrow> Some (with_estimates_of parent current)
            | None \<Rightarrow> Some current)"
  by pat_completeness auto

lemma filter_less: "x \<in> set xs \<Longrightarrow> P x \<Longrightarrow> \<not> Q x \<Longrightarrow> (\<And>y. Q y \<Longrightarrow> P y) \<Longrightarrow> length (filter Q xs) < length (filter P xs)"
proof (induction xs)
  case (Cons y ys)
  have "length (filter Q ys) \<le> length (filter P ys)"
    by (induction ys) (auto simp: Cons.prems(4) le_SucI)
  with Cons show ?case by (cases "y = x") (auto simp: le_imp_less_Suc)
qed simp

termination resolvedTeamSettings
proof (relation "measure (\<lambda>(settings, teamId, seen). length (filter (\<lambda>e. fst e \<notin> set seen) settings))", goal_cases)
  case (2 settings teamId seen current)
  then have "(teamId, current) \<in> set settings" by (simp add: map_of_SomeD)
  then have "length (filter (\<lambda>e. fst e \<notin> set (teamId # seen)) settings) < length (filter (\<lambda>e. fst e \<notin> set seen) settings)"
    by (rule filter_less) (use 2(2) in auto)
  then show ?case by simp
qed simp

declare resolvedTeamSettings.simps [simp del]

section \<open>The hierarchy\<close>

definition MAX_TEAM_DEPTH :: nat where
  "MAX_TEAM_DEPTH = 4"

record team =
  tid :: string
  team_name :: string
  retiredAt :: "string option"

definition retired :: "team \<Rightarrow> bool" where
  "retired t \<longleftrightarrow> retiredAt t \<noteq> None \<and> retiredAt t \<noteq> Some []"

text \<open>The settings give each team its \<open>parentTeamId\<close>, possibly \<open>undefined\<close>.\<close>

type_synonym parent_settings = "string \<rightharpoonup> string option"

definition parent_id :: "parent_settings \<Rightarrow> (string \<rightharpoonup> string) \<Rightarrow> string \<Rightarrow> string option" where
  "parent_id settings projected i =
     (case settings i of Some (Some p) \<Rightarrow> Some p | _ \<Rightarrow> projected i)"

definition byId :: "team list \<Rightarrow> string \<Rightarrow> team option" where
  "byId teams = map_of (rev (map (\<lambda>t. (tid t, t)) teams))"

definition parent_key :: "parent_settings \<Rightarrow> (string \<rightharpoonup> string) \<Rightarrow> string \<Rightarrow> string" where
  "parent_key settings projected i = (case parent_id settings projected i of Some p \<Rightarrow> p | None \<Rightarrow> [])"

lemma byId_in: "byId teams k = Some t \<Longrightarrow> t \<in> set teams \<and> tid t = k"
  unfolding byId_def by (drule map_of_SomeD) auto

function climb :: "team list \<Rightarrow> (string \<Rightarrow> string) \<Rightarrow> string list \<Rightarrow> team list \<Rightarrow> string \<Rightarrow> team list" where
  "climb teams key seen chain k =
     (case byId teams k of
        None \<Rightarrow> chain
      | Some p \<Rightarrow> if tid p \<in> set seen then chain else climb teams key (tid p # seen) (p # chain) (key (tid p)))"
  by pat_completeness auto

termination climb
proof (relation "measure (\<lambda>(teams, key, seen, chain, k). length (filter (\<lambda>t. tid t \<notin> set seen) teams))", goal_cases)
  case (2 teams key seen chain k p)
  then have "p \<in> set teams" using byId_in by blast
  then have "length (filter (\<lambda>t. tid t \<notin> set (tid p # seen)) teams) < length (filter (\<lambda>t. tid t \<notin> set seen) teams)"
    by (rule filter_less) (use 2(2) in auto)
  then show ?case by simp
qed simp

declare climb.simps [simp del]

definition ancestor_chain :: "team list \<Rightarrow> parent_settings \<Rightarrow> (string \<rightharpoonup> string) \<Rightarrow> string \<Rightarrow> team list" where
  "ancestor_chain teams settings projected i =
     climb teams (parent_key settings projected) [i] [] (parent_key settings projected i)"

text \<open>The map \<open>ancestors\<close> has an entry for every team.\<close>

definition ancestors :: "team list \<Rightarrow> parent_settings \<Rightarrow> (string \<rightharpoonup> string) \<Rightarrow> string \<Rightarrow> team list option" where
  "ancestors teams settings projected i =
     (if i \<in> tid ` set teams then Some (ancestor_chain teams settings projected i) else None)"

definition ancestors_or_none :: "team list \<Rightarrow> parent_settings \<Rightarrow> (string \<rightharpoonup> string) \<Rightarrow> string \<Rightarrow> team list" where
  "ancestors_or_none teams settings projected i =
     (case ancestors teams settings projected i of Some c \<Rightarrow> c | None \<Rightarrow> [])"

definition or_zero :: "nat option \<Rightarrow> nat" where
  "or_zero n = (case n of Some k \<Rightarrow> k | None \<Rightarrow> 0)"

fun raise_heights :: "(string \<rightharpoonup> nat) \<Rightarrow> team list \<Rightarrow> (string \<rightharpoonup> nat)" where
  "raise_heights h [] = h"
| "raise_heights h (a # chain) = raise_heights (h(tid a \<mapsto> max (or_zero (h (tid a))) (length (a # chain)))) chain"

definition heights :: "team list \<Rightarrow> parent_settings \<Rightarrow> (string \<rightharpoonup> string) \<Rightarrow> (string \<rightharpoonup> nat)" where
  "heights teams settings projected =
     foldl (\<lambda>h t. raise_heights h (ancestor_chain teams settings projected (tid t))) Map.empty teams"

definition add_child ::
  "team list \<Rightarrow> parent_settings \<Rightarrow> (string \<rightharpoonup> string) \<Rightarrow> (string \<rightharpoonup> team list) \<Rightarrow> team \<Rightarrow> (string \<rightharpoonup> team list)" where
  "add_child teams settings projected children t =
     (case parent_id settings projected (tid t) of
        Some p \<Rightarrow>
          if p \<noteq> [] \<and> byId teams p \<noteq> None \<and> p \<noteq> tid t
          then children(p \<mapsto> (case children p of Some siblings \<Rightarrow> siblings | None \<Rightarrow> []) @ [t]) else children
      | None \<Rightarrow> children)"

definition children :: "team list \<Rightarrow> parent_settings \<Rightarrow> (string \<rightharpoonup> string) \<Rightarrow> (string \<rightharpoonup> team list)" where
  "children teams settings projected = foldl (add_child teams settings projected) Map.empty teams"

text \<open>The separator of a path holds U+203A, which is no Latin-1 character: it is a parameter.\<close>

definition path :: "string \<Rightarrow> team list \<Rightarrow> parent_settings \<Rightarrow> (string \<rightharpoonup> string) \<Rightarrow> string \<Rightarrow> string" where
  "path sep teams settings projected i =
     join_with sep (map team_name (ancestors_or_none teams settings projected i @
       (case byId teams i of Some t \<Rightarrow> [t] | None \<Rightarrow> [])))"

definition parentError :: "team list \<Rightarrow> parent_settings \<Rightarrow> (string \<rightharpoonup> string) \<Rightarrow> string \<Rightarrow> string \<Rightarrow> string option" where
  "parentError teams settings projected teamId parentId =
     (if parentId = [] then None
      else case byId teams parentId of
          None \<Rightarrow> Some ''Parent team is unavailable''
        | Some parent \<Rightarrow>
            if retired parent then Some ''Parent team is unavailable''
            else if parentId = teamId \<or> teamId \<in> tid ` set (ancestors_or_none teams settings projected parentId)
            then Some ''A team cannot be its own ancestor''
            else if length (ancestors_or_none teams settings projected parentId) + 1 +
                    or_zero (heights teams settings projected teamId) > MAX_TEAM_DEPTH
            then Some ''Teams can only be nested five levels deep''
            else None)"

definition subtree :: "team list \<Rightarrow> parent_settings \<Rightarrow> (string \<rightharpoonup> string) \<Rightarrow> string \<Rightarrow> string list" where
  "subtree teams settings projected i =
     js_uniq (i # map tid (filter (\<lambda>t. \<not> retired t \<and>
       i \<in> tid ` set (ancestors_or_none teams settings projected (tid t))) teams))"

section \<open>The rows of the tree\<close>

record tree_row =
  row_team :: team
  depth :: nat
  hasChildren :: bool

text \<open>\<open>nested\<close> and \<open>roots\<close>.\<close>

type_synonym nesting = "(string \<times> team list) list \<times> team list"

definition nested_of :: "(string \<times> team list) list \<Rightarrow> string \<Rightarrow> team list" where
  "nested_of nested i = (case map_of nested i of Some ts \<Rightarrow> ts | None \<Rightarrow> [])"

definition nest :: "(string \<Rightarrow> team list) \<Rightarrow> string set \<Rightarrow> nesting \<Rightarrow> team \<Rightarrow> nesting" where
  "nest anc ids = (\<lambda>(nested, roots) t.
     case find (\<lambda>a. tid a \<in> ids) (rev (anc (tid t))) of
       Some parent \<Rightarrow> (AList.update (tid parent) (nested_of nested (tid parent) @ [t]) nested, roots)
     | None \<Rightarrow> (nested, roots @ [t]))"

type_synonym visit_state = "string list \<times> tree_row list"

text \<open>The loop of \<open>visit\<close>; the stack's top is the head of the list.\<close>

function visit_loop ::
  "(string \<times> team list) list \<Rightarrow> string set \<Rightarrow> visit_state \<Rightarrow> (team \<times> nat) list \<Rightarrow> visit_state" where
  "visit_loop nested collapsed st [] = st"
| "visit_loop nested collapsed (seen, result) ((t, d) # stack) =
     (if tid t \<in> set seen then visit_loop nested collapsed (seen, result) stack
      else visit_loop nested collapsed
        (tid t # seen, result @ [\<lparr>row_team = t, depth = d, hasChildren = nested_of nested (tid t) \<noteq> []\<rparr>])
        ((if tid t \<in> collapsed then [] else map (\<lambda>c. (c, d + 1)) (nested_of nested (tid t))) @ stack))"
  by pat_completeness auto

lemma nested_of_in: "t \<in> set (nested_of nested i) \<Longrightarrow> \<exists>ts. (i, ts) \<in> set nested \<and> t \<in> set ts"
  by (cases "map_of nested i") (auto simp: nested_of_def dest: map_of_SomeD)

definition unseen :: "(string \<times> team list) list \<Rightarrow> (team \<times> nat) list \<Rightarrow> string list \<Rightarrow> string set" where
  "unseen nested stack seen = tid ` ((\<Union>e \<in> set nested. set (snd e)) \<union> fst ` set stack) - set seen"

lemma finite_unseen [simp]: "finite (unseen nested stack seen)"
  by (simp add: unseen_def)

lemma unseen_pop: "unseen nested stack seen \<subseteq> unseen nested (x # stack) seen"
  by (auto simp: unseen_def)

lemma unseen_push:
  "tid t \<notin> set seen \<Longrightarrow> set cs \<subseteq> set (nested_of nested (tid t)) \<Longrightarrow>
    unseen nested (map (\<lambda>c. (c, d')) cs @ stack) (tid t # seen) \<subset> unseen nested ((t, d) # stack) seen"
proof (rule psubsetI)
  assume "set cs \<subseteq> set (nested_of nested (tid t))"
  then have "set cs \<subseteq> (\<Union>e \<in> set nested. set (snd e))" using nested_of_in by fastforce
  then show "unseen nested (map (\<lambda>c. (c, d')) cs @ stack) (tid t # seen) \<subseteq> unseen nested ((t, d) # stack) seen"
    by (auto simp: unseen_def image_image)
  assume "tid t \<notin> set seen"
  then have "tid t \<in> unseen nested ((t, d) # stack) seen" by (simp add: unseen_def)
  moreover have "tid t \<notin> unseen nested (map (\<lambda>c. (c, d')) cs @ stack) (tid t # seen)" by (simp add: unseen_def)
  ultimately show "unseen nested (map (\<lambda>c. (c, d')) cs @ stack) (tid t # seen) \<noteq> unseen nested ((t, d) # stack) seen"
    by blast
qed

termination visit_loop
proof (relation "inv_image (less_than <*lex*> less_than)
    (\<lambda>(nested, collapsed, (seen, result), stack). (card (unseen nested stack seen), length stack))", goal_cases)
  case (2 nested collapsed seen result t d stack)
  then show ?case using card_mono [OF finite_unseen unseen_pop [of nested stack seen "(t, d)"]] by auto
next
  case (3 nested collapsed seen result t d stack)
  let ?cs = "if tid t \<in> collapsed then [] else nested_of nested (tid t)"
  have "unseen nested (map (\<lambda>c. (c, d + 1)) ?cs @ stack) (tid t # seen) \<subset> unseen nested ((t, d) # stack) seen"
    by (rule unseen_push) (use 3 in auto)
  from psubset_card_mono [OF finite_unseen this] show ?case by (simp split: if_splits)
qed (simp add: wf_inv_image wf_lex_prod)

definition visit :: "(string \<times> team list) list \<Rightarrow> string set \<Rightarrow> visit_state \<Rightarrow> team \<Rightarrow> visit_state" where
  "visit nested collapsed st r = visit_loop nested collapsed st [(r, 0)]"

definition tree_rows :: "(string \<Rightarrow> team list) \<Rightarrow> team list \<Rightarrow> string set \<Rightarrow> tree_row list" where
  "tree_rows anc items collapsed =
     (let (nested, roots) = foldl (nest anc (tid ` set items)) ([], []) items;
          st = foldl (visit nested collapsed) ([], []) roots;
          left = filter (\<lambda>t. tid t \<notin> set (fst st) \<and> \<not> list_ex (\<lambda>p. tid p \<in> collapsed) (anc (tid t))) items
      in snd (foldl (visit nested collapsed) st left))"

definition rows ::
  "team list \<Rightarrow> parent_settings \<Rightarrow> (string \<rightharpoonup> string) \<Rightarrow> team list \<Rightarrow> string set \<Rightarrow> tree_row list" where
  "rows teams settings projected = tree_rows (ancestors_or_none teams settings projected)"

section \<open>Every team has one row\<close>

definition visit_inv :: "team set \<Rightarrow> visit_state \<Rightarrow> bool" where
  "visit_inv items = (\<lambda>(seen, result). set seen = (tid \<circ> row_team) ` set result \<and>
     distinct (map (tid \<circ> row_team) result) \<and> row_team ` set result \<subseteq> items)"

lemma visit_inv_add:
  "visit_inv items (seen, result) \<Longrightarrow> row_team r \<in> items \<Longrightarrow> tid (row_team r) \<notin> set seen \<Longrightarrow>
    visit_inv items (tid (row_team r) # seen, result @ [r])"
  by (auto simp: visit_inv_def)

lemma visit_loop_inv:
  "(\<And>i. set (nested_of nested i) \<subseteq> items) \<Longrightarrow> visit_inv items st \<Longrightarrow> fst ` set stack \<subseteq> items \<Longrightarrow>
    visit_inv items (visit_loop nested collapsed st stack) \<and>
    set (fst st) \<union> (tid \<circ> fst) ` set stack \<subseteq> set (fst (visit_loop nested collapsed st stack))"
proof (induction nested collapsed st stack rule: visit_loop.induct)
  case (2 nested collapsed seen result t d stack)
  show ?case
  proof (cases "tid t \<in> set seen")
    case True
    with 2 show ?thesis by auto
  next
    case False
    let ?r = "\<lparr>row_team = t, depth = d, hasChildren = nested_of nested (tid t) \<noteq> []\<rparr>"
    let ?cs = "if tid t \<in> collapsed then [] else map (\<lambda>c. (c, d + 1)) (nested_of nested (tid t))"
    have "visit_inv items (tid t # seen, result @ [?r])"
      using visit_inv_add [of items seen result ?r] False "2.prems" by simp
    moreover have "fst ` set (?cs @ stack) \<subseteq> items"
      using "2.prems"(1) [of "tid t"] "2.prems"(3) by (auto split: if_splits)
    ultimately have "visit_inv items (visit_loop nested collapsed (tid t # seen, result @ [?r]) (?cs @ stack)) \<and>
        set (tid t # seen) \<union> (tid \<circ> fst) ` set (?cs @ stack)
          \<subseteq> set (fst (visit_loop nested collapsed (tid t # seen, result @ [?r]) (?cs @ stack)))"
      using "2.IH"(2) [OF False "2.prems"(1)] by simp
    with False show ?thesis by auto
  qed
qed simp

lemma foldl_visit_inv:
  assumes "\<And>i. set (nested_of nested i) \<subseteq> items"
  shows "visit_inv items st \<Longrightarrow> set ts \<subseteq> items \<Longrightarrow>
    visit_inv items (foldl (visit nested collapsed) st ts) \<and>
    set (fst st) \<union> tid ` set ts \<subseteq> set (fst (foldl (visit nested collapsed) st ts))"
proof (induction ts arbitrary: st)
  case (Cons t ts)
  have step: "visit_inv items (visit nested collapsed st t) \<and> set (fst st) \<union> {tid t} \<subseteq> set (fst (visit nested collapsed st t))"
    using visit_loop_inv [OF assms Cons.prems(1), where stack = "[(t, 0)]"] Cons.prems(2) by (simp add: visit_def)
  then show ?case using Cons.IH [of "visit nested collapsed st t"] Cons.prems(2) by auto
qed simp

definition nest_inv :: "team set \<Rightarrow> nesting \<Rightarrow> bool" where
  "nest_inv items = (\<lambda>(nested, roots). (\<forall>i. set (nested_of nested i) \<subseteq> items) \<and> set roots \<subseteq> items)"

lemma nested_of_update:
  "nested_of (AList.update k ts nested) i = (if i = k then ts else nested_of nested i)"
  by (simp add: nested_of_def update_conv)

lemma nest_keeps: "nest_inv items st \<Longrightarrow> t \<in> items \<Longrightarrow> nest_inv items (nest anc ids st t)"
  by (auto simp: nest_inv_def nest_def nested_of_update split: prod.splits option.splits if_splits)

lemma foldl_nest_keeps: "nest_inv items st \<Longrightarrow> set ts \<subseteq> items \<Longrightarrow> nest_inv items (foldl (nest anc ids) st ts)"
  by (induction ts arbitrary: st) (auto simp: nest_keeps)

text \<open>
  C38. With no row collapsed the tree shows every listed team exactly once, whatever the parents are: cyclic
  parents of old data included.
\<close>

theorem rows_show_every_team:
  assumes "distinct (map tid items)"
  shows "mset (map row_team (rows teams settings projected items {})) = mset items"
proof -
  let ?anc = "ancestors_or_none teams settings projected"
  obtain nested roots where n: "foldl (nest ?anc (tid ` set items)) ([], []) items = (nested, roots)" by fastforce
  have "nest_inv (set items) (nested, roots)"
    unfolding n [symmetric] by (rule foldl_nest_keeps) (auto simp: nest_inv_def nested_of_def)
  then have sub: "\<And>i. set (nested_of nested i) \<subseteq> set items" and roots: "set roots \<subseteq> set items"
    by (auto simp: nest_inv_def)
  define st where "st = foldl (visit nested {}) ([], []) roots"
  have inv: "visit_inv (set items) st"
    unfolding st_def by (rule conjunct1 [OF foldl_visit_inv [OF sub _ roots]]) (simp add: visit_inv_def)
  define left where "left = filter (\<lambda>t. tid t \<notin> set (fst st)) items"
  define fin where "fin = foldl (visit nested {}) st left"
  have fin: "visit_inv (set items) fin \<and> set (fst st) \<union> tid ` set left \<subseteq> set (fst fin)"
    unfolding fin_def by (rule foldl_visit_inv [OF sub inv]) (auto simp: left_def)
  have rows: "rows teams settings projected items {} = snd fin"
    by (simp add: rows_def tree_rows_def n st_def fin_def left_def Let_def list_ex_iff)
  have "tid ` set items \<subseteq> set (fst fin)" using fin by (auto simp: left_def)
  with fin have ids: "tid ` set items \<subseteq> tid ` row_team ` set (snd fin)" and
    rows_items: "row_team ` set (snd fin) \<subseteq> set items" and d: "distinct (map (tid \<circ> row_team) (snd fin))"
    by (auto simp: visit_inv_def image_image split: prod.splits)
  have "inj_on tid (set items)" using assms by (simp add: distinct_map)
  moreover have "tid ` set items = tid ` row_team ` set (snd fin)" using ids image_mono [OF rows_items] by (rule equalityI)
  ultimately have "set (map row_team (snd fin)) = set items"
    using inj_on_image_eq_iff [of tid "set items" "set items" "row_team ` set (snd fin)"] rows_items by simp
  moreover have "distinct (map row_team (snd fin))" using d by (auto simp: distinct_map inj_on_def)
  ultimately show ?thesis using assms rows set_eq_iff_mset_eq_distinct [of "map row_team (snd fin)" items]
    by (simp add: distinct_map)
qed

definition sample_teams :: "team list" where
  "sample_teams = [\<lparr>tid = ''a'', team_name = ''Apps'', retiredAt = None\<rparr>, \<lparr>tid = ''b'', team_name = ''Web'', retiredAt = None\<rparr>,
     \<lparr>tid = ''c'', team_name = ''Ops'', retiredAt = None\<rparr>]"

theorem rows_show_every_team_witness:
  "mset (map row_team (rows sample_teams [''a'' \<mapsto> Some ''b'', ''b'' \<mapsto> Some ''a''] Map.empty sample_teams {})) = mset sample_teams"
  by (rule rows_show_every_team) (simp add: sample_teams_def)

section \<open>A new parent keeps the tree\<close>

inductive up_chain :: "(string \<rightharpoonup> string) \<Rightarrow> string \<Rightarrow> string list \<Rightarrow> bool" for par where
  up_root: "par i = None \<Longrightarrow> up_chain par i []"
| up_step: "par i = Some p \<Longrightarrow> up_chain par p xs \<Longrightarrow> up_chain par i (xs @ [p])"

inductive_cases up_chain_Some: "up_chain par i xs"

lemma up_chain_det: "up_chain par i xs \<Longrightarrow> up_chain par i ys \<Longrightarrow> xs = ys"
proof (induction arbitrary: ys rule: up_chain.induct)
  case (up_root i)
  then show ?case by (auto elim: up_chain_Some)
next
  case (up_step i p xs)
  from up_step.prems up_step.hyps(1) obtain zs where "ys = zs @ [p]" "up_chain par p zs" by (auto elim: up_chain_Some)
  with up_step.IH show ?case by simp
qed

lemma up_chain_mem: "up_chain par i xs \<Longrightarrow> xs = ys @ x # zs \<Longrightarrow> up_chain par x ys"
proof (induction arbitrary: zs rule: up_chain.induct)
  case (up_step i p xs)
  then show ?case by (cases zs rule: rev_cases) auto
qed simp

lemma up_chain_self: "up_chain par i xs \<Longrightarrow> i \<notin> set xs"
proof
  assume c: "up_chain par i xs" and "i \<in> set xs"
  then obtain ys zs where xs: "xs = ys @ i # zs" by (auto dest: split_list)
  from up_chain_det [OF c up_chain_mem [OF c xs]] xs show False by simp
qed

lemma up_chain_distinct: "up_chain par i xs \<Longrightarrow> distinct xs"
  by (induction rule: up_chain.induct) (auto dest: up_chain_self)

definition parent_of :: "team list \<Rightarrow> parent_settings \<Rightarrow> (string \<rightharpoonup> string) \<Rightarrow> (string \<rightharpoonup> string)" where
  "parent_of teams settings projected i = map_option tid (byId teams (parent_key settings projected i))"

lemma climb_chain:
  "up_chain (parent_of teams settings projected) i xs \<Longrightarrow> set xs \<inter> set seen = {} \<Longrightarrow>
    map tid (climb teams (parent_key settings projected) seen chain (parent_key settings projected i)) = xs @ map tid chain"
proof (induction arbitrary: seen chain rule: up_chain.induct)
  case (up_root i)
  then show ?case by (simp add: parent_of_def climb.simps)
next
  case (up_step i p xs)
  from up_step.hyps(1) obtain t where t: "byId teams (parent_key settings projected i) = Some t" "tid t = p"
    by (auto simp: parent_of_def)
  have "set xs \<inter> set (p # seen) = {}" using up_step.prems up_chain_self [OF up_step.hyps(2)] by auto
  from up_step.IH [OF this, of "t # chain"] t up_step.prems show ?case by (subst climb.simps) simp
qed

lemma ancestor_chain_up:
  "up_chain (parent_of teams settings projected) i xs \<Longrightarrow> map tid (ancestor_chain teams settings projected i) = xs"
  unfolding ancestor_chain_def by (subst climb_chain) (auto dest: up_chain_self)

text \<open>The links from a team to its parent, by id.\<close>

definition parent_links :: "team list \<Rightarrow> parent_settings \<Rightarrow> (string \<rightharpoonup> string) \<Rightarrow> (string \<times> string) set" where
  "parent_links teams settings projected =
     set (concat (map (\<lambda>t. case parent_of teams settings projected (tid t) of None \<Rightarrow> [] | Some p \<Rightarrow> [(tid t, p)]) teams))"

lemma parent_links_iff:
  "(i, p) \<in> parent_links teams settings projected \<longleftrightarrow> i \<in> tid ` set teams \<and> parent_of teams settings projected i = Some p"
  by (force simp: parent_links_def split: option.splits)

lemma parent_of_team: "parent_of teams settings projected i = Some p \<Longrightarrow> p \<in> tid ` set teams"
  by (auto simp: parent_of_def dest: byId_in)

lemma finite_parent_links [simp]: "finite (parent_links teams settings projected)"
  unfolding parent_links_def by (rule finite_set)

lemma up_chain_exists:
  assumes "acyclic (parent_links teams settings projected)"
  shows "i \<in> tid ` set teams \<Longrightarrow> \<exists>xs. up_chain (parent_of teams settings projected) i xs"
proof (induction i rule: wf_induct_rule [OF finite_acyclic_wf_converse [OF _ assms]])
  case (2 i)
  show ?case
  proof (cases "parent_of teams settings projected i")
    case None
    then show ?thesis using up_root [of "parent_of teams settings projected"] by blast
  next
    case (Some p)
    then have "(p, i) \<in> (parent_links teams settings projected)\<inverse>" using 2(2) by (simp add: parent_links_iff)
    from 2(1) [OF this parent_of_team [OF Some]] show ?thesis using up_step [of "parent_of teams settings projected", OF Some] by blast
  qed
qed simp

lemma reachable_in_chain:
  "(i, x) \<in> (parent_links teams settings projected)\<^sup>* \<Longrightarrow> up_chain (parent_of teams settings projected) i xs \<Longrightarrow> x = i \<or> x \<in> set xs"
proof (induction arbitrary: xs rule: converse_rtrancl_induct)
  case (step i p)
  from step.hyps(1) have "parent_of teams settings projected i = Some p" by (simp add: parent_links_iff)
  with step.prems obtain ys where "xs = ys @ [p]" "up_chain (parent_of teams settings projected) p ys"
    by (auto elim: up_chain_Some)
  with step.IH show ?case by auto
qed simp

lemma raise_heights_mono: "or_zero (h k) \<le> or_zero (raise_heights h chain k)"
proof (induction chain arbitrary: h)
  case (Cons a chain)
  have "or_zero (h k) \<le> or_zero ((h(tid a \<mapsto> max (or_zero (h (tid a))) (length (a # chain)))) k)" by (simp add: or_zero_def)
  with Cons.IH show ?case by (metis le_trans raise_heights.simps(2))
qed simp

lemma raise_heights_at: "length (a # zs) \<le> or_zero (raise_heights h (ys @ a # zs) (tid a))"
proof (induction ys arbitrary: h)
  case Nil
  have "length (a # zs) \<le> or_zero ((h(tid a \<mapsto> max (or_zero (h (tid a))) (length (a # zs)))) (tid a))"
    by (simp add: or_zero_def)
  with raise_heights_mono show ?case by (metis append_Nil le_trans raise_heights.simps(2))
qed simp

lemma foldl_heights_mono:
  "or_zero (h k) \<le> or_zero (foldl (\<lambda>h t. raise_heights h (f t)) h ts k)"
  by (induction ts arbitrary: h) (auto intro: le_trans raise_heights_mono)

lemma foldl_heights_at:
  "t \<in> set ts \<Longrightarrow> f t = ys @ a # zs \<Longrightarrow> length (a # zs) \<le> or_zero (foldl (\<lambda>h t. raise_heights h (f t)) h ts (tid a))"
proof (induction ts arbitrary: h)
  case (Cons u ts)
  show ?case
  proof (cases "u = t")
    case True
    have "length (a # zs) \<le> or_zero (raise_heights h (f t) (tid a))" unfolding Cons.prems(2) by (rule raise_heights_at)
    also have "\<dots> \<le> or_zero (foldl (\<lambda>h t. raise_heights h (f t)) (raise_heights h (f t)) ts (tid a))"
      by (rule foldl_heights_mono)
    finally show ?thesis using True by simp
  next
    case False
    with Cons show ?thesis by simp
  qed
qed simp

lemma heights_at:
  "t \<in> set teams \<Longrightarrow> ancestor_chain teams settings projected (tid t) = ys @ a # zs \<Longrightarrow>
    length (a # zs) \<le> or_zero (heights teams settings projected (tid a))"
  unfolding heights_def by (rule foldl_heights_at)

lemma up_chain_reparent:
  assumes par': "\<And>i. par' i = (if i = k then Some q else par i)" and ps: "up_chain par' q ps"
  shows "up_chain par x xs \<Longrightarrow> \<exists>xs'. up_chain par' x xs' \<and>
    (if x = k then length xs' = length ps + 1
     else if k \<in> set xs then \<forall>ys zs. xs = ys @ k # zs \<longrightarrow> length xs' = length ps + 1 + length (k # zs)
     else xs' = xs)"
proof (induction rule: up_chain.induct)
  have k: "up_chain par' k (ps @ [q])" by (rule up_chain.up_step [OF _ ps]) (simp add: par')
  case (up_root i)
  show ?case
  proof (cases "i = k")
    case True
    then show ?thesis using k by (intro exI [of _ "ps @ [q]"]) simp
  next
    case False
    then have "par' i = None" using up_root by (simp add: par')
    then show ?thesis using up_chain.up_root [of par' i] False by (intro exI [of _ "[]"]) simp
  qed
next
  have k: "up_chain par' k (ps @ [q])" by (rule up_chain.up_step [OF _ ps]) (simp add: par')
  case (up_step i p xs)
  show ?case
  proof (cases "i = k")
    case True
    then show ?thesis using k by (intro exI [of _ "ps @ [q]"]) simp
  next
    case False
    from up_step.IH obtain xs' where c: "up_chain par' p xs'" and
      l: "if p = k then length xs' = length ps + 1
          else if k \<in> set xs then \<forall>ys zs. xs = ys @ k # zs \<longrightarrow> length xs' = length ps + 1 + length (k # zs)
          else xs' = xs" by blast
    from False up_step.hyps(1) c have "up_chain par' i (xs' @ [p])"
      by (intro up_chain.up_step) (simp_all add: par')
    moreover have "\<forall>ys zs. xs @ [p] = ys @ k # zs \<longrightarrow> length (xs' @ [p]) = length ps + 1 + length (k # zs)"
      if "k \<in> set (xs @ [p])"
    proof (intro allI impI)
      fix ys zs
      assume e: "xs @ [p] = ys @ k # zs"
      show "length (xs' @ [p]) = length ps + 1 + length (k # zs)"
        using e l up_chain_self [OF up_step.hyps(2)] by (cases zs rule: rev_cases) auto
    qed
    ultimately show ?thesis using False l by (intro exI [of _ "xs' @ [p]"]) (auto split: if_splits)
  qed
qed

lemma up_chain_unlinked:
  "(\<And>i. i \<noteq> k \<Longrightarrow> par' i = par i) \<Longrightarrow> up_chain par x xs \<Longrightarrow> k \<noteq> x \<Longrightarrow> k \<notin> set xs \<Longrightarrow> up_chain par' x xs"
  by (rotate_tac, induction rule: up_chain.induct) (auto intro: up_chain.intros)

lemma parent_of_set:
  "byId teams q = Some t \<Longrightarrow> parent_of teams (settings(k \<mapsto> Some q)) projected i =
    (if i = k then Some q else parent_of teams settings projected i)"
  by (auto simp: parent_of_def parent_key_def parent_id_def dest: byId_in)

lemma parentError_None:
  assumes "parentError teams settings projected k q = None" and "q \<noteq> []"
  shows "byId teams q \<noteq> None" and "q \<noteq> k" and "k \<notin> set (map tid (ancestor_chain teams settings projected q))"
    and "length (ancestor_chain teams settings projected q) + 1 + or_zero (heights teams settings projected k) \<le> MAX_TEAM_DEPTH"
proof -
  from assms obtain t where t: "byId teams q = Some t" by (auto simp: parentError_def split: option.splits)
  then have "q \<in> tid ` set teams" using byId_in by blast
  then have "ancestors_or_none teams settings projected q = ancestor_chain teams settings projected q"
    by (simp add: ancestors_or_none_def ancestors_def)
  with assms t show "byId teams q \<noteq> None" "q \<noteq> k" "k \<notin> set (map tid (ancestor_chain teams settings projected q))"
    "length (ancestor_chain teams settings projected q) + 1 + or_zero (heights teams settings projected k) \<le> MAX_TEAM_DEPTH"
    by (auto simp: parentError_def split: if_splits)
qed

lemma reparent_acyclic:
  assumes "acyclic (parent_links teams settings projected)" and "parentError teams settings projected k q = None" and "q \<noteq> []"
  shows "acyclic (parent_links teams (settings(k \<mapsto> Some q)) projected)"
proof -
  note ok = parentError_None [OF assms(2,3)]
  from ok(1) obtain t where t: "byId teams q = Some t" by blast
  then have "q \<in> tid ` set teams" using byId_in by blast
  then obtain ps where ps: "up_chain (parent_of teams settings projected) q ps" using up_chain_exists [OF assms(1)] by blast
  have "k \<notin> set ps" using ok(3) ancestor_chain_up [OF ps] by simp
  then have "(q, k) \<notin> (parent_links teams settings projected)\<^sup>*" using reachable_in_chain [OF _ ps] ok(2) by blast
  then have "acyclic (insert (k, q) (parent_links teams settings projected))" using assms(1) by (simp add: acyclic_insert)
  moreover have "parent_links teams (settings(k \<mapsto> Some q)) projected \<subseteq> insert (k, q) (parent_links teams settings projected)"
    by (auto simp: parent_links_iff parent_of_set [OF t] split: if_splits)
  ultimately show ?thesis by (rule acyclic_subset)
qed

lemma reparent_depth:
  assumes "acyclic (parent_links teams settings projected)" and "parentError teams settings projected k q = None" and "q \<noteq> []"
    and t: "t \<in> set teams" and d: "length (ancestor_chain teams settings projected (tid t)) \<le> MAX_TEAM_DEPTH"
  shows "length (ancestor_chain teams (settings(k \<mapsto> Some q)) projected (tid t)) \<le> MAX_TEAM_DEPTH"
proof -
  let ?par = "parent_of teams settings projected" and ?par' = "parent_of teams (settings(k \<mapsto> Some q)) projected"
  note ok = parentError_None [OF assms(2,3)]
  from ok(1) obtain u where u: "byId teams q = Some u" by blast
  note par' = parent_of_set [OF u, of settings k projected]
  from u have "q \<in> tid ` set teams" using byId_in by blast
  then obtain ps where ps: "up_chain ?par q ps" using up_chain_exists [OF assms(1)] by blast
  have k: "k \<notin> set ps" and ps_len: "length ps + 1 + or_zero (heights teams settings projected k) \<le> MAX_TEAM_DEPTH"
    using ok(3,4) ancestor_chain_up [OF ps] by auto
  have ps': "up_chain ?par' q ps" by (rule up_chain_unlinked [OF _ ps _ k]) (simp_all add: par' ok(2) [symmetric])
  from t obtain xs where xs: "up_chain ?par (tid t) xs" using up_chain_exists [OF assms(1)] by blast
  from up_chain_reparent [OF par' ps' xs] obtain xs' where xs': "up_chain ?par' (tid t) xs'" and
    l: "if tid t = k then length xs' = length ps + 1
        else if k \<in> set xs then \<forall>ys zs. xs = ys @ k # zs \<longrightarrow> length xs' = length ps + 1 + length (k # zs)
        else xs' = xs" by blast
  have chain: "map tid (ancestor_chain teams settings projected (tid t)) = xs" by (rule ancestor_chain_up [OF xs])
  have "length xs' \<le> MAX_TEAM_DEPTH"
  proof (cases "tid t \<noteq> k \<and> k \<in> set xs")
    case True
    then obtain ys zs where s: "xs = ys @ k # zs" by (auto dest: split_list)
    from chain s obtain ys' a zs' where c: "ancestor_chain teams settings projected (tid t) = ys' @ a # zs'" "tid a = k" "map tid zs' = zs"
      by (auto simp: map_eq_append_conv map_eq_Cons_conv)
    from heights_at [OF t c(1)] c(2,3) have "length (k # zs) \<le> or_zero (heights teams settings projected k)" by auto
    moreover have "length xs' = length ps + 1 + length (k # zs)" using l True s by simp
    ultimately show ?thesis using ps_len by simp
  next
    case False
    then show ?thesis using l ps_len d chain by (auto split: if_splits)
  qed
  then show ?thesis using arg_cong [OF ancestor_chain_up [OF xs'], of length] by simp
qed

text \<open>
  C29. A parent that passes the check keeps the teams a forest of bounded depth: where no team is its own
  ancestor and no team has more than four ancestors, the same holds after the team has been moved there with
  everything below it.
\<close>

theorem accepted_parent_keeps_tree:
  assumes "acyclic (parent_links teams settings projected)"
    and "list_all (\<lambda>t. length (ancestor_chain teams settings projected (tid t)) \<le> MAX_TEAM_DEPTH) teams"
    and "parentError teams settings projected k q = None" and "q \<noteq> []"
  shows "acyclic (parent_links teams (settings(k \<mapsto> Some q)) projected) \<and>
    list_all (\<lambda>t. length (ancestor_chain teams (settings(k \<mapsto> Some q)) projected (tid t)) \<le> MAX_TEAM_DEPTH) teams"
  using reparent_acyclic [OF assms(1,3,4)] reparent_depth [OF assms(1,3,4)] assms(2) by (simp add: list_all_iff)

definition sample_parents :: parent_settings where
  "sample_parents i = (if i = ''b'' then Some (Some ''a'') else None)"

theorem accepted_parent_keeps_tree_witness:
  "list_all (\<lambda>t. length (ancestor_chain sample_teams (sample_parents(''c'' \<mapsto> Some ''b'')) Map.empty (tid t)) \<le> MAX_TEAM_DEPTH) sample_teams"
proof -
  have "parent_links sample_teams sample_parents Map.empty = {(''b'', ''a'')}" by code_simp
  then have "acyclic (parent_links sample_teams sample_parents Map.empty)"
    by (simp add: acyclic_insert wf_acyclic)
  moreover have "list_all (\<lambda>t. length (ancestor_chain sample_teams sample_parents Map.empty (tid t)) \<le> MAX_TEAM_DEPTH) sample_teams"
    by code_simp
  moreover have "parentError sample_teams sample_parents Map.empty ''c'' ''b'' = None" by code_simp
  ultimately show ?thesis using accepted_parent_keeps_tree [of sample_teams sample_parents Map.empty "''c''" "''b''"] by blast
qed

end
