(* ===== verification/Recurrence.thy ===== *)
theory Recurrence
  imports Calendar
begin

text \<open>
  \<open>web/src/lib/recurrence.ts\<close>: recurring schedules, their stored form, and the dates they fall on. A date is a
  calendar day of \<open>Calendar\<close>. Weekday numbers are 0 to 6. The interval and the day and month numbers of a
  stored rule go through \<open>Number\<close> and may be any number, so they are rationals. The names of weekdays and months
  in a locale, the translations, the parser of date strings and the time zone tables are parameters.
\<close>

section \<open>Schedules\<close>

datatype frequency = Daily | Weekly | Monthly | Yearly

datatype month_mode = ByDay | ByWeekday

record recurrence_schedule =
  freq :: frequency
  interval :: rat
  weekdays :: "int list"
  monthMode :: month_mode
  monthDay :: rat
  ordinal :: int
  weekday :: int
  month_no :: rat

definition MAX_RECURRENCE_INTERVAL :: rat where
  "MAX_RECURRENCE_INTERVAL = 99"

definition CODES :: "string list" where
  "CODES = [''SU'', ''MO'', ''TU'', ''WE'', ''TH'', ''FR'', ''SA'']"

definition WORKDAYS :: "int list" where
  "WORKDAYS = [1, 2, 3, 4, 5]"

text \<open>Sorting with \<open>byMonday\<close> is sorting by this key.\<close>

definition byMonday :: "int \<Rightarrow> int" where
  "byMonday a = (a + 6) mod 7"

section \<open>Dates\<close>

text \<open>
  The environment: today, the day of an instant in the browser's calendar, the instant a string denotes, and
  the en-CA rendering of an instant in a time zone, which fails on an unknown zone.
\<close>

record 'i date_env =
  now :: 'i
  local_day :: "'i \<Rightarrow> date"
  parse_instant :: "string \<Rightarrow> 'i"
  zone_format :: "string \<Rightarrow> 'i \<Rightarrow> string option"

datatype 'i date_arg = NoDate | DateString string | Instant 'i

definition ymd_string :: "string \<Rightarrow> bool" where
  "ymd_string s \<longleftrightarrow> length s = 10 \<and> list_all is_digit (take 4 s) \<and> s ! 4 = CHR ''-'' \<and>
     list_all is_digit (take 2 (drop 5 s)) \<and> s ! 7 = CHR ''-'' \<and> list_all is_digit (drop 8 s)"

definition ymd_date :: "string \<Rightarrow> date" where
  "ymd_date s = (case map digits_value (split_on (CHR ''-'') s) of
     y # m # d # _ \<Rightarrow> js_date (of_nat y) (of_nat m - 1) (of_nat d) | _ \<Rightarrow> 0)"

definition the_instant :: "'i date_env \<Rightarrow> 'i date_arg \<Rightarrow> 'i" where
  "the_instant env v = (case v of Instant i \<Rightarrow> i | DateString s \<Rightarrow> if s = [] then now env else parse_instant env s | NoDate \<Rightarrow> now env)"

definition same_day :: "date \<Rightarrow> date" where
  "same_day d = js_date (of_int (getFullYear d)) (of_int (getMonth d)) (of_int (getDate d))"

definition date_without_zone :: "'i date_env \<Rightarrow> 'i date_arg \<Rightarrow> date" where
  "date_without_zone env v = (case v of
     DateString s \<Rightarrow> if ymd_string s then ymd_date s else same_day (local_day env (the_instant env v))
   | _ \<Rightarrow> same_day (local_day env (the_instant env v)))"

definition recurrenceDate :: "'i date_env \<Rightarrow> 'i date_arg \<Rightarrow> string option \<Rightarrow> date" where
  "recurrenceDate env v timeZone =
     (let zoned = (case timeZone of Some z \<Rightarrow> if z = [] then None else zone_format env z (the_instant env v) | None \<Rightarrow> None)
      in case v of
           DateString s \<Rightarrow>
             if ymd_string s then ymd_date s
             else (case zoned of Some r \<Rightarrow> date_without_zone env (DateString r) | None \<Rightarrow> date_without_zone env v)
         | _ \<Rightarrow> (case zoned of Some r \<Rightarrow> date_without_zone env (DateString r) | None \<Rightarrow> date_without_zone env v))"

definition padStart2 :: "string \<Rightarrow> string" where
  "padStart2 s = replicate (2 - length s) (CHR ''0'') @ s"

definition toDateInput :: "date \<Rightarrow> string" where
  "toDateInput d = int_str (getFullYear d) @ ''-'' @ padStart2 (int_str (getMonth d + 1)) @ ''-'' @ padStart2 (int_str (getDate d))"

definition last_day :: "int \<Rightarrow> int \<Rightarrow> int" where
  "last_day y m = getDate (js_date (of_int y) (of_int (m + 1)) 0)"

definition weekdayOrdinal :: "date \<Rightarrow> int" where
  "weekdayOrdinal d =
     (if getDate d + 7 > last_day (getFullYear d) (getMonth d) then -1 else min ((getDate d + 6) div 7) 4)"

definition defaultRecurrence :: "date \<Rightarrow> frequency \<Rightarrow> recurrence_schedule" where
  "defaultRecurrence anchor f = \<lparr>freq = f, interval = 1, weekdays = [getDay anchor], monthMode = ByDay,
     monthDay = of_int (getDate anchor), ordinal = weekdayOrdinal anchor, weekday = getDay anchor,
     month_no = of_int (getMonth anchor + 1)\<rparr>"

section \<open>The stored form\<close>

definition without_rrule :: "string \<Rightarrow> string" where
  "without_rrule s = (case strip_prefix ''RRULE:'' s of Some t \<Rightarrow> t | None \<Rightarrow> s)"

definition field_pair :: "string \<Rightarrow> string \<times> string option" where
  "field_pair part = (case split_on (CHR ''='') part of k # v # _ \<Rightarrow> (k, Some v) | [k] \<Rightarrow> (k, None) | [] \<Rightarrow> ([], None))"

definition rule_fields :: "string \<Rightarrow> (string \<times> string option) list" where
  "rule_fields s = rev (map field_pair (split_on (CHR '';'') s))"

text \<open>\<open>fields.get(k)\<close>.\<close>

definition field :: "(string \<times> string option) list \<Rightarrow> string \<Rightarrow> string option" where
  "field fs k = (case map_of fs k of Some v \<Rightarrow> v | None \<Rightarrow> None)"

definition frequency_of :: "string option \<Rightarrow> frequency option" where
  "frequency_of v = (case map_option (map latin_lower) v of
     None \<Rightarrow> None
   | Some f \<Rightarrow> if f = ''daily'' then Some Daily else if f = ''weekly'' then Some Weekly
               else if f = ''monthly'' then Some Monthly else if f = ''yearly'' then Some Yearly else None)"

text \<open>\<open>Number(x) || d\<close>.\<close>

definition number_or :: "rat \<Rightarrow> string option \<Rightarrow> rat" where
  "number_or d v = (case Option.bind v js_number of Some q \<Rightarrow> if q = 0 then d else q | None \<Rightarrow> d)"

definition code_index :: "string \<Rightarrow> int" where
  "code_index c = (case find_index (\<lambda>x. x = c) CODES of Some i \<Rightarrow> int i | None \<Rightarrow> -1)"

text \<open>The groups of \<open>/^(-?\d)([A-Z]{2})$/\<close>.\<close>

definition ordinal_day :: "string \<Rightarrow> (int \<times> string) option" where
  "ordinal_day day =
     (let neg = day \<noteq> [] \<and> hd day = CHR ''-''; s = (if neg then tl day else day)
      in if length s = 3 \<and> is_digit (s ! 0) \<and> list_all (\<lambda>c. c \<in> set ''ABCDEFGHIJKLMNOPQRSTUVWXYZ'') (drop 1 s)
         then Some ((if neg then -1 else 1) * int (digit_value (s ! 0)), drop 1 s) else None)"

definition apply_days :: "string list \<Rightarrow> recurrence_schedule \<Rightarrow> recurrence_schedule" where
  "apply_days days s =
     (case List.map_filter ordinal_day days of
        (o', code) # _ \<Rightarrow> s\<lparr>monthMode := ByWeekday, ordinal := o', weekday := max 0 (code_index code)\<rparr>
      | [] \<Rightarrow> if days \<noteq> [] then s\<lparr>weekdays := sort_key byMonday (filter (\<lambda>d. d \<ge> 0) (map code_index days))\<rparr> else s)"

definition apply_month_day :: "recurrence_schedule \<Rightarrow> (string \<times> string option) list \<Rightarrow> recurrence_schedule \<Rightarrow> recurrence_schedule" where
  "apply_month_day base fs s =
     (if ''BYMONTHDAY'' \<in> fst ` set fs
      then s\<lparr>monthMode := ByDay, monthDay := number_or (monthDay base) (field fs ''BYMONTHDAY'')\<rparr> else s)"

definition apply_month :: "recurrence_schedule \<Rightarrow> (string \<times> string option) list \<Rightarrow> recurrence_schedule \<Rightarrow> recurrence_schedule" where
  "apply_month base fs s =
     (if ''BYMONTH'' \<in> fst ` set fs then s\<lparr>month_no := number_or (month_no base) (field fs ''BYMONTH'')\<rparr> else s)"

definition parse_interval :: "string option \<Rightarrow> rat" where
  "parse_interval v = min MAX_RECURRENCE_INTERVAL (max 1 (case v of None \<Rightarrow> 1 | Some _ \<Rightarrow> number_or 1 v))"

definition by_days :: "(string \<times> string option) list \<Rightarrow> string list" where
  "by_days fs = filter (\<lambda>d. d \<noteq> []) (split_on (CHR '','') (case field fs ''BYDAY'' of Some v \<Rightarrow> v | None \<Rightarrow> []))"

definition parse_rule :: "recurrence_schedule \<Rightarrow> string \<Rightarrow> recurrence_schedule option" where
  "parse_rule base raw =
     (let fs = rule_fields (without_rrule (to_upper raw))
      in case frequency_of (field fs ''FREQ'') of
           None \<Rightarrow> None
         | Some f \<Rightarrow> Some (apply_month base fs (apply_month_day base fs (apply_days (by_days fs)
             (base\<lparr>freq := f, interval := parse_interval (field fs ''INTERVAL'')\<rparr>)))))"

definition parseRecurrence :: "string option \<Rightarrow> date \<Rightarrow> recurrence_schedule option" where
  "parseRecurrence v anchor =
     (let raw = trim (case v of Some s \<Rightarrow> s | None \<Rightarrow> []); base = defaultRecurrence anchor Weekly; low = map latin_lower raw
      in if raw = [] then None
         else if low = ''daily'' then Some (base\<lparr>freq := Daily\<rparr>)
         else if low = ''weekdays'' then Some (base\<lparr>freq := Weekly, weekdays := WORKDAYS\<rparr>)
         else if low = ''weekly'' then Some (base\<lparr>freq := Weekly\<rparr>)
         else if low = ''biweekly'' then Some (base\<lparr>freq := Weekly, interval := 2\<rparr>)
         else if low = ''monthly'' then Some (base\<lparr>freq := Monthly\<rparr>)
         else if low = ''yearly'' then Some (base\<lparr>freq := Yearly\<rparr>)
         else parse_rule base raw)"

definition code_at :: "int \<Rightarrow> string option" where
  "code_at d = (if 0 \<le> d \<and> d < 7 then Some (CODES ! nat d) else None)"

text \<open>\<open>join\<close> prints a missing code as nothing, a template as \<open>undefined\<close>.\<close>

definition joined_code :: "int \<Rightarrow> string" where
  "joined_code d = (case code_at d of Some c \<Rightarrow> c | None \<Rightarrow> [])"

definition printed_code :: "int \<Rightarrow> string" where
  "printed_code d = (case code_at d of Some c \<Rightarrow> c | None \<Rightarrow> ''undefined'')"

fun frequency_name :: "frequency \<Rightarrow> string" where
  "frequency_name Daily = ''DAILY''"
| "frequency_name Weekly = ''WEEKLY''"
| "frequency_name Monthly = ''MONTHLY''"
| "frequency_name Yearly = ''YEARLY''"

definition clamp_interval :: "rat \<Rightarrow> int" where
  "clamp_interval q = (let r = \<lfloor>q + 1 / 2\<rfloor> in min 99 (max 1 (if r = 0 then 1 else r)))"

definition rule_head :: "frequency \<Rightarrow> int \<Rightarrow> string list" where
  "rule_head f n = (''FREQ='' @ frequency_name f) # (if n > 1 then [''INTERVAL='' @ int_str n] else [])"

definition serializeRecurrence :: "recurrence_schedule \<Rightarrow> string" where
  "serializeRecurrence s =
     (let n = clamp_interval (interval s); parts = rule_head (freq s) n; days = sort_key byMonday (js_uniq (weekdays s))
      in case freq s of
           Daily \<Rightarrow> if n = 1 then ''daily'' else ''FREQ=DAILY;INTERVAL='' @ int_str n
         | Weekly \<Rightarrow>
             if n = 1 \<and> days = WORKDAYS then ''weekdays''
             else join_with '';'' (parts @ [''BYDAY='' @ join_with '','' (map joined_code (if days = [] then [1] else days))])
         | _ \<Rightarrow>
             join_with '';'' (parts @ (if freq s = Yearly then [''BYMONTH='' @ num_str (month_no s)] else []) @
               [if monthMode s = ByWeekday then ''BYDAY='' @ int_str (ordinal s) @ printed_code (weekday s)
                else ''BYMONTHDAY='' @ num_str (monthDay s)]))"

definition simpleRecurrence :: "frequency \<Rightarrow> rat \<Rightarrow> string" where
  "simpleRecurrence f i =
     (let n = clamp_interval i in ''FREQ='' @ frequency_name f @ (if n > 1 then '';INTERVAL='' @ int_str n else []))"

definition anchorRecurrence :: "recurrence_schedule \<Rightarrow> date \<Rightarrow> recurrence_schedule" where
  "anchorRecurrence s anchor = (defaultRecurrence anchor (freq s))\<lparr>interval := interval s\<rparr>"

definition isAnchoredRecurrence :: "recurrence_schedule \<Rightarrow> date \<Rightarrow> bool" where
  "isAnchoredRecurrence s anchor =
     (let dayMatches = (monthMode s = ByDay \<and> monthDay s = of_int (getDate anchor))
      in case freq s of
           Daily \<Rightarrow> True
         | Weekly \<Rightarrow> weekdays s = [getDay anchor]
         | Monthly \<Rightarrow> dayMatches
         | Yearly \<Rightarrow> dayMatches \<and> month_no s = of_int (getMonth anchor + 1))"

definition serializeRecurrenceFrom :: "recurrence_schedule \<Rightarrow> date \<Rightarrow> string" where
  "serializeRecurrenceFrom s firstDue =
     (if isAnchoredRecurrence s firstDue then simpleRecurrence (freq s) (interval s) else serializeRecurrence s)"

section \<open>The dates of a schedule\<close>

text \<open>Year and month may be fractions where an interval has been added to them.\<close>

definition monthOccurrence :: "recurrence_schedule \<Rightarrow> rat \<Rightarrow> rat \<Rightarrow> date" where
  "monthOccurrence s year month =
     (let last = getDate (js_date year (month + 1) 0)
      in if monthMode s = ByWeekday then
           if ordinal s < 0 then
             (let d = js_date year month (of_int last)
              in make_day (getFullYear d) (getMonth d) (last - (getDay d - weekday s + 7) mod 7))
           else js_date year month
             (of_int (1 + (weekday s - getDay (js_date year month 1) + 7) mod 7 + 7 * (ordinal s - 1)))
         else js_date year month (if monthDay s < 0 \<or> monthDay s > of_int last then of_int last else monthDay s))"

definition addDays :: "date \<Rightarrow> rat \<Rightarrow> date" where
  "addDays d days = js_date (of_int (getFullYear d)) (of_int (getMonth d)) (of_int (getDate d) + days)"

definition firstRecurrenceOnOrAfter :: "recurrence_schedule \<Rightarrow> date \<Rightarrow> date" where
  "firstRecurrenceOnOrAfter s from =
     (let start = same_day from; y = of_int (getFullYear start); m = of_int (getMonth start)
      in case freq s of
           Daily \<Rightarrow> start
         | Weekly \<Rightarrow>
             (let days = (if weekdays s = [] then [getDay start] else weekdays s)
              in case find (\<lambda>d. getDay d \<in> set days) (map (\<lambda>k. js_date y m (of_int (getDate start) + of_nat k)) [0..<7]) of
                   Some d \<Rightarrow> d | None \<Rightarrow> start)
         | Monthly \<Rightarrow> (let d = monthOccurrence s y m in if d \<ge> start then d else monthOccurrence s y (m + 1))
         | Yearly \<Rightarrow>
             (case find (\<lambda>d. d \<ge> start) (map (\<lambda>k. monthOccurrence s (y + of_nat k) (month_no s - 1)) [0..<9]) of
                Some d \<Rightarrow> d | None \<Rightarrow> start))"

definition defaultFirstDue :: "date \<Rightarrow> date" where
  "defaultFirstDue today = addDays (same_day today) 7"

definition next_weekly :: "recurrence_schedule \<Rightarrow> date \<Rightarrow> date" where
  "next_weekly s due =
     (let days = sort (map byMonday (if weekdays s = [] then [getDay due] else weekdays s)); offset = byMonday (getDay due)
      in case find (\<lambda>d. d > offset) days of
           Some later \<Rightarrow> addDays due (of_int (later - offset))
         | None \<Rightarrow> addDays due (7 * max 1 (interval s) - of_int offset + of_int (hd days)))"

definition nextRecurrenceDue :: "recurrence_schedule \<Rightarrow> date \<Rightarrow> date" where
  "nextRecurrenceDue s due =
     (let n = max 1 (interval s); y = of_int (getFullYear due); m = of_int (getMonth due)
      in case freq s of
           Daily \<Rightarrow> addDays due n
         | Weekly \<Rightarrow> next_weekly s due
         | Monthly \<Rightarrow> (let same = monthOccurrence s y m in if same > due then same else monthOccurrence s y (m + n))
         | Yearly \<Rightarrow> (let same = monthOccurrence s y (month_no s - 1)
                      in if same > due then same else monthOccurrence s (y + n) (month_no s - 1)))"

definition needs_anchor :: "recurrence_schedule \<Rightarrow> string \<Rightarrow> bool" where
  "needs_anchor s raw =
     (let fields = (\<lambda>part. hd (split_on (CHR ''='') part)) ` set (split_on (CHR '';'') raw)
      in case freq s of
           Daily \<Rightarrow> False
         | Weekly \<Rightarrow> raw \<noteq> ''WEEKDAYS'' \<and> ''BYDAY'' \<notin> fields
         | Monthly \<Rightarrow> ''BYDAY'' \<notin> fields \<and> ''BYMONTHDAY'' \<notin> fields
         | Yearly \<Rightarrow> ''BYMONTH'' \<notin> fields \<or> (''BYDAY'' \<notin> fields \<and> ''BYMONTHDAY'' \<notin> fields))"

definition defaultRecurrenceFirstDue :: "string option \<Rightarrow> date \<Rightarrow> date option" where
  "defaultRecurrenceFirstDue v today =
     (let start = same_day today
      in map_option (\<lambda>s.
           if needs_anchor s (without_rrule (to_upper (trim (case v of Some r \<Rightarrow> r | None \<Rightarrow> []))))
           then nextRecurrenceDue s start else firstRecurrenceOnOrAfter s (addDays start 1))
         (parseRecurrence v start))"

definition recurrenceDueDate :: "'i date_env \<Rightarrow> string option \<Rightarrow> string option \<Rightarrow> string option \<Rightarrow> date option" where
  "recurrenceDueDate env dueDate nextOccurrenceAt timeZone =
     (case dueDate of
        Some (c # cs) \<Rightarrow> Some (recurrenceDate env (DateString (take 10 (c # cs))) None)
      | _ \<Rightarrow> (case nextOccurrenceAt of
               Some (c # cs) \<Rightarrow> Some (recurrenceDate env (DateString (c # cs)) timeZone) | _ \<Rightarrow> None))"

section \<open>Summaries\<close>

fun ordinalLabel :: "int \<Rightarrow> string" where
  "ordinalLabel n = (if n = 1 then ''first'' else if n = 2 then ''second'' else if n = 3 then ''third''
     else if n = 4 then ''fourth'' else if n = -1 then ''last'' else ''first'')"

text \<open>\<open>replace(/\{(\w+)\}/g, \<dots>)\<close>.\<close>

function fill_holes :: "(string \<times> string) list \<Rightarrow> string \<Rightarrow> string" where
  "fill_holes vs [] = []"
| "fill_holes vs (c # cs) =
     (let w = takeWhile is_word cs; r = dropWhile is_word cs
      in if c = CHR ''{'' \<and> w \<noteq> [] \<and> r \<noteq> [] \<and> hd r = CHR ''}''
         then (case map_of vs w of Some v \<Rightarrow> v | None \<Rightarrow> []) @ fill_holes vs (tl r)
         else c # fill_holes vs cs)"
  by pat_completeness auto
termination
  by (relation "measure (\<lambda>(vs, s). length s)") (auto simp: less_Suc_eq_le intro: le_trans [OF diff_le_self length_dropWhile_le])

definition phrase :: "(string \<Rightarrow> string) \<Rightarrow> string \<Rightarrow> (string \<times> string) list \<Rightarrow> string" where
  "phrase t template vs = fill_holes vs (t template)"

text \<open>What a summary needs: the translation, and the locale's weekday names, short and long, and month names.\<close>

record texts =
  tr :: "string \<Rightarrow> string"
  short_weekday :: "int \<Rightarrow> string"
  long_weekday :: "int \<Rightarrow> string"
  month_name :: "rat \<Rightarrow> string"

definition describe_when :: "texts \<Rightarrow> recurrence_schedule \<Rightarrow> string" where
  "describe_when x s =
     (if monthMode s = ByWeekday
      then phrase (tr x) (''on the '' @ ordinalLabel (ordinal s) @ '' {weekday}'') [(''weekday'', long_weekday x (weekday s))]
      else if monthDay s < 0 then tr x ''on the last day''
      else phrase (tr x) ''on day {day}'' [(''day'', num_str (monthDay s))])"

definition describe_yearly :: "texts \<Rightarrow> recurrence_schedule \<Rightarrow> string" where
  "describe_yearly x s =
     (let month = (''month'', month_name x (month_no s))
      in if monthMode s = ByWeekday then phrase (tr x) ''{when} of {month}'' [(''when'', describe_when x s), month]
         else if monthDay s < 0 then phrase (tr x) ''on the last day of {month}'' [month]
         else phrase (tr x) ''on {month} {day}'' [month, (''day'', num_str (monthDay s))])"

definition describe_schedule :: "texts \<Rightarrow> recurrence_schedule \<Rightarrow> string" where
  "describe_schedule x s =
     (let n = interval s; hole = (''n'', num_str n)
      in case freq s of
           Daily \<Rightarrow> if n = 1 then tr x ''Every day'' else phrase (tr x) ''Every {n} days'' [hole]
         | Weekly \<Rightarrow>
             (let days = sort_key byMonday (weekdays s); names = (''days'', join_with '', '' (map (short_weekday x) days))
              in if n = 1 \<and> days = WORKDAYS then tr x ''Every weekday''
                 else if n = 1 then phrase (tr x) ''Weekly on {days}'' [names]
                 else phrase (tr x) ''Every {n} weeks on {days}'' [hole, names])
         | Monthly \<Rightarrow>
             (let w = (''when'', describe_when x s)
              in if n = 1 then phrase (tr x) ''Monthly {when}'' [w] else phrase (tr x) ''Every {n} months {when}'' [hole, w])
         | Yearly \<Rightarrow>
             (let w = (''when'', describe_yearly x s)
              in if n = 1 then phrase (tr x) ''Yearly {when}'' [w] else phrase (tr x) ''Every {n} years {when}'' [hole, w]))"

definition describeRecurrence :: "texts \<Rightarrow> string option \<Rightarrow> date \<Rightarrow> string" where
  "describeRecurrence x v anchor = (case parseRecurrence v anchor of None \<Rightarrow> [] | Some s \<Rightarrow> describe_schedule x s)"

text \<open>The label of the weekdays preset holds an en dash, which is a parameter.\<close>

definition recurrencePresetOptions :: "char \<Rightarrow> texts \<Rightarrow> date \<Rightarrow> (string \<times> string) list" where
  "recurrencePresetOptions dash x anchor =
     (let w = [(''weekday'', long_weekday x (getDay anchor))];
          described = (\<lambda>f. (simpleRecurrence f 1, describeRecurrence x (Some (simpleRecurrence f 1)) anchor))
      in [(''daily'', tr x ''Daily''),
          (''weekdays'', tr x (''Every weekday (Mon'' @ [dash] @ ''Fri)'')),
          (simpleRecurrence Weekly 1, phrase (tr x) ''Weekly on {weekday}'' w),
          (simpleRecurrence Weekly 2, phrase (tr x) ''Every 2 weeks on {weekday}'' w),
          described Monthly, described Yearly])"

fun UNIT_PHRASES :: "frequency \<Rightarrow> string \<times> string" where
  "UNIT_PHRASES Daily = (''Repeats every day'', ''Repeats every {n} days'')"
| "UNIT_PHRASES Weekly = (''Repeats every week'', ''Repeats every {n} weeks'')"
| "UNIT_PHRASES Monthly = (''Repeats every month'', ''Repeats every {n} months'')"
| "UNIT_PHRASES Yearly = (''Repeats every year'', ''Repeats every {n} years'')"

definition describeRepeats :: "texts \<Rightarrow> string option \<Rightarrow> date \<Rightarrow> string" where
  "describeRepeats x v anchor =
     (case parseRecurrence v anchor of
        None \<Rightarrow> []
      | Some s \<Rightarrow>
          if \<not> isAnchoredRecurrence s anchor then describeRecurrence x v anchor
          else if interval s = 1 then tr x (fst (UNIT_PHRASES (freq s)))
          else phrase (tr x) (snd (UNIT_PHRASES (freq s))) [(''n'', num_str (interval s))])"

section \<open>The next date is a later one\<close>

abbreviation modern :: "date \<Rightarrow> bool" where
  "modern d \<equiv> 100 \<le> getFullYear d"

lemma to_integer_of_int [simp]: "to_integer (of_int i) = i"
  by (simp add: to_integer_def flip: of_int_minus)

lemma to_integer_mono: "of_int i \<le> q \<Longrightarrow> i \<le> to_integer q"
  using order_trans [OF _ le_of_int_ceiling [of q], of "of_int i"] by (auto simp: to_integer_def le_floor_iff floor_minus)

lemma js_date_at:
  "\<not> (0 \<le> to_integer y \<and> to_integer y \<le> 99) \<Longrightarrow> js_date y m d = month_first (12 * to_integer y + to_integer m) + to_integer d - 1"
  by (auto simp: js_date_def Let_def make_day_first)

lemma addDays_later: "modern d \<Longrightarrow> 1 \<le> days \<Longrightarrow> d < addDays d days"
proof -
  assume "modern d" "1 \<le> days"
  then have "of_int (getDate d + 1) \<le> of_int (getDate d) + days" by simp
  from to_integer_mono [OF this] \<open>modern d\<close> getDate_first [of d] show ?thesis
    unfolding addDays_def by (subst js_date_at) (simp_all add: month_number_def)
qed

lemma same_day_id: "modern d \<Longrightarrow> same_day d = d"
  using getDate_first [of d] by (simp add: same_day_def js_date_month month_number_def)

definition sound :: "recurrence_schedule \<Rightarrow> bool" where
  "sound s \<longleftrightarrow> ordinal s \<noteq> 0 \<and> (monthDay s < 0 \<or> 1 \<le> monthDay s) \<and> 1 \<le> month_no s"

lemma month_end:
  assumes "100 \<le> to_integer y" "0 \<le> m" "k = 12 * to_integer y + to_integer m"
  shows "getDate (js_date y (m + 1) 0) = month_first (k + 1) - month_first k" "month_number (month_first (k + 1) - 1) = k"
proof -
  have "to_integer (m + 1) = to_integer m + 1" using assms(2) by (simp add: to_integer_def)
  moreover have "to_integer 0 = 0" by (simp add: to_integer_def)
  ultimately have d: "js_date y (m + 1) 0 = month_first (k + 1) - 1"
    using assms by (subst js_date_at) (simp_all add: add.assoc)
  show k: "month_number (month_first (k + 1) - 1) = k"
    by (rule month_number_unique) (use month_first_step [of k] in simp_all)
  show "getDate (js_date y (m + 1) 0) = month_first (k + 1) - month_first k"
    using getDate_first [of "js_date y (m + 1) 0"] k d by simp
qed

lemma monthOccurrence_from:
  assumes "sound s" "100 \<le> to_integer y" "0 \<le> m"
  shows "month_first (12 * to_integer y + to_integer m) \<le> monthOccurrence s y m"
proof -
  define k where "k = 12 * to_integer y + to_integer m"
  note last = month_end [OF assms(2,3) k_def]
  have at: "js_date y m d = month_first k + to_integer d - 1" for d using assms(2) by (simp add: js_date_at k_def)
  have wd: "0 \<le> x mod 7" "x mod 7 < 7" for x :: int by simp_all
  consider (last) "monthMode s = ByWeekday" "ordinal s < 0" | (nth) "monthMode s = ByWeekday" "1 \<le> ordinal s" | (day) "monthMode s = ByDay"
    using assms(1) by (cases "monthMode s"; cases "ordinal s < 0") (auto simp: sound_def)
  then have "month_first k \<le> monthOccurrence s y m"
  proof cases
    case last
    let ?d = "month_first (k + 1) - 1"
    have "js_date y m (of_int (month_first (k + 1) - month_first k)) = ?d" by (simp add: at del: of_int_diff)
    with last show ?thesis
      using wd [of "getDay ?d - weekday s + 7"] month_first_step [of k] month_end(2) [OF assms(2,3) k_def]
      by (simp add: monthOccurrence_def month_end(1) [OF assms(2,3) k_def] make_day_first month_number_def [symmetric] del: of_int_diff)
  next
    case nth
    then show ?thesis using wd(1) [of "weekday s - getDay (js_date y m 1) + 7"]
      by (simp add: monthOccurrence_def at [of "of_int _"] del: of_int_add of_int_mult of_int_diff)
  next
    case day
    have "1 \<le> to_integer (monthDay s)" if "1 \<le> monthDay s" using that to_integer_mono [of 1] by simp
    with day show ?thesis using month_first_step [of k] assms(1)
      by (auto simp: monthOccurrence_def last(1) at sound_def Let_def simp del: of_int_diff)
  qed
  then show ?thesis by (simp add: k_def)
qed

lemma before_next_month: "d < month_first (month_number d + 1)"
  using getDate_first [of d] getDate_range(2) [of d] by linarith

lemma monthOccurrence_later:
  assumes "sound s" "100 \<le> to_integer y" "0 \<le> m" "month_number due < 12 * to_integer y + to_integer m"
  shows "due < monthOccurrence s y m"
  by (rule less_le_trans [OF before_next_month order_trans [OF month_first_le monthOccurrence_from [OF assms(1-3)]]])
     (use assms(4) in simp)

lemma later_month:
  assumes "modern due" "sound s" "1 \<le> n"
  shows "due < monthOccurrence s (of_int (getFullYear due)) (of_int (getMonth due) + n)"
proof (rule monthOccurrence_later [OF assms(2)])
  have "of_int (getMonth due + 1) \<le> of_int (getMonth due) + n" using assms(3) by simp
  from to_integer_mono [OF this] show "month_number due < 12 * to_integer (of_int (getFullYear due)) + to_integer (of_int (getMonth due) + n)"
    by (simp add: month_number_def)
qed (use assms getMonth_range [of due] in auto)

lemma later_year:
  assumes "modern due" "sound s" "1 \<le> n"
  shows "due < monthOccurrence s (of_int (getFullYear due) + n) (month_no s - 1)"
proof (rule monthOccurrence_later [OF assms(2)])
  have "of_int (getFullYear due + 1) \<le> of_int (getFullYear due) + n" using assms(3) by simp
  from to_integer_mono [OF this] have y: "getFullYear due + 1 \<le> to_integer (of_int (getFullYear due) + n)" .
  then show "100 \<le> to_integer (of_int (getFullYear due) + n)" using assms(1) by simp
  show "0 \<le> month_no s - 1" using assms(2) by (simp add: sound_def)
  then have "0 \<le> to_integer (month_no s - 1)" by (simp add: to_integer_def)
  with y getMonth_range(2) [of due] show "month_number due < 12 * to_integer (of_int (getFullYear due) + n) + to_integer (month_no s - 1)"
    by (simp add: month_number_def)
qed

lemma byMonday_range: "0 \<le> byMonday d" "byMonday d \<le> 6"
  unfolding byMonday_def by simp_all

lemma next_weekly_later: "modern due \<Longrightarrow> due < next_weekly s due"
proof -
  assume due: "modern due"
  let ?days = "sort (map byMonday (if weekdays s = [] then [getDay due] else weekdays s))"
  let ?o = "byMonday (getDay due)"
  have "set ?days \<noteq> {}" by simp
  then have "?days \<noteq> []" by force
  then have "hd ?days \<in> set ?days" by (rule hd_in_set)
  then obtain x where x: "hd ?days = byMonday x" by auto
  show ?thesis
  proof (cases "find (\<lambda>d. d > ?o) ?days")
    case None
    have "of_int ?o \<le> (6 :: rat)" "0 \<le> (of_int (byMonday x) :: rat)"
      using byMonday_range(1) [of x] byMonday_range(2) [of "getDay due"] by simp_all
    then have "1 \<le> 7 * max 1 (interval s) - of_int ?o + of_int (hd ?days)"
      unfolding x using max.cobounded1 [of 1 "interval s"] by linarith
    from addDays_later [OF due this] None show ?thesis by (simp add: next_weekly_def Let_def)
  next
    case (Some d)
    then have "?o < d" by (auto simp: find_Some_iff)
    then have "(1 :: rat) \<le> of_int (d - ?o)" by (simp del: of_int_diff)
    from addDays_later [OF due this] Some show ?thesis by (simp add: next_weekly_def Let_def)
  qed
qed

lemma next_later: "modern due \<Longrightarrow> sound s \<Longrightarrow> due < nextRecurrenceDue s due"
  by (cases "freq s") (simp_all add: nextRecurrenceDue_def Let_def addDays_later next_weekly_later later_month later_year)

lemma same_month_day: "modern d \<Longrightarrow> js_date (of_int (getFullYear d)) (of_int (getMonth d)) (of_int (getDate d) + of_nat k) = d + int k"
  using getDate_first [of d] js_date_month [of "getFullYear d" "getMonth d" "getDate d + int k"] by (simp add: month_number_def)

definition weekly_days :: "recurrence_schedule \<Rightarrow> date \<Rightarrow> int set" where
  "weekly_days s d = set (if weekdays s = [] then [getDay d] else weekdays s)"

lemma first_weekly:
  assumes "modern d" "freq s = Weekly"
  shows "firstRecurrenceOnOrAfter s d =
    (case find (\<lambda>x. getDay x \<in> weekly_days s d) (map (\<lambda>k. d + int k) [0..<7]) of Some x \<Rightarrow> x | None \<Rightarrow> d)"
  using assms by (simp add: firstRecurrenceOnOrAfter_def Let_def same_day_id same_month_day weekly_days_def cong: map_cong)

lemma getDay_week: "\<exists>k < 7. getDay (d + int k) = w" if "0 \<le> w" "w \<le> 6"
proof (intro exI conjI)
  show "nat ((w - getDay d) mod 7) < 7" by (simp add: nat_less_iff)
  have "(d + 4 + (w - getDay d) mod 7) mod 7 = (d + 4 + (w - getDay d)) mod 7" by (rule mod_add_right_eq)
  also have "\<dots> = (w + (d + 4 - (d + 4) mod 7)) mod 7" by (simp add: getDay_def algebra_simps)
  also have "\<dots> = w" using that by (simp add: minus_mod_eq_mult_div)
  finally show "getDay (d + int (nat ((w - getDay d) mod 7))) = w" by (simp add: getDay_def add.commute add.left_commute add.assoc)
qed

lemma find_upt_first:
  assumes "\<exists>k < n. P (d + int k)"
  shows "\<exists>k < n. find P (map (\<lambda>k. d + int k) [0..<n]) = Some (d + int k) \<and> P (d + int k) \<and> (\<forall>j < k. \<not> P (d + int j))"
proof -
  have "find P (map (\<lambda>k. d + int k) [0..<n]) \<noteq> None" using assms by (auto simp: find_None_iff)
  then obtain x where x: "find P (map (\<lambda>k. d + int k) [0..<n]) = Some x" by blast
  then obtain k where "k < n" "P (d + int k)" "x = d + int k" "\<forall>j < k. \<not> P (d + int j)" by (auto simp: find_Some_iff)
  with x show ?thesis by blast
qed

lemma first_weekly_exact:
  assumes "modern d" "freq s = Weekly" "weekdays s \<noteq> []" "set (weekdays s) \<subseteq> {0..6}"
  shows "getDay (firstRecurrenceOnOrAfter s d) \<in> set (weekdays s) \<and>
    (\<forall>x \<in> {d..<firstRecurrenceOnOrAfter s d}. getDay x \<notin> set (weekdays s))"
proof -
  let ?P = "\<lambda>x. getDay x \<in> weekly_days s d"
  have w: "weekly_days s d = set (weekdays s)" using assms(3) by (simp add: weekly_days_def)
  have "hd (weekdays s) \<in> set (weekdays s)" using assms(3) by simp
  with assms(4) getDay_week [of "hd (weekdays s)" d] have "\<exists>k < 7. ?P (d + int k)" unfolding w by force
  from find_upt_first [OF this] obtain k where k: "firstRecurrenceOnOrAfter s d = d + int k" "?P (d + int k)" "\<forall>j < k. \<not> ?P (d + int j)"
    using first_weekly [OF assms(1,2)] by auto
  have "\<not> ?P x" if "d \<le> x" "x < d + int k" for x
    using k(3) [rule_format, of "nat (x - d)"] that by simp
  with k show ?thesis by (simp add: w)
qed

lemma first_on_or_after: "modern d \<Longrightarrow> sound s \<Longrightarrow> d \<le> firstRecurrenceOnOrAfter s d"
proof (cases "freq s")
  case Weekly
  assume "modern d"
  then show ?thesis unfolding first_weekly [OF \<open>modern d\<close> Weekly] by (auto simp: find_Some_iff split: option.splits)
next
  case Monthly
  assume "modern d" "sound s"
  from later_month [OF this, of 1] this Monthly show ?thesis by (simp add: firstRecurrenceOnOrAfter_def Let_def same_day_id)
qed (auto simp: firstRecurrenceOnOrAfter_def Let_def same_day_id find_Some_iff split: option.splits)

text \<open>
  C24. A schedule never goes back or stands still: its first date is on or after the day it is asked for, and
  the date after a due date is a later one. The first date of a weekly schedule falls on one of its weekdays,
  and no earlier day does.
\<close>

theorem recurrence_moves_forward:
  assumes "modern d" and "sound s"
  shows "d < nextRecurrenceDue s d \<and> d \<le> firstRecurrenceOnOrAfter s d \<and>
    (freq s = Weekly \<and> weekdays s \<noteq> [] \<and> set (weekdays s) \<subseteq> {0..6} \<longrightarrow>
      getDay (firstRecurrenceOnOrAfter s d) \<in> set (weekdays s) \<and>
      (\<forall>x \<in> {d..<firstRecurrenceOnOrAfter s d}. getDay x \<notin> set (weekdays s)))"
  using next_later [OF assms] first_on_or_after [OF assms] first_weekly_exact [OF assms(1)] by blast

theorem recurrence_moves_forward_witness:
  "20000 < nextRecurrenceDue (defaultRecurrence 20000 Monthly) 20000"
proof -
  have "modern 20000" by code_simp
  moreover have "sound (defaultRecurrence 20000 Monthly)" by code_simp
  ultimately show ?thesis using recurrence_moves_forward [of 20000 "defaultRecurrence 20000 Monthly"] by blast
qed

end
