(* ===== verification/Recurrence_Stored.thy ===== *)
theory Recurrence_Stored
  imports Recurrence
begin

text \<open>
  The stored form of a schedule, a preset name or a rule, is read back as a schedule with the same dates: the
  fields of a rule survive \<open>join\<close> and \<open>split\<close>, numbers survive \<open>String\<close> and \<open>Number\<close>, and the weekday codes survive
  their lookup.
\<close>

section \<open>Stored schedules are read back\<close>

definition rule_alphabet :: string where
  "rule_alphabet = ''ABCDEFGHIJKLMNOPQRSTUVWXYZ0123456789,-''"

definition safe :: "char \<Rightarrow> bool" where
  "safe c \<longleftrightarrow> c \<in> set rule_alphabet"

lemma safe_chars: "list_all (\<lambda>c. \<not> is_space c \<and> latin_upper c = [c] \<and> c \<noteq> CHR ''='' \<and> c \<noteq> CHR '';'') rule_alphabet"
  by code_simp

lemma safe_char: "safe c \<Longrightarrow> \<not> is_space c \<and> latin_upper c = [c] \<and> c \<noteq> CHR ''='' \<and> c \<noteq> CHR '';''"
  using safe_chars by (simp add: safe_def list_all_iff)

lemma rule_separators: "\<not> is_space (CHR ''='') \<and> latin_upper (CHR ''='') = [CHR ''='']" "\<not> is_space (CHR '';'') \<and> latin_upper (CHR '';'') = [CHR '';'']"
  by code_simp+

lemma to_upper_id: "list_all (\<lambda>c. latin_upper c = [c]) s \<Longrightarrow> to_upper s = s"
  by (induction s) (auto simp: to_upper_def)

lemma trim_id: "list_all (\<lambda>c. \<not> is_space c) s \<Longrightarrow> trim s = s"
proof -
  assume s: "list_all (\<lambda>c. \<not> is_space c) s"
  then have "dropWhile is_space s = s" by (cases s) auto
  moreover have "dropWhile is_space (rev s) = rev s" using s by (cases s rule: rev_cases) auto
  ultimately show ?thesis by (simp add: trim_def trim_start_def trim_end_def)
qed

definition rule_part :: "string \<times> string \<Rightarrow> string" where
  "rule_part kv = fst kv @ ''='' @ snd kv"

definition safe_part :: "string \<times> string \<Rightarrow> bool" where
  "safe_part kv \<longleftrightarrow> list_all safe (fst kv) \<and> list_all safe (snd kv)"

lemma field_pair_part: "safe_part kv \<Longrightarrow> field_pair (rule_part kv) = (fst kv, Some (snd kv))"
proof -
  assume s: "safe_part kv"
  then have "CHR ''='' \<notin> set (fst kv)" "CHR ''='' \<notin> set (snd kv)" by (auto simp: safe_part_def list_all_iff dest: safe_char)
  then have "split_on (CHR ''='') (rule_part kv) = [fst kv, snd kv]"
    by (simp add: rule_part_def split_on_append split_on_free)
  then show ?thesis by (simp add: field_pair_def)
qed

lemma part_chars: "safe_part kv \<Longrightarrow> c \<in> set (rule_part kv) \<Longrightarrow> safe c \<or> c = CHR ''=''"
  by (auto simp: safe_part_def rule_part_def list_all_iff)

lemma set_join: "set (join_with [c] ps) \<subseteq> insert c (\<Union>p \<in> set ps. set p)"
  by (induction "[c]" ps rule: join_with.induct) auto

lemma rule_chars:
  assumes "list_all safe_part kvs"
  shows "list_all (\<lambda>c. \<not> is_space c \<and> latin_upper c = [c]) (join_with '';'' (map rule_part kvs))"
proof -
  have "\<not> is_space c \<and> latin_upper c = [c]" if c: "c \<in> set (join_with '';'' (map rule_part kvs))" for c
  proof -
    have "c = CHR '';'' \<or> c = CHR ''='' \<or> safe c"
      using c set_join [of "CHR '';''" "map rule_part kvs"] assms part_chars by (fastforce simp: list_all_iff)
    then show ?thesis using rule_separators safe_char by blast
  qed
  then show ?thesis by (simp add: list_all_iff)
qed

lemma rule_fields_parts:
  assumes "list_all safe_part kvs" "kvs \<noteq> []"
  shows "rule_fields (join_with '';'' (map rule_part kvs)) = rev (map (\<lambda>kv. (fst kv, Some (snd kv))) kvs)"
proof -
  have "CHR '';'' \<notin> set (rule_part kv)" if "kv \<in> set kvs" for kv
    using assms(1) that part_chars [of kv "CHR '';''"] safe_char [of "CHR '';''"] by (auto simp: list_all_iff)
  then have "split_on (CHR '';'') (join_with '';'' (map rule_part kvs)) = map rule_part kvs"
    using assms(2) by (intro split_join) auto
  then show ?thesis using assms(1) by (simp add: rule_fields_def field_pair_part list_all_iff cong: map_cong)
qed

lemma digit_chars: "list_all (\<lambda>c. safe c \<and> c \<noteq> CHR ''-'' \<and> c \<noteq> CHR ''+'' \<and> latin_lower c = c \<and> c \<noteq> CHR ''x'' \<and> c \<noteq> CHR ''o'' \<and> c \<noteq> CHR ''b'' \<and> \<not> is_space c) ''0123456789''"
  by code_simp

lemma digit_char: "is_digit c \<Longrightarrow> safe c \<and> c \<noteq> CHR ''-'' \<and> c \<noteq> CHR ''+'' \<and> latin_lower c = c \<and> c \<noteq> CHR ''x'' \<and> c \<noteq> CHR ''o'' \<and> c \<noteq> CHR ''b'' \<and> \<not> is_space c"
  unfolding is_digit_def using digit_chars [unfolded list_all_iff] by blast

lemma safe_int_str: "list_all safe (int_str i)"
proof -
  have "safe (CHR ''-'')" by code_simp
  then show ?thesis using nat_str_digits digit_char by (auto simp: int_str_def list_all_iff)
qed

lemma unsigned_decimal_nat_str: "unsigned_decimal (nat_str n) = Some (of_nat n)"
proof -
  have i: "takeWhile is_digit (nat_str n) = nat_str n" and r: "dropWhile is_digit (nat_str n) = []"
    using nat_str_digits by (auto simp: takeWhile_eq_all_conv dropWhile_eq_Nil_conv)
  show ?thesis unfolding unsigned_decimal_def i r by simp
qed

lemma digits_no_prefix:
  assumes "\<forall>c \<in> set s. is_digit c" "s \<noteq> []"
  shows "map latin_lower (take 2 s) \<notin> {''0x'', ''0o'', ''0b''} \<and> split_sign s = (False, s)"
proof -
  obtain c cs where s: "s = c # cs" using assms(2) by (cases s) auto
  have "c \<noteq> CHR ''-''" "c \<noteq> CHR ''+''" using digit_char [of c] assms(1) s by auto
  then have "split_sign s = (False, s)" by (simp add: s split_sign_def)
  moreover have "map latin_lower (take 2 s) \<notin> {''0x'', ''0o'', ''0b''}"
  proof (cases cs)
    case (Cons d ds)
    then have "latin_lower d = d \<and> d \<noteq> CHR ''x'' \<and> d \<noteq> CHR ''o'' \<and> d \<noteq> CHR ''b''" using digit_char [of d] assms(1) s by simp
    then show ?thesis by (simp add: s Cons eval_nat_numeral)
  qed (simp add: s)
  ultimately show ?thesis by blast
qed

lemma js_number_int_str [simp]: "js_number (int_str i) = Some (of_int i)"
proof -
  have t: "trim (int_str i) = int_str i"
    using safe_int_str by (intro trim_id) (auto simp: list_all_iff dest: safe_char)
  show ?thesis
  proof (cases "i < 0")
    case True
    have "split_sign (int_str i) = (True, nat_str (nat (- i)))" using True by (simp add: int_str_def split_sign_def)
    moreover have "latin_lower (CHR ''-'') \<noteq> CHR ''0''" by code_simp
    then have "map latin_lower (take 2 (int_str i)) \<notin> {''0x'', ''0o'', ''0b''}" "int_str i \<noteq> []"
      using True by (simp_all add: int_str_def eval_nat_numeral)
    ultimately show ?thesis using True by (simp add: js_number_def t unsigned_decimal_nat_str)
  next
    case False
    then have e: "int_str i = nat_str (nat i)" by (simp add: int_str_def)
    then show ?thesis using False digits_no_prefix [OF nat_str_digits nat_str_nonempty, of "nat i"] t
      by (simp add: js_number_def e unsigned_decimal_nat_str)
  qed
qed

lemma preset_free:
  "raw \<noteq> [] \<Longrightarrow> hd raw = CHR ''F'' \<Longrightarrow> trim raw = raw \<Longrightarrow>
    parseRecurrence (Some raw) anchor = parse_rule (defaultRecurrence anchor Weekly) raw"
proof -
  have f: "latin_lower (CHR ''F'') = CHR ''f''" by code_simp
  assume "raw \<noteq> []" "hd raw = CHR ''F''" "trim raw = raw"
  then show ?thesis by (cases raw) (auto simp: parseRecurrence_def Let_def f)
qed

lemma parse_parts:
  assumes "list_all safe_part kvs" "kvs = (''FREQ'', f) # rest"
  shows "parseRecurrence (Some (join_with '';'' (map rule_part kvs))) anchor =
    (let base = defaultRecurrence anchor Weekly; fs = rev (map (\<lambda>kv. (fst kv, Some (snd kv))) kvs)
     in case frequency_of (field fs ''FREQ'') of
          None \<Rightarrow> None
        | Some f \<Rightarrow> Some (apply_month base fs (apply_month_day base fs (apply_days (by_days fs)
            (base\<lparr>freq := f, interval := parse_interval (field fs ''INTERVAL'')\<rparr>)))))"
proof -
  let ?raw = "join_with '';'' (map rule_part kvs)"
  have c: "list_all (\<lambda>c. \<not> is_space c) ?raw" "list_all (\<lambda>c. latin_upper c = [c]) ?raw"
    using rule_chars [OF assms(1)] by (simp_all add: list_all_iff)
  obtain x where x: "?raw = CHR ''F'' # x" using assms(2) by (cases rest) (simp_all add: rule_part_def)
  then have "without_rrule ?raw = ?raw" by (simp add: without_rrule_def strip_prefix_def)
  then have fields: "rule_fields (without_rrule (to_upper ?raw)) = rev (map (\<lambda>kv. (fst kv, Some (snd kv))) kvs)"
    unfolding to_upper_id [OF c(2)] by (simp only:) (rule rule_fields_parts [OF assms(1)], simp add: assms(2))
  have "parseRecurrence (Some ?raw) anchor = parse_rule (defaultRecurrence anchor Weekly) ?raw"
    using preset_free [of ?raw anchor] x trim_id [OF c(1)] by simp
  then show ?thesis unfolding parse_rule_def fields Let_def .
qed

definition stored_fields :: "(string \<times> string) list \<Rightarrow> (string \<times> string option) list" where
  "stored_fields kvs = rev (map (\<lambda>kv. (fst kv, Some (snd kv))) kvs)"

lemma field_stored: "distinct (map fst kvs) \<Longrightarrow> field (stored_fields kvs) k = map_of kvs k"
proof -
  assume d: "distinct (map fst kvs)"
  have "map_of (stored_fields kvs) = map_of (map (\<lambda>kv. (fst kv, Some (snd kv))) kvs)"
    unfolding stored_fields_def by (subst map_of_inject_set) (use d in \<open>simp_all add: comp_def rev_map [symmetric]\<close>)
  moreover have "map_of (map (\<lambda>kv. (fst kv, Some (snd kv))) kvs) k = map_option Some (map_of kvs k)"
    by (induction kvs) auto
  ultimately show ?thesis by (cases "map_of kvs k") (simp_all add: field_def)
qed

lemma keys_stored [simp]: "fst ` set (stored_fields kvs) = fst ` set kvs"
  by (force simp: stored_fields_def)

definition head_kvs :: "frequency \<Rightarrow> int \<Rightarrow> (string \<times> string) list" where
  "head_kvs f n = (''FREQ'', frequency_name f) # (if n > 1 then [(''INTERVAL'', int_str n)] else [])"

lemma rule_head_parts: "rule_head f n = map rule_part (head_kvs f n)"
  by (simp add: rule_head_def head_kvs_def rule_part_def)

lemma frequency_of_name: "frequency_of (Some (frequency_name f)) = Some f"
  by (rule frequency.exhaust [of f]; hypsubst; code_simp)

lemma safe_frequency: "list_all safe (frequency_name f)"
  by (rule frequency.exhaust [of f]; hypsubst; code_simp)

lemmas safe_names = safe_frequency safe_def rule_alphabet_def

lemma parse_interval_stored: "1 \<le> n \<Longrightarrow> n \<le> 99 \<Longrightarrow> parse_interval (if n > 1 then Some (int_str n) else None) = of_int n"
proof -
  assume n: "1 \<le> n" "n \<le> 99"
  then have "(1 :: rat) \<le> of_int n" "of_int n \<le> (99 :: rat)" by simp_all
  then show ?thesis using n by (auto simp: parse_interval_def number_or_def MAX_RECURRENCE_INTERVAL_def)
qed

lemma parse_stored:
  assumes "list_all safe_part kvs" "''FREQ'' \<notin> fst ` set kvs" "''INTERVAL'' \<notin> fst ` set kvs" "distinct (map fst kvs)" "1 \<le> n" "n \<le> 99"
  shows "parseRecurrence (Some (join_with '';'' (rule_head f n @ map rule_part kvs))) anchor =
    (let base = defaultRecurrence anchor Weekly; fs = stored_fields (head_kvs f n @ kvs)
     in Some (apply_month base fs (apply_month_day base fs (apply_days (by_days fs) (base\<lparr>freq := f, interval := of_int n\<rparr>)))))"
proof -
  let ?kvs = "head_kvs f n @ kvs"
  have safe: "list_all safe_part ?kvs"
    using assms(1) by (simp add: head_kvs_def safe_part_def safe_names safe_int_str)
  have d: "distinct (map fst ?kvs)" using assms(2-4) by (auto simp: head_kvs_def)
  have freq: "field (stored_fields ?kvs) ''FREQ'' = Some (frequency_name f)"
    unfolding field_stored [OF d] by (simp add: head_kvs_def)
  have "map_of kvs ''INTERVAL'' = None" using assms(3) by (simp add: map_of_eq_None_iff)
  then have int: "field (stored_fields ?kvs) ''INTERVAL'' = (if n > 1 then Some (int_str n) else None)"
    unfolding field_stored [OF d] by (simp add: head_kvs_def)
  have "?kvs = (''FREQ'', frequency_name f) # (if n > 1 then [(''INTERVAL'', int_str n)] else []) @ kvs" by (simp add: head_kvs_def)
  from parse_parts [OF safe this, of anchor] show ?thesis
    unfolding stored_fields_def [symmetric] rule_head_parts map_append [symmetric]
    by (simp only: freq int frequency_of_name parse_interval_stored [OF assms(5,6)] option.case Let_def)
qed

definition storable :: "recurrence_schedule \<Rightarrow> bool" where
  "storable s \<longleftrightarrow> interval s = of_int \<lfloor>interval s\<rfloor> \<and> 1 \<le> interval s \<and> interval s \<le> 99 \<and>
     weekdays s \<noteq> [] \<and> list_all (\<lambda>d. 0 \<le> d \<and> d \<le> 6) (weekdays s) \<and> sort_key byMonday (js_uniq (weekdays s)) = weekdays s \<and>
     -9 \<le> ordinal s \<and> ordinal s \<le> 9 \<and> 0 \<le> weekday s \<and> weekday s \<le> 6 \<and>
     monthDay s = of_int \<lfloor>monthDay s\<rfloor> \<and> monthDay s \<noteq> 0 \<and> month_no s = of_int \<lfloor>month_no s\<rfloor> \<and> month_no s \<noteq> 0"

text \<open>What the dates of a schedule depend on.\<close>

definition same_dates :: "recurrence_schedule \<Rightarrow> recurrence_schedule \<Rightarrow> bool" where
  "same_dates s r \<longleftrightarrow> freq r = freq s \<and> interval r = interval s \<and>
     (freq s = Weekly \<longrightarrow> weekdays r = weekdays s) \<and>
     (freq s \<in> {Monthly, Yearly} \<longrightarrow> monthMode r = monthMode s \<and>
       (if monthMode s = ByWeekday then ordinal r = ordinal s \<and> weekday r = weekday s else monthDay r = monthDay s)) \<and>
     (freq s = Yearly \<longrightarrow> month_no r = month_no s)"

lemma same_occurrence: "same_dates s r \<Longrightarrow> freq s \<in> {Monthly, Yearly} \<Longrightarrow> monthOccurrence r = monthOccurrence s"
proof (intro ext)
  fix y m
  assume "same_dates s r" "freq s \<in> {Monthly, Yearly}"
  then consider "monthMode r = ByWeekday" "monthMode s = ByWeekday" "ordinal r = ordinal s" "weekday r = weekday s"
    | "monthMode r = ByDay" "monthMode s = ByDay" "monthDay r = monthDay s"
    unfolding same_dates_def by (cases "monthMode s") auto
  then show "monthOccurrence r y m = monthOccurrence s y m"
    unfolding monthOccurrence_def by cases (simp_all only: if_True if_False month_mode.distinct simp_thms)
qed

lemma same_dates_next:
  assumes "same_dates s r" shows "nextRecurrenceDue r d = nextRecurrenceDue s d"
proof (cases "freq s \<in> {Monthly, Yearly}")
  case True
  with same_occurrence [OF assms True] assms show ?thesis
    unfolding nextRecurrenceDue_def same_dates_def by (auto simp: Let_def)
next
  case False
  with assms show ?thesis by (cases "freq s") (simp_all add: same_dates_def nextRecurrenceDue_def next_weekly_def Let_def cong: option.case_cong)
qed

lemma same_dates_first:
  assumes "same_dates s r" shows "firstRecurrenceOnOrAfter r d = firstRecurrenceOnOrAfter s d"
proof (cases "freq s \<in> {Monthly, Yearly}")
  case True
  with same_occurrence [OF assms True] assms show ?thesis
    unfolding firstRecurrenceOnOrAfter_def same_dates_def by (auto simp: Let_def)
next
  case False
  with assms show ?thesis by (cases "freq s") (simp_all add: same_dates_def firstRecurrenceOnOrAfter_def Let_def cong: option.case_cong)
qed

lemma clamp_stored: "storable s \<Longrightarrow> of_int (clamp_interval (interval s)) = interval s \<and> 1 \<le> clamp_interval (interval s) \<and> clamp_interval (interval s) \<le> 99"
proof -
  assume s: "storable s"
  define n where "n = \<lfloor>interval s\<rfloor>"
  have i: "interval s = of_int n" "1 \<le> n" "n \<le> 99" using s unfolding storable_def n_def by (simp_all add: le_floor_iff floor_le_iff)
  have "\<lfloor>of_int n + (1 / 2 :: rat)\<rfloor> = n" by linarith
  then show ?thesis using i by (simp add: clamp_interval_def)
qed

lemma codes: "list_all (\<lambda>d. code_index (joined_code d) = d \<and> printed_code d = joined_code d \<and> list_all safe (joined_code d) \<and>
    CHR '','' \<notin> set (joined_code d) \<and> joined_code d \<noteq> [] \<and>
     ordinal_day (joined_code d) = None) [0, 1, 2, 3, 4, 5, 6]"
  by code_simp

lemma code:
  assumes "0 \<le> d" "d \<le> 6"
  shows "code_index (joined_code d) = d" "printed_code d = joined_code d" "list_all safe (joined_code d)"
    "CHR '','' \<notin> set (joined_code d)" "joined_code d \<noteq> []" "ordinal_day (joined_code d) = None"
proof -
  have "d \<in> {0, 1, 2, 3, 4, 5, 6}" using assms by force
  with codes show "code_index (joined_code d) = d" "printed_code d = joined_code d" "list_all safe (joined_code d)"
    "CHR '','' \<notin> set (joined_code d)" "joined_code d \<noteq> []" "ordinal_day (joined_code d) = None"
    unfolding list_all_iff by (metis (no_types, lifting) list.set(1) list.set(2))+
qed

lemma ordinal_codes: "list_all (\<lambda>o'. list_all (\<lambda>w. ordinal_day (int_str o' @ joined_code w) = Some (o', joined_code w) \<and>
    by_days [(''BYDAY'', Some (int_str o' @ joined_code w))] = [int_str o' @ joined_code w]) [0..6]) [-9..9]"
  by code_simp

lemma ordinal_code:
  assumes "-9 \<le> o'" "o' \<le> 9" "0 \<le> w" "w \<le> 6" "field fs ''BYDAY'' = Some (int_str o' @ joined_code w)"
  shows "apply_days (by_days fs) s = s\<lparr>monthMode := ByWeekday, ordinal := o', weekday := w\<rparr>"
proof -
  have "o' \<in> set [-9..9]" "w \<in> set [0..6]" unfolding set_upto using assms(1-4) by (simp_all only: atLeastAtMost_iff simp_thms)
  with ordinal_codes have d: "ordinal_day (int_str o' @ joined_code w) = Some (o', joined_code w)"
      "by_days [(''BYDAY'', Some (int_str o' @ joined_code w))] = [int_str o' @ joined_code w]"
    unfolding list_all_iff by blast+
  have "by_days fs = by_days [(''BYDAY'', Some (int_str o' @ joined_code w))]"
    using assms(5) by (simp add: by_days_def field_def)
  then show ?thesis using d code [OF assms(3,4)] assms(3) by (simp add: apply_days_def List.map_filter_def)
qed

lemma no_days: "field fs ''BYDAY'' = None \<Longrightarrow> apply_days (by_days fs) s = s"
  by (simp add: by_days_def apply_days_def List.map_filter_def)

lemma day_codes:
  assumes "ds \<noteq> []" "list_all (\<lambda>d. 0 \<le> d \<and> d \<le> 6) ds" "sort_key byMonday ds = ds"
    "field fs ''BYDAY'' = Some (join_with '','' (map joined_code ds))"
  shows "apply_days (by_days fs) s = s\<lparr>weekdays := ds\<rparr>"
proof -
  have c: "code_index (joined_code d) = d \<and> CHR '','' \<notin> set (joined_code d) \<and> joined_code d \<noteq> [] \<and> ordinal_day (joined_code d) = None"
    if "d \<in> set ds" for d using code [of d] assms(2) that by (simp add: list_all_iff)
  have "split_on (CHR '','') (join_with '','' (map joined_code ds)) = map joined_code ds"
    using assms(1) c by (intro split_join) auto
  then have b: "by_days fs = map joined_code ds"
    using assms(4) c by (simp add: by_days_def filter_id_conv)
  have "List.map_filter ordinal_day (map joined_code ds) = []" using c by (simp add: List.map_filter_def filter_empty_conv)
  moreover have "map code_index (map joined_code ds) = ds" using c by (simp add: map_idI)
  moreover have "filter (\<lambda>d. d \<ge> 0) ds = ds" using assms(2) by (simp add: filter_id_conv list_all_iff)
  ultimately show ?thesis using b assms(1,3) by (simp add: apply_days_def)
qed

lemma stored_sorted: "storable s \<Longrightarrow> sort_key byMonday (weekdays s) = weekdays s"
  unfolding storable_def by (metis sort_key_id_if_sorted sorted_sort_key)

lemma presets:
  "parseRecurrence (Some ''daily'') anchor = Some ((defaultRecurrence anchor Weekly)\<lparr>freq := Daily\<rparr>)"
  "parseRecurrence (Some ''weekdays'') anchor = Some ((defaultRecurrence anchor Weekly)\<lparr>freq := Weekly, weekdays := WORKDAYS\<rparr>)"
proof -
  have "trim ''daily'' = ''daily''" "map latin_lower ''daily'' = ''daily''" "trim ''weekdays'' = ''weekdays''" "map latin_lower ''weekdays'' = ''weekdays''"
    by code_simp+
  then show "parseRecurrence (Some ''daily'') anchor = Some ((defaultRecurrence anchor Weekly)\<lparr>freq := Daily\<rparr>)"
    "parseRecurrence (Some ''weekdays'') anchor = Some ((defaultRecurrence anchor Weekly)\<lparr>freq := Weekly, weekdays := WORKDAYS\<rparr>)"
    by (simp_all add: parseRecurrence_def Let_def del: list.map)
qed

lemma head_keys: "k \<notin> {''FREQ'', ''INTERVAL''} \<Longrightarrow> map_of (head_kvs f n @ kvs) k = map_of kvs k \<and>
    (k \<in> fst ` set (head_kvs f n @ kvs) \<longleftrightarrow> k \<in> fst ` set kvs)"
  by (auto simp: head_kvs_def)

lemma head_distinct:
  "distinct (map fst kvs) \<Longrightarrow> fst ` set kvs \<inter> {''FREQ'', ''INTERVAL''} = {} \<Longrightarrow> distinct (map fst (head_kvs f n @ kvs))"
  by (auto simp: head_kvs_def)

lemma field_head:
  "distinct (map fst kvs) \<Longrightarrow> fst ` set kvs \<inter> {''FREQ'', ''INTERVAL''} = {} \<Longrightarrow> k \<notin> {''FREQ'', ''INTERVAL''} \<Longrightarrow>
    field (stored_fields (head_kvs f n @ kvs)) k = map_of kvs k"
  using field_stored [OF head_distinct] head_keys by metis

text \<open>The fields a stored rule of months or years has after its head.\<close>

definition month_kvs :: "recurrence_schedule \<Rightarrow> (string \<times> string) list" where
  "month_kvs s = (if freq s = Yearly then [(''BYMONTH'', num_str (month_no s))] else []) @
     [if monthMode s = ByWeekday then (''BYDAY'', int_str (ordinal s) @ joined_code (weekday s)) else (''BYMONTHDAY'', num_str (monthDay s))]"

lemma safe_num: "q = of_int \<lfloor>q\<rfloor> \<Longrightarrow> list_all safe (num_str q)"
  using safe_int_str [of "\<lfloor>q\<rfloor>"] num_str_int [of "\<lfloor>q\<rfloor>"] by simp

lemma number_num: "q = of_int \<lfloor>q\<rfloor> \<Longrightarrow> q \<noteq> 0 \<Longrightarrow> number_or d (Some (num_str q)) = q"
proof -
  assume q: "q = of_int \<lfloor>q\<rfloor>" "q \<noteq> 0"
  have "js_number (num_str q) = Some q" using js_number_int_str [of "\<lfloor>q\<rfloor>"] num_str_int [of "\<lfloor>q\<rfloor>"] q(1) by simp
  then show ?thesis using q(2) by (simp add: number_or_def)
qed

lemma serialize_months:
  assumes "storable s" "freq s \<in> {Monthly, Yearly}"
  shows "serializeRecurrence s = join_with '';'' (rule_head (freq s) (clamp_interval (interval s)) @ map rule_part (month_kvs s))"
proof -
  have "printed_code (weekday s) = joined_code (weekday s)" using assms(1) code [of "weekday s"] by (simp add: storable_def)
  then show ?thesis using assms(2)
    by (auto simp: serializeRecurrence_def Let_def month_kvs_def rule_part_def)
qed

definition stored_months :: "recurrence_schedule \<Rightarrow> (string \<times> string option) list \<Rightarrow> bool" where
  "stored_months s fs \<longleftrightarrow>
     field fs ''BYMONTH'' = (if freq s = Yearly then Some (num_str (month_no s)) else None) \<and>
     (''BYMONTH'' \<in> fst ` set fs \<longleftrightarrow> freq s = Yearly) \<and>
     field fs ''BYDAY'' = (if monthMode s = ByWeekday then Some (int_str (ordinal s) @ joined_code (weekday s)) else None) \<and>
     field fs ''BYMONTHDAY'' = (if monthMode s = ByDay then Some (num_str (monthDay s)) else None) \<and>
     (''BYMONTHDAY'' \<in> fst ` set fs \<longleftrightarrow> monthMode s = ByDay)"

lemma month_kvs_keys: "distinct (map fst (month_kvs s)) \<and> fst ` set (month_kvs s) \<inter> {''FREQ'', ''INTERVAL''} = {}"
  by (auto simp: month_kvs_def)

lemma stored_month_kvs: "stored_months s (stored_fields (head_kvs f n @ month_kvs s))"
proof -
  have keys: "k \<in> fst ` set (stored_fields (head_kvs f n @ month_kvs s)) \<longleftrightarrow> map_of (month_kvs s) k \<noteq> None"
    if "k \<notin> {''FREQ'', ''INTERVAL''}" for k
    unfolding keys_stored using head_keys [OF that] map_of_eq_None_iff by metis
  have fields: "field (stored_fields (head_kvs f n @ month_kvs s)) k = map_of (month_kvs s) k" if "k \<notin> {''FREQ'', ''INTERVAL''}" for k
    using field_head month_kvs_keys that by blast
  have "map_of (month_kvs s) ''BYMONTH'' = (if freq s = Yearly then Some (num_str (month_no s)) else None)"
    "map_of (month_kvs s) ''BYDAY'' = (if monthMode s = ByWeekday then Some (int_str (ordinal s) @ joined_code (weekday s)) else None)"
    "map_of (month_kvs s) ''BYMONTHDAY'' = (if monthMode s = ByDay then Some (num_str (monthDay s)) else None)"
    by (cases "monthMode s"; simp add: month_kvs_def)+
  then show ?thesis unfolding stored_months_def by (simp add: keys fields del: keys_stored)
qed

lemma apply_stored_months:
  assumes "storable s" "stored_months s fs"
  shows "same_dates s (apply_month base fs (apply_month_day base fs (apply_days (by_days fs) (base\<lparr>freq := freq s, interval := interval s\<rparr>))))
    \<or> freq s \<notin> {Monthly, Yearly}"
proof (cases "monthMode s")
  case ByWeekday
  then have "field fs ''BYDAY'' = Some (int_str (ordinal s) @ joined_code (weekday s))" using assms(2) by (simp add: stored_months_def)
  with ordinal_code [of "ordinal s" "weekday s" fs] assms ByWeekday number_num [of "month_no s"] show ?thesis
    by (auto simp: same_dates_def apply_month_def apply_month_day_def storable_def stored_months_def)
next
  case ByDay
  with no_days [of fs] assms number_num [of "month_no s"] number_num [of "monthDay s"] show ?thesis
    by (auto simp: same_dates_def apply_month_def apply_month_day_def storable_def stored_months_def)
qed

lemma parse_months:
  assumes s: "storable s" and f: "freq s \<in> {Monthly, Yearly}"
  shows "\<exists>r. parseRecurrence (Some (serializeRecurrence s)) anchor = Some r \<and> same_dates s r"
proof -
  define fs where "fs = stored_fields (head_kvs (freq s) (clamp_interval (interval s)) @ month_kvs s)"
  let ?base = "defaultRecurrence anchor Weekly"
  note n = clamp_stored [OF s]
  have keys: "''FREQ'' \<notin> fst ` set (month_kvs s)" "''INTERVAL'' \<notin> fst ` set (month_kvs s)" using month_kvs_keys [of s] by blast+
  have safe: "list_all safe_part (month_kvs s)"
    using s code(3) [of "weekday s"] by (simp add: month_kvs_def safe_part_def storable_def safe_num safe_int_str safe_names)
  have "parseRecurrence (Some (serializeRecurrence s)) anchor = Some (apply_month ?base fs (apply_month_day ?base fs
      (apply_days (by_days fs) (?base\<lparr>freq := freq s, interval := interval s\<rparr>))))"
    unfolding serialize_months [OF s f] fs_def
    using parse_stored [OF safe keys(1,2) conjunct1 [OF month_kvs_keys], of "clamp_interval (interval s)" "freq s" anchor] n
    by (simp add: Let_def)
  moreover have "stored_months s fs" unfolding fs_def by (rule stored_month_kvs)
  ultimately show ?thesis using apply_stored_months [OF s, of fs ?base] f by auto
qed

lemma parse_daily:
  assumes s: "storable s" and f: "freq s = Daily"
  shows "\<exists>r. parseRecurrence (Some (serializeRecurrence s)) anchor = Some r \<and> same_dates s r"
proof (cases "clamp_interval (interval s) = 1")
  case True
  with clamp_stored [OF s] f show ?thesis
    by (simp add: serializeRecurrence_def presets same_dates_def defaultRecurrence_def)
next
  case False
  let ?n = "clamp_interval (interval s)"
  have n: "1 < ?n" using False clamp_stored [OF s] by simp
  have "serializeRecurrence s = join_with '';'' (rule_head Daily ?n @ map rule_part [])"
    using f n by (simp add: serializeRecurrence_def rule_head_def)
  moreover have "field (stored_fields (head_kvs Daily ?n @ [])) ''BYDAY'' = None" "''BYMONTHDAY'' \<notin> fst ` set (head_kvs Daily ?n)" "''BYMONTH'' \<notin> fst ` set (head_kvs Daily ?n)"
    using field_head [of "[]" "''BYDAY''" Daily ?n] head_keys [of _ Daily ?n "[]"] by simp_all
  ultimately show ?thesis using parse_stored [of "[]" ?n Daily anchor] clamp_stored [OF s] f no_days
    by (simp add: Let_def apply_month_def apply_month_day_def same_dates_def)
qed

lemma parse_weekly:
  assumes s: "storable s" and f: "freq s = Weekly"
  shows "\<exists>r. parseRecurrence (Some (serializeRecurrence s)) anchor = Some r \<and> same_dates s r"
proof -
  let ?n = "clamp_interval (interval s)"
  let ?kvs = "[(''BYDAY'', join_with '','' (map joined_code (weekdays s)))]"
  let ?fs = "stored_fields (head_kvs Weekly ?n @ ?kvs)"
  have days: "sort_key byMonday (js_uniq (weekdays s)) = weekdays s" "weekdays s \<noteq> []" "list_all (\<lambda>d. 0 \<le> d \<and> d \<le> 6) (weekdays s)"
    using s by (simp_all add: storable_def)
  show ?thesis
  proof (cases "?n = 1 \<and> weekdays s = WORKDAYS")
    case True
    with clamp_stored [OF s] f days show ?thesis
      by (simp add: serializeRecurrence_def presets same_dates_def defaultRecurrence_def)
  next
    case False
    have comma: "safe (CHR '','')" by code_simp
    have "safe c" if "c \<in> set (join_with '','' (map joined_code (weekdays s)))" for c
    proof -
      have "c = CHR '','' \<or> (\<exists>d \<in> set (weekdays s). c \<in> set (joined_code d))"
        using that set_join [of "CHR '',''" "map joined_code (weekdays s)"] by auto
      then show ?thesis using comma code(3) days(3) unfolding list_all_iff by blast
    qed
    then have "list_all safe (join_with '','' (map joined_code (weekdays s)))" by (simp only: list_all_iff) blast
    then have safe: "list_all safe_part ?kvs" by (simp add: safe_part_def safe_names)
    have "serializeRecurrence s = join_with '';'' (rule_head Weekly ?n @ map rule_part ?kvs)"
      using f days False by (auto simp: serializeRecurrence_def rule_part_def)
    moreover have "field ?fs ''BYDAY'' = Some (join_with '','' (map joined_code (weekdays s)))"
      using field_head [of ?kvs "''BYDAY''" Weekly ?n] by simp
    from day_codes [OF days(2,3) stored_sorted [OF s] this]
    have "apply_days (by_days ?fs) x = x\<lparr>weekdays := weekdays s\<rparr>" for x by simp
    moreover have "''BYMONTHDAY'' \<notin> fst ` set ?fs" "''BYMONTH'' \<notin> fst ` set ?fs"
      unfolding keys_stored using head_keys [of "''BYMONTHDAY''" Weekly ?n ?kvs] head_keys [of "''BYMONTH''" Weekly ?n ?kvs] by simp_all
    ultimately show ?thesis using parse_stored [OF safe, of ?n Weekly anchor] clamp_stored [OF s] f
      by (simp add: Let_def apply_month_def apply_month_day_def same_dates_def del: keys_stored)
  qed
qed

text \<open>
  C25. A schedule of the editor is read back from its stored form with the same frequency and interval, and it
  falls on the same dates, whatever day the reader anchors it on.
\<close>

theorem recurrence_roundtrip:
  assumes "storable s"
  shows "\<exists>r. parseRecurrence (Some (serializeRecurrence s)) anchor = Some r \<and> freq r = freq s \<and> interval r = interval s \<and>
    (\<forall>d. nextRecurrenceDue r d = nextRecurrenceDue s d \<and> firstRecurrenceOnOrAfter r d = firstRecurrenceOnOrAfter s d)"
proof -
  obtain r where "parseRecurrence (Some (serializeRecurrence s)) anchor = Some r" and r: "same_dates s r"
    using parse_daily [OF assms] parse_weekly [OF assms] parse_months [OF assms] by (cases "freq s") auto
  moreover have "freq r = freq s" "interval r = interval s" using r by (simp_all add: same_dates_def)
  ultimately show ?thesis using same_dates_next [OF r] same_dates_first [OF r] by blast
qed

definition sample_schedule :: recurrence_schedule where
  "sample_schedule = \<lparr>freq = Weekly, interval = 2, weekdays = [1, 5], monthMode = ByDay, monthDay = 3, ordinal = 1, weekday = 3, month_no = 4\<rparr>"

theorem recurrence_roundtrip_witness:
  "\<exists>r. parseRecurrence (Some (serializeRecurrence sample_schedule)) 20000 = Some r \<and> freq r = Weekly \<and> interval r = 2 \<and>
    nextRecurrenceDue r 20000 = nextRecurrenceDue sample_schedule 20000"
proof -
  have "storable sample_schedule" by code_simp
  moreover have "freq sample_schedule = Weekly" "interval sample_schedule = 2" by (simp_all add: sample_schedule_def)
  ultimately show ?thesis using recurrence_roundtrip [of sample_schedule 20000] by metis
qed

end
