(* ===== verification/Sdk_Errors.thy ===== *)
theory Sdk_Errors
  imports Web_Text
begin

text \<open>
  \<open>sdk/typescript/src/rate-limit.ts\<close> and \<open>errors.ts\<close>: the rate-limit headers of a response and the typed error
  of a failed one. A parsed body is a JSON value, and text that is not JSON is a JSON string, as both are the
  same to the code. The parser of HTTP dates is a parameter. A cause is not kept.
\<close>

section \<open>Rate limits\<close>

record rate_limit =
  requestsLimit :: "rat option"
  requestsRemaining :: "rat option"
  requestsResetAt :: "int option"
  complexity :: "rat option"
  complexityLimit :: "rat option"
  complexityRemaining :: "rat option"
  complexityResetAt :: "int option"
  endpointName :: "string option"
  endpointRequestsLimit :: "rat option"
  endpointRequestsRemaining :: "rat option"
  endpointRequestsResetAt :: "int option"
  retryAfter :: "rat option"

definition header_number :: "headers \<Rightarrow> string \<Rightarrow> rat option" where
  "header_number hs name =
     (case header_get hs name of
        None \<Rightarrow> None
      | Some v \<Rightarrow> if trim v = [] then None else js_number v)"

definition epoch :: "headers \<Rightarrow> string \<Rightarrow> int option" where
  "epoch hs name = map_option to_integer (header_number hs name)"

definition parseRetryAfter :: "(string \<Rightarrow> int option) \<Rightarrow> string option \<Rightarrow> int \<Rightarrow> rat option" where
  "parseRetryAfter date_parse v now =
     (case v of
        None \<Rightarrow> None
      | Some s \<Rightarrow>
          if trim s = [] then None
          else
            (case js_number s of
               Some q \<Rightarrow> Some (max 0 q)
             | None \<Rightarrow> map_option (\<lambda>d. max 0 (of_int \<lceil>rat_of_int (d - now) / 1000\<rceil>)) (date_parse s)))"

definition parseRateLimit :: "(string \<Rightarrow> int option) \<Rightarrow> headers \<Rightarrow> int \<Rightarrow> rate_limit option" where
  "parseRateLimit date_parse hs now =
     (let info = \<lparr>requestsLimit = header_number hs ''X-RateLimit-Requests-Limit'',
            requestsRemaining = header_number hs ''X-RateLimit-Requests-Remaining'',
            requestsResetAt = epoch hs ''X-RateLimit-Requests-Reset'',
            complexity = header_number hs ''X-Complexity'',
            complexityLimit = header_number hs ''X-RateLimit-Complexity-Limit'',
            complexityRemaining = header_number hs ''X-RateLimit-Complexity-Remaining'',
            complexityResetAt = epoch hs ''X-RateLimit-Complexity-Reset'',
            endpointName = header_get hs ''X-RateLimit-Endpoint-Name'',
            endpointRequestsLimit = header_number hs ''X-RateLimit-Endpoint-Requests-Limit'',
            endpointRequestsRemaining = header_number hs ''X-RateLimit-Endpoint-Requests-Remaining'',
            endpointRequestsResetAt = epoch hs ''X-RateLimit-Endpoint-Requests-Reset'',
            retryAfter = parseRetryAfter date_parse (header_get hs ''Retry-After'') now\<rparr>
      in if requestsLimit info \<noteq> None \<or> requestsRemaining info \<noteq> None \<or> requestsResetAt info \<noteq> None \<or>
            complexity info \<noteq> None \<or> complexityLimit info \<noteq> None \<or> complexityRemaining info \<noteq> None \<or>
            complexityResetAt info \<noteq> None \<or> endpointName info \<noteq> None \<or> endpointRequestsLimit info \<noteq> None \<or>
            endpointRequestsRemaining info \<noteq> None \<or> endpointRequestsResetAt info \<noteq> None \<or> retryAfter info \<noteq> None
         then Some info else None)"

section \<open>Errors\<close>

datatype error_type =
    INVALID_INPUT | AUTHENTICATION_ERROR | FORBIDDEN | FEATURE_NOT_ACCESSIBLE | NOT_FOUND | CONFLICT | RATELIMITED
  | INTERNAL_ERROR | UNAVAILABLE
  | NETWORK_ERROR | TIMEOUT | ABORTED | OAUTH_ERROR | UNKNOWN

datatype error_class =
    InvalidInputFlowError | AuthenticationFlowError | ForbiddenFlowError | FeatureNotAccessibleFlowError | NotFoundFlowError
  | ConflictFlowError | RatelimitedFlowError | InternalFlowError | UnavailableFlowError | NetworkFlowError | TimeoutFlowError
  | AbortFlowError | FlowOAuthError | UnknownFlowError

fun type_name :: "error_type \<Rightarrow> string" where
  "type_name INVALID_INPUT = ''INVALID_INPUT''"
| "type_name AUTHENTICATION_ERROR = ''AUTHENTICATION_ERROR''"
| "type_name FORBIDDEN = ''FORBIDDEN''"
| "type_name FEATURE_NOT_ACCESSIBLE = ''FEATURE_NOT_ACCESSIBLE''"
| "type_name NOT_FOUND = ''NOT_FOUND''"
| "type_name CONFLICT = ''CONFLICT''"
| "type_name RATELIMITED = ''RATELIMITED''"
| "type_name INTERNAL_ERROR = ''INTERNAL_ERROR''"
| "type_name UNAVAILABLE = ''UNAVAILABLE''"
| "type_name NETWORK_ERROR = ''NETWORK_ERROR''"
| "type_name TIMEOUT = ''TIMEOUT''"
| "type_name ABORTED = ''ABORTED''"
| "type_name OAUTH_ERROR = ''OAUTH_ERROR''"
| "type_name UNKNOWN = ''UNKNOWN''"

record error_init =
  ei_message :: string
  ei_type :: error_type
  ei_code :: "string option"
  ei_status :: "nat option"
  ei_requestId :: "string option"
  ei_method :: "string option"
  ei_url :: "string option"
  ei_body :: "json option"
  ei_rateLimit :: "rate_limit option"

record flow_error =
  fe_class :: error_class
  fe_message :: string
  fe_type :: error_type
  fe_code :: string
  fe_status :: nat
  fe_requestId :: "string option"
  fe_method :: "string option"
  fe_url :: "string option"
  fe_body :: "json option"
  fe_rateLimit :: "rate_limit option"

definition make_error :: "error_class \<Rightarrow> error_init \<Rightarrow> flow_error" where
  "make_error cls i = \<lparr>fe_class = cls, fe_message = ei_message i, fe_type = ei_type i,
     fe_code = (case ei_code i of Some c \<Rightarrow> c | None \<Rightarrow> type_name (ei_type i)),
     fe_status = (case ei_status i of Some s \<Rightarrow> s | None \<Rightarrow> 0),
     fe_requestId = ei_requestId i, fe_method = ei_method i, fe_url = ei_url i, fe_body = ei_body i,
     fe_rateLimit = ei_rateLimit i\<rparr>"

definition retryable :: "flow_error \<Rightarrow> bool" where
  "retryable e \<longleftrightarrow> fe_type e \<in> {RATELIMITED, INTERNAL_ERROR, UNAVAILABLE, NETWORK_ERROR, TIMEOUT}"

text \<open>A field of a body that is an object; an array has none of the names used.\<close>

definition body_field :: "json option \<Rightarrow> string \<Rightarrow> json option" where
  "body_field body k = (case body of Some (JObj kvs) \<Rightarrow> map_of kvs k | _ \<Rightarrow> None)"

definition string_field :: "json option \<Rightarrow> string \<Rightarrow> string option" where
  "string_field body k = (case body_field body k of Some (JStr s) \<Rightarrow> Some s | _ \<Rightarrow> None)"

text \<open>\<open>ConflictFlowError.current\<close>, \<open>RatelimitedFlowError.retryAfter\<close> and the fields of \<open>FlowOAuthError\<close>.\<close>

definition conflict_current :: "flow_error \<Rightarrow> json option" where
  "conflict_current e = body_field (fe_body e) ''current''"

definition error_retryAfter :: "flow_error \<Rightarrow> rat option" where
  "error_retryAfter e = Option.bind (fe_rateLimit e) retryAfter"

definition oauthError :: "flow_error \<Rightarrow> string" where
  "oauthError e = fe_code e"

definition errorDescription :: "flow_error \<Rightarrow> json option" where
  "errorDescription e = body_field (fe_body e) ''error_description''"

definition knownTypes :: "error_type list" where
  "knownTypes = [INVALID_INPUT, AUTHENTICATION_ERROR, FORBIDDEN, FEATURE_NOT_ACCESSIBLE, NOT_FOUND, CONFLICT, RATELIMITED,
     INTERNAL_ERROR, UNAVAILABLE]"

definition errorTypeForStatus :: "nat \<Rightarrow> error_type" where
  "errorTypeForStatus status =
     (if status = 401 then AUTHENTICATION_ERROR
      else if status = 403 then FORBIDDEN
      else if status = 404 \<or> status = 410 then NOT_FOUND
      else if status = 409 \<or> status = 412 then CONFLICT
      else if status = 429 then RATELIMITED
      else if status = 502 \<or> status = 503 \<or> status = 504 then UNAVAILABLE
      else if status \<ge> 500 then INTERNAL_ERROR
      else if status \<ge> 400 then INVALID_INPUT
      else UNKNOWN)"

fun class_of :: "error_type \<Rightarrow> error_class" where
  "class_of INVALID_INPUT = InvalidInputFlowError"
| "class_of AUTHENTICATION_ERROR = AuthenticationFlowError"
| "class_of FORBIDDEN = ForbiddenFlowError"
| "class_of FEATURE_NOT_ACCESSIBLE = FeatureNotAccessibleFlowError"
| "class_of NOT_FOUND = NotFoundFlowError"
| "class_of CONFLICT = ConflictFlowError"
| "class_of RATELIMITED = RatelimitedFlowError"
| "class_of INTERNAL_ERROR = InternalFlowError"
| "class_of UNAVAILABLE = UnavailableFlowError"
| "class_of _ = UnknownFlowError"

definition declared_type :: "json option \<Rightarrow> error_type option" where
  "declared_type body = Option.bind (string_field body ''type'') (\<lambda>t. find (\<lambda>k. type_name k = t) knownTypes)"

definition error_message :: "json option \<Rightarrow> nat \<Rightarrow> string" where
  "error_message body status =
     (case string_field body ''error'' of
        Some (c # m) \<Rightarrow> c # m
      | _ \<Rightarrow> (case string_field body ''message'' of
          Some (c # m) \<Rightarrow> c # m
        | _ \<Rightarrow> (case body of
            Some (JStr s) \<Rightarrow> if take 300 (trim s) \<noteq> [] then take 300 (trim s) else ''Flow API request failed with status '' @ nat_str status
          | _ \<Rightarrow> ''Flow API request failed with status '' @ nat_str status)))"

text \<open>An empty request id counts as none.\<close>

definition nonempty :: "string option \<Rightarrow> string option" where
  "nonempty v = (case v of Some (c # s) \<Rightarrow> Some (c # s) | _ \<Rightarrow> None)"

definition parseFlowError ::
  "(string \<Rightarrow> int option) \<Rightarrow> int \<Rightarrow> nat \<Rightarrow> json option \<Rightarrow> headers option \<Rightarrow> string option \<Rightarrow> string option \<Rightarrow> flow_error" where
  "parseFlowError date_parse now status body headers method url =
     (let type = (case declared_type body of Some t \<Rightarrow> t | None \<Rightarrow> errorTypeForStatus status)
      in make_error (class_of type)
           \<lparr>ei_message = error_message body status, ei_type = type, ei_code = string_field body ''code'', ei_status = Some status,
            ei_requestId = (case nonempty (string_field body ''requestId'') of
                Some r \<Rightarrow> Some r | None \<Rightarrow> nonempty (Option.bind headers (\<lambda>h. header_get h ''X-Request-ID''))),
            ei_method = method, ei_url = url, ei_body = body,
            ei_rateLimit = Option.bind headers (\<lambda>h. parseRateLimit date_parse h now)\<rparr>)"

lemma parseFlowError_type:
  "fe_type (parseFlowError date_parse now status body headers method url) =
     (case declared_type body of Some t \<Rightarrow> t | None \<Rightarrow> errorTypeForStatus status)"
  by (simp add: parseFlowError_def make_error_def Let_def)

text \<open>A declared type is one of the envelope's: a client-side category never comes from the server.\<close>

lemma parsed_type_from_server:
  "fe_type (parseFlowError date_parse now status body headers method url) \<notin> {NETWORK_ERROR, TIMEOUT, ABORTED, OAUTH_ERROR}"
proof -
  have "t \<notin> {NETWORK_ERROR, TIMEOUT, ABORTED, OAUTH_ERROR}" if "declared_type body = Some t" for t
  proof -
    from that obtain n where "find (\<lambda>k. type_name k = n) knownTypes = Some t" by (auto simp: declared_type_def bind_eq_Some_conv)
    then have "t \<in> set knownTypes" by (auto simp: find_Some_iff)
    then show ?thesis by (auto simp: knownTypes_def)
  qed
  moreover have "errorTypeForStatus status \<notin> {NETWORK_ERROR, TIMEOUT, ABORTED, OAUTH_ERROR}"
    by (simp add: errorTypeForStatus_def)
  ultimately show ?thesis unfolding parseFlowError_type by (auto split: option.splits)
qed

end
