(* ===== verification/Sdk_Http.thy ===== *)
theory Sdk_Http
  imports Sdk_Errors Effects
begin

text \<open>
  \<open>sdk/typescript/src/http.ts\<close>: one request of the SDK with its headers, its retries and its errors. The
  request runs as a program of \<open>Effects\<close>: it asks whether the caller's signal is aborted, for the client's
  headers, for the answer of \<open>fetch\<close>, for the text of a response, for a random number, and to wait. Timers and
  listeners are behind those questions. \<open>new URL\<close> and the parser of HTTP dates are parameters, and nothing is
  assumed of them.
\<close>

section \<open>Options\<close>

record retry_options =
  ro_retries :: "int option"
  ro_baseDelayMs :: "rat option"
  ro_maxDelayMs :: "rat option"
  ro_factor :: "rat option"
  ro_jitter :: "bool option"
  ro_retryNonIdempotent :: "bool option"

datatype retry_setting = RetryUndefined | RetryBool bool | RetryCount int | RetryOptions retry_options

record resolved_retry =
  rr_retries :: nat
  rr_baseDelayMs :: rat
  rr_maxDelayMs :: rat
  rr_factor :: rat
  rr_jitter :: bool
  rr_retryNonIdempotent :: bool

definition no_options :: retry_options where
  "no_options = \<lparr>ro_retries = None, ro_baseDelayMs = None, ro_maxDelayMs = None, ro_factor = None, ro_jitter = None,
     ro_retryNonIdempotent = None\<rparr>"

fun retry_options_of :: "retry_setting \<Rightarrow> retry_options" where
  "retry_options_of (RetryBool True) = no_options"
| "retry_options_of (RetryCount n) = no_options\<lparr>ro_retries := Some n\<rparr>"
| "retry_options_of (RetryBool False) = no_options\<lparr>ro_retries := Some 0\<rparr>"
| "retry_options_of RetryUndefined = no_options\<lparr>ro_retries := Some 0\<rparr>"
| "retry_options_of (RetryOptions o') = o'"

definition default :: "'a option \<Rightarrow> 'a \<Rightarrow> 'a" where
  "default v d = (case v of Some x \<Rightarrow> x | None \<Rightarrow> d)"

definition resolveRetry :: "retry_setting \<Rightarrow> resolved_retry" where
  "resolveRetry retry =
     (let o' = retry_options_of retry
      in \<lparr>rr_retries = nat (max 0 (default (ro_retries o') 3)), rr_baseDelayMs = default (ro_baseDelayMs o') 500,
          rr_maxDelayMs = default (ro_maxDelayMs o') 30000, rr_factor = default (ro_factor o') 2,
          rr_jitter = default (ro_jitter o') True, rr_retryNonIdempotent = default (ro_retryNonIdempotent o') False\<rparr>)"

definition idempotent :: "string list" where
  "idempotent = [''GET'', ''HEAD'', ''PUT'', ''DELETE'', ''OPTIONS'']"

section \<open>Addresses\<close>

text \<open>A query value: a date as its ISO string, any other object as its JSON, the rest as \<open>String\<close> prints it.\<close>

datatype query_value = QUndefined | QNull | QArray "query_value list" | QDate string | QObject json | QString string

primrec appendQuery :: "string \<Rightarrow> query_value \<Rightarrow> (string \<times> string) list" where
  "appendQuery key QUndefined = []"
| "appendQuery key QNull = []"
| "appendQuery key (QArray vs) = concat (map (appendQuery key) vs)"
| "appendQuery key (QDate stamp) = [(key, stamp)]"
| "appendQuery key (QObject v) = [(key, stringify v)]"
| "appendQuery key (QString s) = [(key, s)]"

text \<open>\<open>replace(/\{([^{}]+)\}/g, \<dots>)\<close>; a parameter that is missing or empty throws.\<close>

definition not_brace :: "char \<Rightarrow> bool" where
  "not_brace c \<longleftrightarrow> c \<noteq> CHR ''{'' \<and> c \<noteq> CHR ''}''"

function fill_path :: "(string \<times> string) list \<Rightarrow> string \<Rightarrow> string + string" where
  "fill_path ps [] = Inr []"
| "fill_path ps (c # cs) =
     (let name = takeWhile not_brace cs; r = dropWhile not_brace cs
      in if c = CHR ''{'' \<and> name \<noteq> [] \<and> r \<noteq> [] \<and> hd r = CHR ''}''
         then (case map_of ps name of
                 Some (v # vs) \<Rightarrow> map_sum id (\<lambda>t. encodeURIComponent (v # vs) @ t) (fill_path ps (tl r))
               | _ \<Rightarrow> Inl name)
         else map_sum id (\<lambda>t. c # t) (fill_path ps cs))"
  by pat_completeness auto
termination
  by (relation "measure (\<lambda>(ps, s). length s)") (auto simp: less_Suc_eq_le intro: le_trans [OF diff_le_self length_dropWhile_le])

definition buildPath :: "string \<Rightarrow> (string \<times> string) list \<Rightarrow> (string \<times> query_value) list \<Rightarrow> string + string" where
  "buildPath path ps query =
     (let search = form_encode (concat (map (\<lambda>kv. appendQuery (fst kv) (snd kv)) query))
      in case fill_path ps path of
           Inl name \<Rightarrow> Inl (''Missing path parameter '' @ [quote_char] @ name @ [quote_char] @ '' for '' @ path)
         | Inr filled \<Rightarrow> Inr (if search \<noteq> [] then filled @ ''?'' @ search else filled))"

section \<open>The client and its world\<close>

datatype expect = ExpectJson | ExpectNone | ExpectText | ExpectResponse

datatype user_agent = AgentDefault | AgentOff | Agent string

record http_config =
  cf_baseUrl :: string
  cf_timeout :: "nat option"
  cf_retry :: retry_setting
  cf_userAgent :: user_agent
  cf_onRateLimit :: bool
  cf_browser :: bool
  cf_version :: string
  cf_dateParse :: "string \<Rightarrow> int option"
  cf_now :: int
  cf_resolveUrl :: "string \<Rightarrow> string \<Rightarrow> string"
  cf_origin :: "string \<Rightarrow> string"

record request_spec =
  rs_method :: string
  rs_path :: string
  rs_pathParams :: "(string \<times> string) list"
  rs_query :: "(string \<times> query_value) list"
  rs_body :: "json option"
  rs_rawBody :: "string option"
  rs_expect :: expect
  rs_url :: "string option"
  rs_auth :: bool
  rs_headers :: "(string \<times> string) list"
  rs_timeout :: "nat option"
  rs_retries :: "int option"

record http_request =
  hr_method :: string
  hr_url :: string
  hr_headers :: headers
  hr_body :: "string option"

record http_response =
  re_status :: nat
  re_headers :: headers

text \<open>An error that is thrown: one of the SDK's, or any other with its message.\<close>

datatype http_error = FlowErr flow_error | OtherErr string

datatype http_question =
    AskAborted
  | AskHeaders
  | DoFetch http_request
  | AskTimedOut
  | SetRateLimit rate_limit
  | NotifyRateLimit rate_limit
  | ReadText
  | AskRandom
  | DoSleep rat

datatype http_answer =
    Yes bool
  | HeaderList "(string \<times> string) list"
  | Responded http_response
  | TextIs string
  | NumberIs rat
  | Done
  | Failed http_error

datatype http_data = NoData | JsonData json | TextData string | ResponseData http_response

record http_result =
  ht_data :: http_data
  ht_status :: nat
  ht_headers :: headers
  ht_requestId :: "string option"
  ht_rateLimit :: "rate_limit option"

type_synonym 'a http_prog = "(http_question, http_answer, http_error, 'a) prog"

section \<open>One attempt\<close>

definition ask_yes :: "http_question \<Rightarrow> bool http_prog" where
  "ask_yes q = map_p (\<lambda>r. r = Yes True) (ask q)"

text \<open>A question the world may refuse with an error.\<close>

definition ask_or_throw :: "http_question \<Rightarrow> http_answer http_prog" where
  "ask_or_throw q = bind_p (ask q) (\<lambda>r. case r of Failed e \<Rightarrow> Throw e | _ \<Rightarrow> Ret r)"

fun header_list :: "http_answer \<Rightarrow> (string \<times> string) list" where
  "header_list (HeaderList hs) = hs"
| "header_list _ = []"

fun response_of :: "http_answer \<Rightarrow> http_response" where
  "response_of (Responded r) = r"
| "response_of _ = \<lparr>re_status = 0, re_headers = []\<rparr>"

fun text_of :: "http_answer \<Rightarrow> string" where
  "text_of (TextIs t) = t"
| "text_of _ = []"

fun number_of :: "http_answer \<Rightarrow> rat" where
  "number_of (NumberIs q) = q"
| "number_of _ = 0"

definition client_error :: "error_class \<Rightarrow> error_type \<Rightarrow> string \<Rightarrow> string \<Rightarrow> string \<Rightarrow> flow_error" where
  "client_error cls t message method url = make_error cls
     \<lparr>ei_message = message, ei_type = t, ei_code = None, ei_status = None, ei_requestId = None, ei_method = Some method,
      ei_url = Some url, ei_body = None, ei_rateLimit = None\<rparr>"

definition aborted_error :: "string \<Rightarrow> string \<Rightarrow> flow_error" where
  "aborted_error method url = client_error AbortFlowError ABORTED ''The request was aborted'' method url"

definition attempt_timeout :: "http_config \<Rightarrow> request_spec \<Rightarrow> nat" where
  "attempt_timeout cfg spec = default (rs_timeout spec) (default (cf_timeout cfg) 30000)"

definition set_agent :: "http_config \<Rightarrow> headers \<Rightarrow> headers" where
  "set_agent cfg hs =
     (if cf_userAgent cfg \<noteq> AgentOff \<and> \<not> cf_browser cfg \<and> header_get hs ''User-Agent'' = None
      then header_set ''User-Agent'' (case cf_userAgent cfg of Agent a \<Rightarrow> a | _ \<Rightarrow> ''flow-sdk-typescript/'' @ cf_version cfg) hs else hs)"

definition json_header :: "bool \<Rightarrow> headers \<Rightarrow> headers" where
  "json_header hasJsonBody hs = (if hasJsonBody then header_set ''Content-Type'' ''application/json'' hs else hs)"

definition buildHeaders :: "http_config \<Rightarrow> request_spec \<Rightarrow> bool \<Rightarrow> headers http_prog" where
  "buildHeaders cfg spec hasJsonBody =
     (let accept = header_set ''Accept'' ''application/json'' []
      in if rs_auth spec
         then bind_p (ask_or_throw AskHeaders) (\<lambda>r.
           Ret (set_all (rs_headers spec) (json_header hasJsonBody (set_agent cfg (set_all (header_list r) accept)))))
         else Ret (set_all (rs_headers spec) (json_header hasJsonBody accept)))"

definition classify :: "http_config \<Rightarrow> request_spec \<Rightarrow> string \<Rightarrow> string \<Rightarrow> http_error \<Rightarrow> 'a http_prog" where
  "classify cfg spec method url e =
     (case e of
        FlowErr f \<Rightarrow> Throw e
      | OtherErr detail \<Rightarrow>
          bind_p (ask_yes AskAborted) (\<lambda>aborted.
            if aborted then Throw (FlowErr (aborted_error method url))
            else bind_p (ask_yes AskTimedOut) (\<lambda>timedOut.
              if timedOut
              then Throw (FlowErr (client_error TimeoutFlowError TIMEOUT
                     (''Request timed out after '' @ nat_str (attempt_timeout cfg spec) @ '' ms'') method url))
              else Throw (FlowErr (client_error NetworkFlowError NETWORK_ERROR (''Network request failed: '' @ detail) method url)))))"

definition is_ok :: "http_response \<Rightarrow> bool" where
  "is_ok r \<longleftrightarrow> 200 \<le> re_status r \<and> re_status r \<le> 299"

definition parseBody :: "string \<Rightarrow> json option" where
  "parseBody text = (if trim text = [] then None else case json_parse text of Some v \<Rightarrow> Some v | None \<Rightarrow> Some (JStr text))"

definition response_error :: "http_config \<Rightarrow> string \<Rightarrow> string \<Rightarrow> http_response \<Rightarrow> string \<Rightarrow> flow_error" where
  "response_error cfg method url r text =
     parseFlowError (cf_dateParse cfg) (cf_now cfg) (re_status r) (parseBody text) (Some (re_headers r)) (Some method) (Some url)"

definition note_rate_limit :: "http_config \<Rightarrow> http_response \<Rightarrow> unit http_prog" where
  "note_rate_limit cfg r =
     (case parseRateLimit (cf_dateParse cfg) (re_headers r) (cf_now cfg) of
        None \<Rightarrow> Ret ()
      | Some info \<Rightarrow>
          then_p (ask (SetRateLimit info))
            (when_p (cf_onRateLimit cfg) (map_p (\<lambda>_. ()) (ask_or_throw (NotifyRateLimit info)))))"

definition result_with :: "http_config \<Rightarrow> http_response \<Rightarrow> http_data \<Rightarrow> http_result" where
  "result_with cfg r data =
     \<lparr>ht_data = data, ht_status = re_status r, ht_headers = re_headers r, ht_requestId = header_get (re_headers r) ''X-Request-ID'',
      ht_rateLimit = parseRateLimit (cf_dateParse cfg) (re_headers r) (cf_now cfg)\<rparr>"

definition invalid_json_error :: "string \<Rightarrow> string \<Rightarrow> http_response \<Rightarrow> string \<Rightarrow> flow_error" where
  "invalid_json_error method url r text = make_error UnknownFlowError
     \<lparr>ei_message = ''The server returned a response that is not valid JSON'', ei_type = UNKNOWN, ei_code = None,
      ei_status = Some (re_status r), ei_requestId = header_get (re_headers r) ''X-Request-ID'', ei_method = Some method,
      ei_url = Some url, ei_body = Some (JStr (take 500 text)), ei_rateLimit = None\<rparr>"

definition read_result :: "http_config \<Rightarrow> request_spec \<Rightarrow> string \<Rightarrow> string \<Rightarrow> http_response \<Rightarrow> string \<Rightarrow> http_result http_prog" where
  "read_result cfg spec method url r text =
     (if \<not> is_ok r then Throw (FlowErr (response_error cfg method url r text))
      else if rs_expect spec = ExpectNone then Ret (result_with cfg r NoData)
      else if rs_expect spec = ExpectText then Ret (result_with cfg r (TextData text))
      else if trim text = [] then Ret (result_with cfg r NoData)
      else
        (case json_parse text of
           Some v \<Rightarrow> Ret (result_with cfg r (JsonData v))
         | None \<Rightarrow> Throw (FlowErr (invalid_json_error method url r text))))"

definition request_body :: "request_spec \<Rightarrow> string option" where
  "request_body spec = (case rs_rawBody spec of Some b \<Rightarrow> Some b | None \<Rightarrow> map_option stringify (rs_body spec))"

definition receive :: "http_config \<Rightarrow> request_spec \<Rightarrow> string \<Rightarrow> string \<Rightarrow> http_response \<Rightarrow> http_result http_prog" where
  "receive cfg spec method url r =
     then_p (note_rate_limit cfg r)
       (if is_ok r \<and> rs_expect spec = ExpectResponse then Ret (result_with cfg r (ResponseData r))
        else bind_p (catch_p (ask_or_throw ReadText) (classify cfg spec method url))
          (\<lambda>a. read_result cfg spec method url r (text_of a)))"

definition send :: "http_config \<Rightarrow> request_spec \<Rightarrow> string \<Rightarrow> string \<Rightarrow> headers \<Rightarrow> http_result http_prog" where
  "send cfg spec method url hs =
     bind_p (catch_p (ask_or_throw (DoFetch \<lparr>hr_method = method, hr_url = url, hr_headers = hs, hr_body = request_body spec\<rparr>))
         (classify cfg spec method url))
       (\<lambda>a. receive cfg spec method url (response_of a))"

definition attempt :: "http_config \<Rightarrow> request_spec \<Rightarrow> string \<Rightarrow> string \<Rightarrow> http_result http_prog" where
  "attempt cfg spec method url =
     bind_p (ask_yes AskAborted) (\<lambda>aborted.
       if aborted then Throw (FlowErr (aborted_error method url))
       else bind_p (buildHeaders cfg spec (rs_body spec \<noteq> None \<and> rs_rawBody spec = None)) (send cfg spec method url))"

section \<open>Retries\<close>

definition shouldRetry :: "resolved_retry \<Rightarrow> flow_error \<Rightarrow> string \<Rightarrow> bool" where
  "shouldRetry rr f method =
     (if fe_type f = ABORTED then False
      else if fe_type f = RATELIMITED then True
      else if fe_type f \<in> {INTERNAL_ERROR, UNAVAILABLE, NETWORK_ERROR, TIMEOUT}
      then method \<in> set idempotent \<or> rr_retryNonIdempotent rr
      else False)"

definition round_half_up :: "rat \<Rightarrow> rat" where
  "round_half_up q = of_int \<lfloor>q + 1 / 2\<rfloor>"

definition delayFor :: "resolved_retry \<Rightarrow> flow_error \<Rightarrow> nat \<Rightarrow> rat option http_prog" where
  "delayFor rr f k =
     (case error_retryAfter f of
        Some s \<Rightarrow> Ret (if s * 1000 > rr_maxDelayMs rr then None else Some (s * 1000))
      | None \<Rightarrow>
          (let delay = min (rr_maxDelayMs rr) (rr_baseDelayMs rr * rr_factor rr ^ k)
           in if rr_jitter rr then map_p (\<lambda>r. Some (round_half_up (delay * (1 / 2 + number_of r * (1 / 2))))) (ask AskRandom)
              else Ret (Some delay)))"

text \<open>The loop, by the number of retries that are left.\<close>

primrec attempts :: "http_config \<Rightarrow> request_spec \<Rightarrow> string \<Rightarrow> string \<Rightarrow> nat \<Rightarrow> nat \<Rightarrow> http_result http_prog" where
  "attempts cfg spec method url 0 = (\<lambda>k. attempt cfg spec method url)"
| "attempts cfg spec method url (Suc left) = (\<lambda>k.
     catch_p (attempt cfg spec method url) (\<lambda>e.
       case e of
         OtherErr m \<Rightarrow> Throw e
       | FlowErr f \<Rightarrow>
           if \<not> shouldRetry (resolveRetry (cf_retry cfg)) f method then Throw e
           else bind_p (delayFor (resolveRetry (cf_retry cfg)) f k) (\<lambda>d.
             case d of
               None \<Rightarrow> Throw e
             | Some ms \<Rightarrow> then_p (ask_or_throw (DoSleep ms)) (attempts cfg spec method url left (Suc k)))))"

definition max_retries :: "http_config \<Rightarrow> request_spec \<Rightarrow> nat" where
  "max_retries cfg spec = (case rs_retries spec of Some n \<Rightarrow> nat (max 0 n) | None \<Rightarrow> rr_retries (resolveRetry (cf_retry cfg)))"

definition client_base :: "http_config \<Rightarrow> string" where
  "client_base cfg = strip_slashes (cf_baseUrl cfg)"

definition request_url :: "http_config \<Rightarrow> request_spec \<Rightarrow> string + string" where
  "request_url cfg spec =
     (case rs_url spec of
        Some (c # u) \<Rightarrow> Inr (cf_resolveUrl cfg (c # u) (client_base cfg @ ''/''))
      | _ \<Rightarrow> map_sum id (\<lambda>p. client_base cfg @ p) (buildPath (rs_path spec) (rs_pathParams spec) (rs_query spec)))"

definition foreign :: "http_config \<Rightarrow> request_spec \<Rightarrow> string \<Rightarrow> bool" where
  "foreign cfg spec url \<longleftrightarrow> rs_url spec \<noteq> None \<and> rs_url spec \<noteq> Some [] \<and> rs_auth spec \<and> cf_origin cfg url \<noteq> cf_origin cfg (client_base cfg)"

definition foreign_message :: "http_config \<Rightarrow> string \<Rightarrow> string" where
  "foreign_message cfg url = ''Refusing to send credentials to '' @ cf_origin cfg url @ '', which is not the API origin '' @
     cf_origin cfg (client_base cfg)"

definition requestWithMeta :: "http_config \<Rightarrow> request_spec \<Rightarrow> http_result http_prog" where
  "requestWithMeta cfg spec =
     (case request_url cfg spec of
        Inl message \<Rightarrow> Throw (OtherErr message)
      | Inr url \<Rightarrow>
          if foreign cfg spec url then Throw (OtherErr (foreign_message cfg url))
          else attempts cfg spec (to_upper (rs_method spec)) url (max_retries cfg spec) 0)"

definition sdk_request :: "http_config \<Rightarrow> request_spec \<Rightarrow> http_data http_prog" where
  "sdk_request cfg spec = map_p ht_data (requestWithMeta cfg spec)"

section \<open>What is sent, and how often\<close>

fun is_fetch :: "http_question \<Rightarrow> bool" where
  "is_fetch (DoFetch r) \<longleftrightarrow> True"
| "is_fetch _ \<longleftrightarrow> False"

definition fetches :: "(http_question \<times> http_answer) list \<Rightarrow> nat" where
  "fetches tr = length (filter (\<lambda>x. is_fetch (fst x)) tr)"

lemma fetches_simps [simp]:
  "fetches [] = 0" "fetches (tr @ tr') = fetches tr + fetches tr'" "fetches ((q, a) # tr) = (if is_fetch q then 1 else 0) + fetches tr"
  by (simp_all add: fetches_def)

lemma ask_or_throw_track [simp]:
  "track I Q (ask_or_throw q) h \<longleftrightarrow>
     I h q \<and> (\<forall>r. (case r of Failed e \<Rightarrow> Q (h @ [(q, r)]) (Inl e) | _ \<Rightarrow> Q (h @ [(q, r)]) (Inr r)))"
proof -
  have "track I Q (case r of Failed e \<Rightarrow> Throw e | _ \<Rightarrow> Ret r) h' \<longleftrightarrow> (case r of Failed e \<Rightarrow> Q h' (Inl e) | _ \<Rightarrow> Q h' (Inr r))"
    for r h' by (cases r) simp_all
  then show ?thesis by (simp add: ask_or_throw_def)
qed

lemma ask_yes_track [simp]: "track I Q (ask_yes q) h \<longleftrightarrow> I h q \<and> (\<forall>r. Q (h @ [(q, r)]) (Inr (r = Yes True)))"
  by (simp add: ask_yes_def)

text \<open>A request of an attempt: to the address and with the method it was made for; credentials only where they belong.\<close>

definition proper :: "request_spec \<Rightarrow> string \<Rightarrow> string \<Rightarrow> http_question \<Rightarrow> bool" where
  "proper spec method url q =
     (case q of
        DoFetch r \<Rightarrow> hr_method r = method \<and> hr_url r = url \<and> hr_body r = request_body spec
      | AskHeaders \<Rightarrow> rs_auth spec
      | _ \<Rightarrow> True)"

lemma classify_track:
  assumes "\<And>q h'. q = AskAborted \<or> q = AskTimedOut \<Longrightarrow> I h' q"
    and "\<And>f tr. fe_type f \<noteq> RATELIMITED \<Longrightarrow> list_all (\<lambda>x. fst x = AskAborted \<or> fst x = AskTimedOut) tr \<Longrightarrow> Q (h @ tr) (Inl (FlowErr f))"
    and "\<And>f. e = FlowErr f \<Longrightarrow> Q h (Inl (FlowErr f))"
  shows "track I Q (classify cfg spec method url e) h"
proof (cases e)
  case (OtherErr detail)
  have "fe_type (client_error c t m method url) = t" for c t m by (simp add: client_error_def make_error_def)
  then show ?thesis using OtherErr assms(1) by (auto simp: classify_def aborted_error_def intro!: assms(2))
qed (use assms(3) in \<open>simp add: classify_def\<close>)

text \<open>
  What is known of the last request sent: nothing was sent, it may have been processed, or the server (or the
  \<open>fetch\<close> implementation, or a callback) reported a rate limit, which means it was not processed.
\<close>

datatype sent = NotSent | InFlight "http_response option" | Limited

fun can_fail :: "http_question \<Rightarrow> bool" where
  "can_fail AskAborted \<longleftrightarrow> False"
| "can_fail AskTimedOut \<longleftrightarrow> False"
| "can_fail (SetRateLimit i) \<longleftrightarrow> False"
| "can_fail AskRandom \<longleftrightarrow> False"
| "can_fail _ \<longleftrightarrow> True"

definition sent_step :: "http_config \<Rightarrow> string \<Rightarrow> string \<Rightarrow> sent \<Rightarrow> http_question \<times> http_answer \<Rightarrow> sent" where
  "sent_step cfg method url s x =
     (if \<not> can_fail (fst x) then s else case snd x of
        Failed e \<Rightarrow>
          (case e of
             FlowErr f \<Rightarrow> if fe_type f = RATELIMITED then Limited else if is_fetch (fst x) then InFlight None else s
           | OtherErr m \<Rightarrow> if is_fetch (fst x) then InFlight None else s)
      | a \<Rightarrow>
          (case fst x of
             DoFetch r \<Rightarrow> InFlight (Some (response_of a))
           | ReadText \<Rightarrow>
               (case s of
                  InFlight (Some r) \<Rightarrow>
                    if \<not> is_ok r \<and> fe_type (response_error cfg method url r (text_of a)) = RATELIMITED then Limited else s
                | _ \<Rightarrow> s)
           | _ \<Rightarrow> s))"

definition sent_after :: "http_config \<Rightarrow> string \<Rightarrow> string \<Rightarrow> (http_question \<times> http_answer) list \<Rightarrow> sent" where
  "sent_after cfg method url tr = foldl (sent_step cfg method url) NotSent tr"

lemma sent_after_simps [simp]:
  "sent_after cfg method url [] = NotSent"
  "sent_after cfg method url (tr @ tr') = foldl (sent_step cfg method url) (sent_after cfg method url tr) tr'"
  by (simp_all add: sent_after_def)

definition may_send :: "sent \<Rightarrow> bool" where
  "may_send s \<longleftrightarrow> s = NotSent \<or> s = Limited"

lemma may_send_simps [simp]: "may_send NotSent" "may_send Limited" "\<not> may_send (InFlight r)"
  by (simp_all add: may_send_def)

text \<open>The result of a part: a rate-limit error is thrown only when the request may be sent again.\<close>

definition limited_result :: "http_config \<Rightarrow> string \<Rightarrow> string \<Rightarrow> (http_question \<times> http_answer) list \<Rightarrow> http_error + 'a \<Rightarrow> bool" where
  "limited_result cfg method url h res =
     (case res of Inl (FlowErr f) \<Rightarrow> fe_type f = RATELIMITED \<longrightarrow> may_send (sent_after cfg method url h) | _ \<Rightarrow> True)"

lemma limited_result_simps [simp]:
  "limited_result cfg method url h (Inr x)" "limited_result cfg method url h (Inl (OtherErr m))"
  "limited_result cfg method url h (Inl (FlowErr f)) \<longleftrightarrow> (fe_type f = RATELIMITED \<longrightarrow> may_send (sent_after cfg method url h))"
  by (simp_all add: limited_result_def)

lemma failed_limited: "can_fail q \<Longrightarrow> limited_result cfg method url (h @ [(q, Failed e)]) (Inl e)"
  by (cases e) (simp_all add: sent_step_def)

definition resend_ok :: "http_config \<Rightarrow> string \<Rightarrow> string \<Rightarrow> (http_question \<times> http_answer) list \<Rightarrow> http_question \<Rightarrow> bool" where
  "resend_ok cfg method url h q \<longleftrightarrow> (is_fetch q \<longrightarrow> may_send (sent_after cfg method url h))"

lemma resend_ok_simps [simp]: "\<not> is_fetch q \<Longrightarrow> resend_ok cfg method url h q"
  by (simp add: resend_ok_def)

lemma classify_limited:
  "(\<And>f. e = FlowErr f \<Longrightarrow> limited_result cfg method url h (Inl e :: http_error + 'a)) \<Longrightarrow>
    track (resend_ok cfg method url) (limited_result cfg method url) (classify cfg spec method url e :: 'a http_prog) h"
  by (rule classify_track) auto

lemma client_types [simp]: "fe_type (client_error c t m method url) = t" "fe_type (aborted_error method url) = ABORTED"
  "fe_type (invalid_json_error method url r text) = UNKNOWN"
  by (simp_all add: client_error_def aborted_error_def invalid_json_error_def make_error_def)

lemma classify_throws: "bind_p (classify cfg spec method url e) f = classify cfg spec method url e"
  by (cases e) (auto simp: classify_def ask_yes_def map_p_def ask_def fun_eq_iff)

lemma ask_or_classify:
  assumes "resend_ok cfg method url h q" "can_fail q"
    and "\<And>a. (\<And>e. a \<noteq> Failed e) \<Longrightarrow> track (resend_ok cfg method url) (limited_result cfg method url) (f a) (h @ [(q, a)])"
  shows "track (resend_ok cfg method url) (limited_result cfg method url)
    (bind_p (catch_p (ask_or_throw q) (classify cfg spec method url)) f) h"
proof -
  have "track (resend_ok cfg method url) (limited_result cfg method url) (bind_p (classify cfg spec method url e) f) (h @ [(q, Failed e)])" for e
    unfolding classify_throws by (rule classify_limited) (rule failed_limited [OF assms(2)])
  then show ?thesis using assms by (simp split: http_answer.splits)
qed

lemma read_result_limited:
  assumes "sent_after cfg method url h = InFlight (Some r)" "\<And>e. a \<noteq> Failed e"
  shows "track (resend_ok cfg method url) (limited_result cfg method url) (read_result cfg spec method url r (text_of a)) (h @ [(ReadText, a)])"
proof -
  have "sent_step cfg method url (InFlight (Some r)) (ReadText, a) =
      (if \<not> is_ok r \<and> fe_type (response_error cfg method url r (text_of a)) = RATELIMITED then Limited else InFlight (Some r))"
    using assms(2) by (cases a) (auto simp: sent_step_def)
  then show ?thesis using assms(1) by (auto simp: read_result_def split: option.splits)
qed

lemma receive_limited:
  assumes h: "sent_after cfg method url h = InFlight (Some r)"
  shows "track (resend_ok cfg method url) (limited_result cfg method url) (receive cfg spec method url r) h"
proof -
  let ?rest = "if is_ok r \<and> rs_expect spec = ExpectResponse then Ret (result_with cfg r (ResponseData r))
    else bind_p (catch_p (ask_or_throw ReadText) (classify cfg spec method url)) (\<lambda>a. read_result cfg spec method url r (text_of a))"
  have rest: "track (resend_ok cfg method url) (limited_result cfg method url) ?rest h'" if "sent_after cfg method url h' = InFlight (Some r)" for h'
  proof (cases "is_ok r \<and> rs_expect spec = ExpectResponse")
    case False
    have "track (resend_ok cfg method url) (limited_result cfg method url)
        (bind_p (catch_p (ask_or_throw ReadText) (classify cfg spec method url)) (\<lambda>a. read_result cfg spec method url r (text_of a))) h'"
      by (rule ask_or_classify) (use read_result_limited [OF that] in auto)
    with False show ?thesis by (simp only: if_False)
  qed simp
  have "track (resend_ok cfg method url) (\<lambda>h' res. on_res (\<lambda>e. limited_result cfg method url h' (Inl e :: http_error + http_result))
      (\<lambda>_. sent_after cfg method url h' = InFlight (Some r)) res) (note_rate_limit cfg r) h"
  proof (cases "parseRateLimit (cf_dateParse cfg) (re_headers r) (cf_now cfg)")
    case (Some i)
    then show ?thesis
      by (auto simp: note_rate_limit_def h sent_step_def limited_result_def split: http_answer.splits http_error.splits)
  qed (use h in \<open>simp add: note_rate_limit_def\<close>)
  then show ?thesis unfolding receive_def track_then
    by (rule track_mono) (use rest in \<open>auto simp: on_res_iff\<close>)
qed

lemma send_limited:
  assumes "may_send (sent_after cfg method url h)"
  shows "track (resend_ok cfg method url) (limited_result cfg method url) (send cfg spec method url hs) h"
  unfolding send_def
proof (rule ask_or_classify)
  fix a assume a: "\<And>e. a \<noteq> Failed e"
  show "track (resend_ok cfg method url) (limited_result cfg method url) (receive cfg spec method url (response_of a))
      (h @ [(DoFetch \<lparr>hr_method = method, hr_url = url, hr_headers = hs, hr_body = request_body spec\<rparr>, a)])"
    by (rule receive_limited) (use a in \<open>cases a; simp add: sent_step_def\<close>)
qed (use assms in \<open>simp_all add: resend_ok_def\<close>)

lemma attempt_limited:
  assumes h: "may_send (sent_after cfg method url h)"
  shows "track (resend_ok cfg method url) (limited_result cfg method url) (attempt cfg spec method url) h"
proof -
  have asked: "sent_after cfg method url (h @ [(AskAborted, x)]) = sent_after cfg method url h" for x by (simp add: sent_step_def)
  have headers: "track (resend_ok cfg method url) (limited_result cfg method url) (bind_p (buildHeaders cfg spec b) (send cfg spec method url)) h'"
    if h': "may_send (sent_after cfg method url h')" for b h'
  proof (cases "rs_auth spec")
    case True
    have "track (resend_ok cfg method url) (limited_result cfg method url) (send cfg spec method url hs) (h' @ [(AskHeaders, a)])"
      if "\<And>e. a \<noteq> Failed e" for a hs
      by (rule send_limited) (use that h' in \<open>cases a; simp add: sent_step_def\<close>)
    then show ?thesis using True
      by (simp add: buildHeaders_def Let_def failed_limited split: http_answer.splits del: limited_result_simps sent_after_simps)
  qed (use send_limited [OF h'] in \<open>simp add: buildHeaders_def Let_def\<close>)
  show ?thesis unfolding attempt_def by (simp add: headers [unfolded track_bind] asked h del: sent_after_simps)
qed

lemma attempts_limited:
  assumes "method \<notin> set idempotent" "\<not> rr_retryNonIdempotent (resolveRetry (cf_retry cfg))"
  shows "may_send (sent_after cfg method url h) \<Longrightarrow> track (resend_ok cfg method url) (\<lambda>_ _. True) (attempts cfg spec method url left k) h"
proof (induction left arbitrary: h k)
  case 0
  then show ?case using track_mono [OF attempt_limited] by simp
next
  case (Suc left)
  let ?handler = "\<lambda>e. case e of
         OtherErr m \<Rightarrow> Throw e
       | FlowErr f \<Rightarrow>
           if \<not> shouldRetry (resolveRetry (cf_retry cfg)) f method then Throw e
           else bind_p (delayFor (resolveRetry (cf_retry cfg)) f k) (\<lambda>d.
             case d of
               None \<Rightarrow> Throw e
             | Some ms \<Rightarrow> then_p (ask_or_throw (DoSleep ms)) (attempts cfg spec method url left (Suc k)))"
  have again: "track (resend_ok cfg method url) (\<lambda>_ _. True) (then_p (ask_or_throw (DoSleep ms)) (attempts cfg spec method url left (Suc k))) h'"
    if "may_send (sent_after cfg method url h')" for h' ms
  proof -
    have "track (resend_ok cfg method url) (\<lambda>_ _. True) (attempts cfg spec method url left (Suc k)) (h' @ [(DoSleep ms, a)])"
      if "\<And>e. a \<noteq> Failed e" for a
      by (rule Suc.IH) (use that \<open>may_send (sent_after cfg method url h')\<close> in \<open>cases a; simp add: sent_step_def\<close>)
    then show ?thesis by (simp split: http_answer.splits del: sent_after_simps)
  qed
  have handler: "track (resend_ok cfg method url) (\<lambda>_ _. True) (?handler e) h'" if "limited_result cfg method url h' (Inl e :: http_error + http_result)" for e h'
  proof (cases e)
    case (FlowErr f)
    have "sent_after cfg method url (h' @ [(AskRandom, a)]) = sent_after cfg method url h'" for a by (simp add: sent_step_def)
    moreover have "fe_type f = RATELIMITED" if "shouldRetry (resolveRetry (cf_retry cfg)) f method"
      using that assms by (auto simp: shouldRetry_def split: if_splits)
    ultimately show ?thesis using that FlowErr again
      by (auto simp: delayFor_def Let_def split: option.splits simp del: sent_after_simps track_then)
  qed simp
  show ?case unfolding attempts.simps track_catch
    by (rule track_mono [OF attempt_limited [OF Suc.prems]]) (use handler in \<open>auto simp: on_res_iff\<close>)
qed

text \<open>
  C5. A request that is not idempotent (\<open>POST\<close>, \<open>PATCH\<close>) is not sent again once it may have been processed: unless
  the client opts in, every further \<open>fetch\<close> of a run follows a rate-limit error, whatever the network, the
  server and the callbacks do.
\<close>

theorem sent_again_only_when_limited:
  assumes "to_upper (rs_method spec) \<notin> set idempotent"
    and "\<not> rr_retryNonIdempotent (resolveRetry (cf_retry cfg))"
    and "request_url cfg spec = Inr url"
    and "replay (requestWithMeta cfg spec) tr = Some res"
    and "i < length tr" and "is_fetch (fst (tr ! i))"
  shows "sent_after cfg (to_upper (rs_method spec)) url (take i tr) \<in> {NotSent, Limited}"
proof -
  have "track (resend_ok cfg (to_upper (rs_method spec)) url) (\<lambda>_ _. True) (requestWithMeta cfg spec) []"
    using attempts_limited [OF assms(1,2), of url "[]"] assms(3) by (simp add: requestWithMeta_def)
  from track_replay [OF this assms(4)] assms(5,6) show ?thesis by (auto simp: resend_ok_def may_send_def)
qed

definition sample_config :: http_config where
  "sample_config = \<lparr>cf_baseUrl = ''https://flow.example.com/'', cf_timeout = None, cf_retry = RetryCount 1, cf_userAgent = AgentDefault,
     cf_onRateLimit = False, cf_browser = False, cf_version = ''1.0'', cf_dateParse = (\<lambda>_. None), cf_now = 0,
     cf_resolveUrl = (\<lambda>u b. u), cf_origin = (\<lambda>u. take 24 u)\<rparr>"

definition sample_spec :: request_spec where
  "sample_spec = \<lparr>rs_method = ''post'', rs_path = ''/api/issues'', rs_pathParams = [], rs_query = [], rs_body = Some (JObj []),
     rs_rawBody = None, rs_expect = ExpectJson, rs_url = None, rs_auth = True, rs_headers = [], rs_timeout = None, rs_retries = None\<rparr>"

text \<open>A world that refuses every request with a rate-limit error.\<close>

definition busy_error :: flow_error where
  "busy_error = client_error RatelimitedFlowError RATELIMITED ''Slow down'' ''POST'' []"

fun busy_server :: "http_question \<Rightarrow> http_answer" where
  "busy_server AskAborted = Yes False"
| "busy_server AskHeaders = HeaderList [(''Authorization'', ''key'')]"
| "busy_server (DoFetch r) = Failed (FlowErr busy_error)"
| "busy_server AskTimedOut = Yes False"
| "busy_server (SetRateLimit i) = Done"
| "busy_server (NotifyRateLimit i) = Done"
| "busy_server ReadText = TextIs []"
| "busy_server AskRandom = NumberIs 0"
| "busy_server (DoSleep ms) = Done"

definition sample_url :: string where
  "sample_url = ''https://flow.example.com/api/issues''"

definition busy_run :: "(http_question \<times> http_answer) list" where
  "busy_run = fst (steady busy_server (requestWithMeta sample_config sample_spec))"

lemma sample_request: "request_url sample_config sample_spec = Inr sample_url"
  by code_simp

lemma busy_replay: "replay (requestWithMeta sample_config sample_spec) busy_run = Some (snd (steady busy_server (requestWithMeta sample_config sample_spec)))"
  unfolding busy_run_def by (rule steady_replay)

theorem sent_again_only_when_limited_witness:
  "is_fetch (fst (busy_run ! 7)) \<and> sent_after sample_config ''POST'' sample_url (take 7 busy_run) \<in> {NotSent, Limited}"
proof -
  have m: "to_upper (rs_method sample_spec) = ''POST''" by code_simp
  have "''POST'' \<notin> set idempotent" "\<not> rr_retryNonIdempotent (resolveRetry (cf_retry sample_config))" by code_simp+
  moreover have run: "7 < length busy_run" "is_fetch (fst (busy_run ! 7))" by code_simp+
  ultimately show ?thesis
    using sent_again_only_when_limited [OF _ _ sample_request busy_replay, of 7] unfolding m by blast
qed

section \<open>How often, and with whose credentials\<close>

definition unsent :: "request_spec \<Rightarrow> string \<Rightarrow> string \<Rightarrow> http_question \<Rightarrow> bool" where
  "unsent spec method url q \<longleftrightarrow> \<not> is_fetch q \<and> proper spec method url q"

lemma unsent_simps [simp]:
  "unsent spec method url AskAborted" "unsent spec method url AskTimedOut" "unsent spec method url ReadText" "unsent spec method url AskRandom"
  "unsent spec method url (SetRateLimit i)" "unsent spec method url (NotifyRateLimit i)" "unsent spec method url (DoSleep ms)"
  "unsent spec method url AskHeaders \<longleftrightarrow> rs_auth spec"
  by (simp_all add: unsent_def proper_def)

abbreviation at_most :: "request_spec \<Rightarrow> string \<Rightarrow> string \<Rightarrow> nat \<Rightarrow> 'a http_prog \<Rightarrow> (http_question \<times> http_answer) list \<Rightarrow> bool" where
  "at_most spec method url n p h \<equiv> track (\<lambda>_. proper spec method url) (\<lambda>h' _. fetches h' \<le> n) p h"

lemma unsent_at_most:
  "track (\<lambda>_. unsent spec method url) (\<lambda>_ _. True) p h \<Longrightarrow> fetches h \<le> n \<Longrightarrow> at_most spec method url n p h"
  by (induction p arbitrary: h) (auto simp: unsent_def)

lemma classify_unsent: "track (\<lambda>_. unsent spec method url) (\<lambda>_ _. True) (classify cfg spec method url e) h"
  by (cases e) (simp_all add: classify_def)

lemma receive_unsent: "track (\<lambda>_. unsent spec method url) (\<lambda>_ _. True) (receive cfg spec method url r) h"
proof -
  have "track (\<lambda>_. unsent spec method url) (\<lambda>_ _. True) (read_result cfg spec method url r t) h'" for t h'
    by (simp add: read_result_def split: option.splits)
  moreover have "track (\<lambda>_. unsent spec method url) (\<lambda>_ _. True) (catch_p (ask_or_throw ReadText) (classify cfg spec method url)) h'" for h'
    by (rule catch_any) (auto simp: classify_unsent split: http_answer.splits)
  moreover have "track (\<lambda>_. unsent spec method url) (\<lambda>_ _. True) (note_rate_limit cfg r) h"
    by (auto simp: note_rate_limit_def split: option.splits http_answer.splits)
  ultimately show ?thesis unfolding receive_def then_p_def by (intro bind_any) (simp_all del: track_bind track_catch add: bind_any)
qed

lemma attempt_at_most: "fetches h \<le> n \<Longrightarrow> at_most spec method url (Suc n) (attempt cfg spec method url) h"
proof -
  have send: "at_most spec method url (Suc n) (send cfg spec method url hs) h'" if "fetches h' \<le> n" for hs h'
  proof -
    let ?q = "DoFetch \<lparr>hr_method = method, hr_url = url, hr_headers = hs, hr_body = request_body spec\<rparr>"
    have p: "proper spec method url ?q" by (simp add: proper_def)
    have n: "fetches (h' @ [(?q, a)]) \<le> Suc n" for a using that by simp
    have "at_most spec method url (Suc n) (receive cfg spec method url r) (h' @ [(?q, a)])" for r a
      by (rule unsent_at_most [OF receive_unsent n])
    moreover have "at_most spec method url (Suc n) (bind_p (classify cfg spec method url e) (\<lambda>a. receive cfg spec method url (response_of a))) (h' @ [(?q, a)])" for e a
      unfolding classify_throws by (rule unsent_at_most [OF classify_unsent n])
    ultimately show ?thesis using p by (simp add: send_def split: http_answer.splits del: fetches_simps)
  qed
  assume h: "fetches h \<le> n"
  have q: "proper spec method url AskAborted" by (simp add: proper_def)
  have "at_most spec method url (Suc n) (bind_p (buildHeaders cfg spec b) (send cfg spec method url)) h'" if "fetches h' \<le> n" for b h'
    using that send by (auto simp: buildHeaders_def Let_def proper_def split: http_answer.splits)
  then show ?thesis using h q unfolding attempt_def by (simp del: track_bind add: track_bind [of _ _ "ask_yes _"])
qed

lemma attempts_at_most: "fetches h \<le> n \<Longrightarrow> at_most spec method url (n + Suc left) (attempts cfg spec method url left k) h"
proof (induction left arbitrary: n h k)
  case 0
  then show ?case using attempt_at_most by simp
next
  case (Suc left)
  have one: "at_most spec method url (Suc n) (attempt cfg spec method url) h" by (rule attempt_at_most [OF Suc.prems])
  have p: "proper spec method url AskRandom" "proper spec method url (DoSleep ms)" for ms by (simp_all add: proper_def)
  have again: "at_most spec method url (n + Suc (Suc left)) (attempts cfg spec method url left (Suc k)) h'" if "fetches h' \<le> Suc n" for h'
    using Suc.IH [OF that] by simp
  show ?case unfolding attempts.simps track_catch
  proof (rule track_mono [OF one])
    fix h' res assume "fetches h' \<le> Suc n"
    then show "on_res (\<lambda>e. at_most spec method url (n + Suc (Suc left)) (case e of
         OtherErr m \<Rightarrow> Throw e
       | FlowErr f \<Rightarrow>
           if \<not> shouldRetry (resolveRetry (cf_retry cfg)) f method then Throw e
           else bind_p (delayFor (resolveRetry (cf_retry cfg)) f k) (\<lambda>d.
             case d of
               None \<Rightarrow> Throw e
             | Some ms \<Rightarrow> then_p (ask_or_throw (DoSleep ms)) (attempts cfg spec method url left (Suc k)))) h')
        (\<lambda>x. fetches h' \<le> n + Suc (Suc left)) res"
      using again p by (auto simp: on_res_iff delayFor_def Let_def split: http_error.splits option.splits http_answer.splits)
  qed simp
qed

text \<open>
  C23. A request makes at most one \<open>fetch\<close> more than its retries allow, each with the method, the address and
  the body it was made for. It asks for the client's credentials only when it is to be authenticated, and a
  request that is authenticated and goes to another origin is refused before anything is sent.
\<close>

theorem request_sends:
  assumes "request_url cfg spec = Inr url" and "replay (requestWithMeta cfg spec) tr = Some res"
  shows "fetches tr \<le> Suc (max_retries cfg spec) \<and> list_all (\<lambda>x. proper spec (to_upper (rs_method spec)) url (fst x)) tr \<and>
    (foreign cfg spec url \<longrightarrow> tr = [] \<and> res = Inl (OtherErr (foreign_message cfg url)))"
proof (cases "foreign cfg spec url")
  case True
  then show ?thesis using assms by (auto simp: requestWithMeta_def split: if_splits)
next
  case False
  then have "at_most spec (to_upper (rs_method spec)) url (Suc (max_retries cfg spec)) (requestWithMeta cfg spec) []"
    using attempts_at_most [of "[]" 0 spec _ url "max_retries cfg spec" cfg 0] assms(1) by (simp add: requestWithMeta_def)
  from track_replay [OF this assms(2)] have "fetches tr \<le> Suc (max_retries cfg spec)"
    "\<forall>i < length tr. proper spec (to_upper (rs_method spec)) url (fst (tr ! i))" by simp_all
  with False show ?thesis by (simp add: list_all_length)
qed

theorem request_sends_witness:
  "fetches busy_run \<le> 2 \<and> list_all (\<lambda>x. proper sample_spec ''POST'' sample_url (fst x)) busy_run"
proof -
  have "to_upper (rs_method sample_spec) = ''POST''" "max_retries sample_config sample_spec = 1" by code_simp+
  then show ?thesis using request_sends [OF sample_request busy_replay] by simp
qed

end
