(* ===== verification/Sdk_Webhooks.thy ===== *)
theory Sdk_Webhooks
  imports Sdk_Errors Effects
begin

text \<open>
  \<open>sdk/typescript/src/webhooks.ts\<close>: verification of webhook deliveries and the handlers that receive them. Bytes
  are numbers. The keyed hash and the decoder of UTF-8 are parameters (the platform's crypto and text
  libraries), and nothing is assumed of them. The receiving handlers are programs of \<open>Effects\<close>: they read the
  body, call the registered handlers, report errors and answer. Handlers started in the background are part
  of the program that starts them.
\<close>

section \<open>Verification\<close>

type_synonym bytes = "nat list"

datatype webhook_body = BodyText string | BodyBytes bytes

datatype verification_failure = MissingSignature | InvalidSignature | InvalidPayload | MissingTimestamp | StaleTimestamp

record verification_error =
  ve_reason :: verification_failure
  ve_message :: string

text \<open>\<open>TextEncoder\<close> on Latin-1 text.\<close>

definition utf8 :: "string \<Rightarrow> bytes" where
  "utf8 s = concat (map (\<lambda>c. let n = of_char c in if n < 128 then [n] else [192 + n div 64, 128 + n mod 64]) s)"

fun toBytes :: "webhook_body \<Rightarrow> bytes" where
  "toBytes (BodyText s) = utf8 s"
| "toBytes (BodyBytes b) = b"

record platform =
  hmac :: "bytes \<Rightarrow> bytes \<Rightarrow> bytes"
  decode :: "bytes \<Rightarrow> string"

definition hex_text :: "bytes \<Rightarrow> string" where
  "hex_text b = concat (map (\<lambda>n. [digit_char (n div 16), digit_char (n mod 16)]) b)"

definition computeWebhookSignature :: "platform \<Rightarrow> webhook_body \<Rightarrow> bytes \<Rightarrow> string" where
  "computeWebhookSignature pf rawBody secret = hex_text (hmac pf secret (toBytes rawBody))"

text \<open>\<open>/^[a-f0-9]{64}$/i\<close>, and \<open>Buffer.from(given, 'hex')\<close> on such a string.\<close>

definition is_hex_digest :: "string \<Rightarrow> bool" where
  "is_hex_digest s \<longleftrightarrow> length s = 64 \<and> list_all (\<lambda>c. hex_value c \<noteq> None) s"

fun hex_bytes :: "string \<Rightarrow> bytes" where
  "hex_bytes (a # b # s) = (the (hex_value a) * 16 + the (hex_value b)) # hex_bytes s"
| "hex_bytes _ = []"

definition verifyWebhookSignature :: "platform \<Rightarrow> webhook_body \<Rightarrow> string option \<Rightarrow> bytes list \<Rightarrow> bool" where
  "verifyWebhookSignature pf rawBody signature secrets =
     (case signature of
        None \<Rightarrow> False
      | Some sg \<Rightarrow>
          (let given = trim sg; body = toBytes rawBody
           in if \<not> is_hex_digest given then False
              else foldl (\<lambda>matched candidate. if hmac pf candidate body = hex_bytes given then True else matched) False secrets))"

definition DEFAULT_WEBHOOK_TOLERANCE_MS :: rat where
  "DEFAULT_WEBHOOK_TOLERANCE_MS = 60000"

datatype tolerance = TolDefault | TolOff | Tol rat

text \<open>A parsed number of the payload.\<close>

definition verifyWebhookTimestamp :: "json option \<Rightarrow> rat option \<Rightarrow> rat \<Rightarrow> bool" where
  "verifyWebhookTimestamp timestamp toleranceMs now =
     (case timestamp of
        Some (JNum num) \<Rightarrow>
          (case js_number num of
             Some t \<Rightarrow> \<bar>now - t\<bar> \<le> (case toleranceMs of Some m \<Rightarrow> m | None \<Rightarrow> DEFAULT_WEBHOOK_TOLERANCE_MS)
           | None \<Rightarrow> False)
      | _ \<Rightarrow> False)"

fun is_number :: "json option \<Rightarrow> bool" where
  "is_number (Some (JNum num)) \<longleftrightarrow> True"
| "is_number _ \<longleftrightarrow> False"

definition failure :: "verification_failure \<Rightarrow> string \<Rightarrow> verification_error + 'a" where
  "failure r m = Inl \<lparr>ve_reason = r, ve_message = m\<rparr>"

definition event_type :: "json \<Rightarrow> string option" where
  "event_type event = string_field (Some event) ''type''"

definition check_replay :: "json \<Rightarrow> tolerance \<Rightarrow> rat \<Rightarrow> verification_error + json" where
  "check_replay event tol now =
     (if tol = TolOff then Inr event
      else if \<not> is_number (body_field (Some event) ''webhookTimestamp'')
      then failure MissingTimestamp ''The webhook payload has no webhookTimestamp''
      else if \<not> verifyWebhookTimestamp (body_field (Some event) ''webhookTimestamp'') (case tol of Tol m \<Rightarrow> Some m | _ \<Rightarrow> None) now
      then failure StaleTimestamp ''The webhook timestamp is outside the allowed window (possible replay)''
      else Inr event)"

definition constructWebhookEvent ::
  "platform \<Rightarrow> webhook_body \<Rightarrow> string option \<Rightarrow> bytes list \<Rightarrow> tolerance \<Rightarrow> rat \<Rightarrow> verification_error + json" where
  "constructWebhookEvent pf rawBody signature secrets tol now =
     (if (case signature of None \<Rightarrow> True | Some sg \<Rightarrow> trim sg = [])
      then failure MissingSignature ''The Flow-Signature header is missing''
      else if \<not> verifyWebhookSignature pf rawBody signature secrets
      then failure InvalidSignature ''The webhook signature does not match the request body''
      else
        (case json_parse (decode pf (toBytes rawBody)) of
           None \<Rightarrow> failure InvalidPayload ''The webhook body is not valid JSON''
         | Some event \<Rightarrow>
             if event_type event = None then failure InvalidPayload ''The webhook body is not an event''
             else check_replay event tol now))"

section \<open>Headers and answers\<close>

datatype header_value = HString string | HList "string list"

datatype header_source = HeadersObject headers | HeaderRecord "(string \<times> header_value) list"

definition first_value :: "header_value \<Rightarrow> string option" where
  "first_value v = (case v of HString s \<Rightarrow> Some s | HList (s # ss) \<Rightarrow> Some s | HList [] \<Rightarrow> None)"

definition headerValue :: "header_source \<Rightarrow> string \<Rightarrow> string option" where
  "headerValue src name =
     (case src of
        HeadersObject hs \<Rightarrow> header_get hs name
      | HeaderRecord kvs \<Rightarrow>
          Option.bind
            (case map_of kvs name of
               Some v \<Rightarrow> Some v
             | None \<Rightarrow> (case map_of kvs (map latin_lower name) of
                 Some v \<Rightarrow> Some v
               | None \<Rightarrow> map_option snd (find (\<lambda>kv. map latin_lower (fst kv) = name) kvs)))
            first_value)"

definition FLOW_SIGNATURE_HEADER :: string where
  "FLOW_SIGNATURE_HEADER = ''flow-signature''"

record webhook_context =
  wc_deliveryId :: "string option"
  wc_eventName :: "string option"
  wc_attempt :: "rat option"
  wc_signatureStatus :: "string option"

definition contextFrom :: "header_source \<Rightarrow> webhook_context" where
  "contextFrom src =
     \<lparr>wc_deliveryId = headerValue src ''flow-delivery'', wc_eventName = headerValue src ''flow-event'',
      wc_attempt = (case Option.bind (headerValue src ''flow-attempt'') js_number of
          Some n \<Rightarrow> if n > 0 then Some n else None | None \<Rightarrow> None),
      wc_signatureStatus = headerValue src ''flow-signature-status''\<rparr>"

definition statusFor :: "verification_error \<Rightarrow> nat" where
  "statusFor e = (if ve_reason e = InvalidPayload then 400 else 401)"

section \<open>The client\<close>

text \<open>Registered handlers are named; a handler's code is outside.\<close>

record 'h webhook_client =
  wh_secrets :: "bytes list"
  wh_tolerance :: tolerance
  wh_background :: bool
  wh_maxBodyBytes :: "nat option"
  wh_handlers :: "(string \<times> 'h list) list"

definition new_client :: "bytes list \<Rightarrow> tolerance \<Rightarrow> bool \<Rightarrow> nat option \<Rightarrow> 'h webhook_client option" where
  "new_client secrets tol background limit =
     (if secrets = [] \<or> list_ex (\<lambda>s. s = []) secrets then None
      else Some \<lparr>wh_secrets = secrets, wh_tolerance = tol, wh_background = background, wh_maxBodyBytes = limit, wh_handlers = []\<rparr>)"

definition verify :: "platform \<Rightarrow> 'h webhook_client \<Rightarrow> webhook_body \<Rightarrow> string option \<Rightarrow> bool" where
  "verify pf c rawBody signature = verifyWebhookSignature pf rawBody signature (wh_secrets c)"

definition constructEvent :: "platform \<Rightarrow> 'h webhook_client \<Rightarrow> rat \<Rightarrow> webhook_body \<Rightarrow> string option \<Rightarrow> verification_error + json" where
  "constructEvent pf c now rawBody signature = constructWebhookEvent pf rawBody signature (wh_secrets c) (wh_tolerance c) now"

definition registered :: "'h webhook_client \<Rightarrow> string \<Rightarrow> 'h list" where
  "registered c t = (case map_of (wh_handlers c) t of Some hs \<Rightarrow> hs | None \<Rightarrow> [])"

definition on_event :: "string \<Rightarrow> 'h \<Rightarrow> 'h webhook_client \<Rightarrow> 'h webhook_client" where
  "on_event t h c = c\<lparr>wh_handlers := AList.update t (registered c t @ [h]) (wh_handlers c)\<rparr>"

definition off_event :: "string \<Rightarrow> 'h \<Rightarrow> 'h webhook_client \<Rightarrow> 'h webhook_client" where
  "off_event t h c =
     (case map_of (wh_handlers c) t of
        None \<Rightarrow> c
      | Some hs \<Rightarrow> c\<lparr>wh_handlers := AList.update t (filter (\<lambda>x. x \<noteq> h) hs) (wh_handlers c)\<rparr>)"

datatype 'h webhook_question =
    ReadBody
  | RunHandler 'h json webhook_context
  | ReportError "json option"
  | Reply nat string
  | NextError

datatype webhook_answer = BodyIs bytes | Finished | Raised

text \<open>Errors are not told apart: \<open>onError\<close> and \<open>next\<close> receive whatever was thrown.\<close>

type_synonym ('h, 'a) webhook_prog = "('h webhook_question, webhook_answer, unit, 'a) prog"

definition await :: "'h webhook_question \<Rightarrow> ('h, webhook_answer) webhook_prog" where
  "await q = bind_p (ask q) (\<lambda>r. if r = Raised then Throw () else Ret r)"

definition handlers_for :: "'h webhook_client \<Rightarrow> json \<Rightarrow> 'h list" where
  "handlers_for c event = (case event_type event of Some t \<Rightarrow> registered c t | None \<Rightarrow> []) @ registered c ''*''"

definition dispatch :: "'h webhook_client \<Rightarrow> json \<Rightarrow> webhook_context \<Rightarrow> ('h, unit) webhook_prog" where
  "dispatch c event context = map_p (\<lambda>_. ()) (mapM_p (\<lambda>h. await (RunHandler h event context)) (handlers_for c event))"

definition fail :: "json option \<Rightarrow> ('h, unit) webhook_prog" where
  "fail event = map_p (\<lambda>_. ()) (await (ReportError event))"

definition body_limit :: "'h webhook_client \<Rightarrow> nat" where
  "body_limit c = (case wh_maxBodyBytes c of Some n \<Rightarrow> n | None \<Rightarrow> 5 * 2 ^ 20)"

fun bytes_of :: "webhook_answer \<Rightarrow> bytes" where
  "bytes_of (BodyIs b) = b"
| "bytes_of _ = []"

record fetch_request =
  fr_method :: string
  fr_headers :: headers

type_synonym response = "nat \<times> string"

text \<open>\<open>Number(null)\<close> is 0, so a missing length never is too large.\<close>

definition declared_length :: "headers \<Rightarrow> rat option" where
  "declared_length hs = (case header_get hs ''content-length'' of Some v \<Rightarrow> js_number v | None \<Rightarrow> Some 0)"

definition run_dispatch :: "'h webhook_client \<Rightarrow> json \<Rightarrow> webhook_context \<Rightarrow> ('h, response) webhook_prog" where
  "run_dispatch c event context =
     catch_p (then_p (dispatch c event context) (Ret (200, ''ok'')))
       (\<lambda>_. then_p (fail (Some event)) (Ret (500, ''handler failed'')))"

definition in_background :: "'h webhook_client \<Rightarrow> json \<Rightarrow> webhook_context \<Rightarrow> ('h, unit) webhook_prog" where
  "in_background c event context = catch_p (catch_p (dispatch c event context) (\<lambda>_. fail (Some event))) (\<lambda>_. Ret ())"

definition fetch_deliver :: "platform \<Rightarrow> 'h webhook_client \<Rightarrow> rat \<Rightarrow> fetch_request \<Rightarrow> bytes \<Rightarrow> ('h, response) webhook_prog" where
  "fetch_deliver pf c now req raw =
     (case constructEvent pf c now (BodyBytes raw) (header_get (fr_headers req) FLOW_SIGNATURE_HEADER) of
        Inl e \<Rightarrow> Ret (statusFor e, ve_message e)
      | Inr event \<Rightarrow>
          (let context = contextFrom (HeadersObject (fr_headers req))
           in if wh_background c then then_p (in_background c event context) (Ret (200, ''ok''))
              else run_dispatch c event context))"

definition fetch_handler :: "platform \<Rightarrow> 'h webhook_client \<Rightarrow> rat \<Rightarrow> fetch_request \<Rightarrow> ('h, response) webhook_prog" where
  "fetch_handler pf c now req =
     (if fr_method req \<noteq> ''POST'' then Ret (405, ''Method Not Allowed'')
      else if (case declared_length (fr_headers req) of Some n \<Rightarrow> n > of_nat (body_limit c) | None \<Rightarrow> False)
      then Ret (413, ''Payload Too Large'')
      else bind_p (await ReadBody) (\<lambda>r.
        if length (bytes_of r) > body_limit c then Ret (413, ''Payload Too Large'')
        else fetch_deliver pf c now req (bytes_of r)))"

section \<open>Node's requests\<close>

datatype node_candidate = NoCandidate | CandText string | CandBytes bytes | CandOther

datatype chunk = ChunkText string | ChunkBytes bytes

datatype stream_event = DataEvent chunk | EndEvent | ErrorEvent

record node_request =
  nr_method :: "string option"
  nr_headers :: "(string \<times> header_value) list"
  nr_body :: node_candidate
  nr_rawBody :: node_candidate
  nr_readableEnded :: bool
  nr_stream :: "stream_event list option"

datatype node_body = TooLarge | Unavailable | Body webhook_body

fun candidate_body :: "nat \<Rightarrow> node_candidate \<Rightarrow> node_body option" where
  "candidate_body limit (CandText s) = Some (if length s > limit then TooLarge else Body (BodyText s))"
| "candidate_body limit (CandBytes b) = Some (if length b > limit then TooLarge else Body (BodyBytes b))"
| "candidate_body limit _ = None"

fun chunk_bytes :: "chunk \<Rightarrow> bytes" where
  "chunk_bytes (ChunkText s) = utf8 s"
| "chunk_bytes (ChunkBytes b) = b"

text \<open>The listeners on the stream; no value while the stream is still open.\<close>

fun read_stream :: "nat \<Rightarrow> bytes list \<Rightarrow> nat \<Rightarrow> stream_event list \<Rightarrow> node_body option" where
  "read_stream limit chunks sz [] = None"
| "read_stream limit chunks sz (DataEvent ch # es) =
     (if sz + length (chunk_bytes ch) > limit then Some TooLarge
      else read_stream limit (chunks @ [chunk_bytes ch]) (sz + length (chunk_bytes ch)) es)"
| "read_stream limit chunks sz (EndEvent # es) = Some (Body (BodyBytes (concat chunks)))"
| "read_stream limit chunks sz (ErrorEvent # es) = Some Unavailable"

definition readNodeBody :: "nat \<Rightarrow> node_request \<Rightarrow> node_body option" where
  "readNodeBody limit req =
     (case candidate_body limit (nr_rawBody req) of
        Some b \<Rightarrow> Some b
      | None \<Rightarrow>
          (case candidate_body limit (nr_body req) of
             Some b \<Rightarrow> Some b
           | None \<Rightarrow>
               if nr_body req \<noteq> NoCandidate \<or> nr_readableEnded req \<or> nr_stream req = None then Some Unavailable
               else read_stream limit [] 0 (the (nr_stream req))))"

definition reply :: "nat \<Rightarrow> string \<Rightarrow> ('h, unit) webhook_prog" where
  "reply status msg = map_p (\<lambda>_. ()) (await (Reply status msg))"

definition node_dispatch :: "'h webhook_client \<Rightarrow> json \<Rightarrow> webhook_context \<Rightarrow> ('h, unit) webhook_prog" where
  "node_dispatch c event context =
     bind_p (catch_p (then_p (dispatch c event context) (Ret True)) (\<lambda>_. then_p (fail (Some event)) (Ret False)))
       (\<lambda>ok. if ok then reply 200 ''ok'' else reply 500 ''handler failed'')"

definition node_deliver :: "platform \<Rightarrow> 'h webhook_client \<Rightarrow> rat \<Rightarrow> node_request \<Rightarrow> webhook_body \<Rightarrow> ('h, unit) webhook_prog" where
  "node_deliver pf c now req raw =
     (case constructEvent pf c now raw (headerValue (HeaderRecord (nr_headers req)) FLOW_SIGNATURE_HEADER) of
        Inl e \<Rightarrow> reply (statusFor e) (ve_message e)
      | Inr event \<Rightarrow>
          (let context = contextFrom (HeaderRecord (nr_headers req))
           in if wh_background c then then_p (reply 200 ''ok'') (in_background c event context)
              else node_dispatch c event context))"

definition node_try :: "platform \<Rightarrow> 'h webhook_client \<Rightarrow> rat \<Rightarrow> node_request \<Rightarrow> node_body \<Rightarrow> ('h, unit) webhook_prog" where
  "node_try pf c now req body =
     (if nr_method req \<noteq> None \<and> nr_method req \<noteq> Some [] \<and> nr_method req \<noteq> Some ''POST'' then reply 405 ''Method Not Allowed''
      else
        (case body of
           TooLarge \<Rightarrow> reply 413 ''Payload Too Large''
         | Unavailable \<Rightarrow> then_p (fail None) (reply 500 ''raw body unavailable'')
         | Body raw \<Rightarrow> node_deliver pf c now req raw))"

text \<open>With \<open>next\<close> an error that escapes is passed on; without it the request is answered 500.\<close>

definition node_handler :: "platform \<Rightarrow> 'h webhook_client \<Rightarrow> rat \<Rightarrow> node_request \<Rightarrow> bool \<Rightarrow> ('h, unit) webhook_prog option" where
  "node_handler pf c now req has_next =
     map_option (\<lambda>body. catch_p (node_try pf c now req body)
       (\<lambda>_. if has_next then map_p (\<lambda>_. ()) (ask NextError) else then_p (fail None) (reply 500 ''internal error'')))
     (if nr_method req \<noteq> None \<and> nr_method req \<noteq> Some [] \<and> nr_method req \<noteq> Some ''POST'' then Some Unavailable
      else readNodeBody (body_limit c) req)"

section \<open>Only verified events reach a handler\<close>

definition authentic :: "platform \<Rightarrow> 'h webhook_client \<Rightarrow> rat \<Rightarrow> webhook_body \<Rightarrow> string option \<Rightarrow> json \<Rightarrow> bool" where
  "authentic pf c now raw signature event \<longleftrightarrow>
     (\<exists>sg secret. signature = Some sg \<and> secret \<in> set (wh_secrets c) \<and> is_hex_digest (trim sg) \<and>
        hmac pf secret (toBytes raw) = hex_bytes (trim sg)) \<and>
     json_parse (decode pf (toBytes raw)) = Some event \<and> event_type event \<noteq> None \<and>
     (wh_tolerance c = TolOff \<or>
      verifyWebhookTimestamp (body_field (Some event) ''webhookTimestamp'') (case wh_tolerance c of Tol m \<Rightarrow> Some m | _ \<Rightarrow> None) now)"

lemma foldl_matched: "foldl (\<lambda>m x. if P x then True else m) b xs \<longleftrightarrow> b \<or> (\<exists>x \<in> set xs. P x)"
  by (induction xs arbitrary: b) auto

lemma constructEvent_authentic: "constructEvent pf c now raw signature = Inr event \<Longrightarrow> authentic pf c now raw signature event"
  unfolding constructEvent_def constructWebhookEvent_def check_replay_def failure_def verifyWebhookSignature_def Let_def foldl_matched authentic_def
  by (auto split: if_splits option.splits)

lemma await_track [simp]:
  "track I Q (await q) h \<longleftrightarrow> I h q \<and> (\<forall>r. if r = Raised then Q (h @ [(q, r)]) (Inl ()) else Q (h @ [(q, r)]) (Inr r))"
  by (simp add: await_def)

text \<open>The questions of a delivery: handlers of the event only, and errors about it.\<close>

definition about :: "'h webhook_client \<Rightarrow> json \<Rightarrow> webhook_context \<Rightarrow> 'h webhook_question \<Rightarrow> bool" where
  "about c event context q =
     (case q of
        RunHandler h e x \<Rightarrow> h \<in> set (handlers_for c event) \<and> e = event \<and> x = context
      | ReadBody \<Rightarrow> False
      | _ \<Rightarrow> True)"

lemma mapM_only: "(\<And>a h. a \<in> set as \<Longrightarrow> track I (\<lambda>_ _. True) (f a) h) \<Longrightarrow> track I (\<lambda>_ _. True) (mapM_p f as) h"
  by (induction as arbitrary: h) (auto intro!: bind_any simp del: track_bind)

lemma dispatch_about: "track (\<lambda>_. about c event context) (\<lambda>_ _. True) (dispatch c event context) h"
  unfolding dispatch_def map_p_def
  by (rule bind_any) (auto intro!: mapM_only simp: about_def)

lemma fail_about: "track (\<lambda>_. about c event context) (\<lambda>_ _. True) (fail e) h"
  by (simp add: fail_def about_def)

lemma reply_about: "track (\<lambda>_. about c event context) (\<lambda>_ _. True) (reply s m) h"
  by (simp add: reply_def about_def)

lemmas deliver_about = dispatch_about fail_about reply_about

lemma run_dispatch_about: "track (\<lambda>_. about c event context) (\<lambda>_ _. True) (run_dispatch c event context) h"
  unfolding run_dispatch_def then_p_def by (intro catch_any bind_any) (auto simp: deliver_about)

lemma in_background_about: "track (\<lambda>_. about c event context) (\<lambda>_ _. True) (in_background c event context) h"
  unfolding in_background_def by (intro catch_any) (auto simp: deliver_about)

lemma node_dispatch_about: "track (\<lambda>_. about c event context) (\<lambda>_ _. True) (node_dispatch c event context) h"
  unfolding node_dispatch_def then_p_def by (intro catch_any bind_any) (auto simp: deliver_about)

text \<open>What a handler is called with, given the exchange before it.\<close>

fun is_run :: "'h webhook_question \<Rightarrow> bool" where
  "is_run (RunHandler h e x) \<longleftrightarrow> True"
| "is_run _ \<longleftrightarrow> False"

definition verified_run :: "platform \<Rightarrow> 'h webhook_client \<Rightarrow> rat \<Rightarrow> webhook_body \<Rightarrow> string option \<Rightarrow> 'h webhook_question \<Rightarrow> bool" where
  "verified_run pf c now raw signature q =
     (case q of
        RunHandler h event context \<Rightarrow> authentic pf c now raw signature event \<and> h \<in> set (handlers_for c event)
      | _ \<Rightarrow> True)"

lemma about_verified: "authentic pf c now raw signature event \<Longrightarrow> about c event context q \<Longrightarrow> verified_run pf c now raw signature q"
  by (auto simp: about_def verified_run_def split: webhook_question.splits)

lemma verified_part:
  "constructEvent pf c now raw signature = Inr event \<Longrightarrow> track (\<lambda>_. about c event context) (\<lambda>_ _. True) p h \<Longrightarrow>
    track (\<lambda>_. verified_run pf c now raw signature) (\<lambda>_ _. True) p h"
  by (erule track_mono) (auto intro: about_verified [OF constructEvent_authentic])

lemma fetch_deliver_verified:
  "track (\<lambda>_. verified_run pf c now (BodyBytes raw) (header_get (fr_headers req) FLOW_SIGNATURE_HEADER)) (\<lambda>_ _. True)
    (fetch_deliver pf c now req raw) h"
proof (cases "constructEvent pf c now (BodyBytes raw) (header_get (fr_headers req) FLOW_SIGNATURE_HEADER)")
  case (Inr event)
  show ?thesis using Inr verified_part [OF Inr run_dispatch_about] verified_part [OF Inr in_background_about]
    by (simp add: fetch_deliver_def Let_def)
qed (simp add: fetch_deliver_def)

lemma fetch_handler_verified:
  "track (\<lambda>h q. is_run q \<longrightarrow> fr_method req = ''POST'' \<and> (\<exists>r. (ReadBody, r) \<in> set h \<and> length (bytes_of r) \<le> body_limit c \<and>
      verified_run pf c now (BodyBytes (bytes_of r)) (header_get (fr_headers req) FLOW_SIGNATURE_HEADER) q)) (\<lambda>_ _. True)
    (fetch_handler pf c now req) []"
proof -
  let ?I = "\<lambda>h q. is_run q \<longrightarrow> fr_method req = ''POST'' \<and> (\<exists>r. (ReadBody, r) \<in> set h \<and> length (bytes_of r) \<le> body_limit c \<and>
      verified_run pf c now (BodyBytes (bytes_of r)) (header_get (fr_headers req) FLOW_SIGNATURE_HEADER) q)"
  have deliver: "track ?I (\<lambda>_ _. True) (fetch_deliver pf c now req (bytes_of r)) [(ReadBody, r)]"
    if "fr_method req = ''POST''" "length (bytes_of r) \<le> body_limit c" for r
  proof (rule track_mono [OF track_grows [OF fetch_deliver_verified]])
    fix h q assume "verified_run pf c now (BodyBytes (bytes_of r)) (header_get (fr_headers req) FLOW_SIGNATURE_HEADER) q \<and> prefix [(ReadBody, r)] h"
    with that show "?I h q" by (auto simp: prefix_def intro!: exI [of _ r])
  qed simp
  then show ?thesis by (simp add: fetch_handler_def split: option.splits)
qed

text \<open>
  C6. A webhook handler runs only for a verified delivery: the request was a \<open>POST\<close> within the size limit, its
  raw body was signed with one of the secrets, its timestamp is inside the replay window, and the handler gets
  the event that body encodes and was registered for its type or for every type.
\<close>

theorem handlers_get_verified_events:
  assumes "replay (fetch_handler pf c now req) tr = Some res" and "(RunHandler h event context, a) \<in> set tr"
  shows "fr_method req = ''POST'' \<and> h \<in> set (handlers_for c event) \<and>
    (\<exists>r. (ReadBody, r) \<in> set tr \<and> length (bytes_of r) \<le> body_limit c \<and>
       authentic pf c now (BodyBytes (bytes_of r)) (header_get (fr_headers req) FLOW_SIGNATURE_HEADER) event)"
proof -
  from assms(2) obtain i where i: "i < length tr" "tr ! i = (RunHandler h event context, a)" by (auto simp: in_set_conv_nth)
  with track_replay [OF fetch_handler_verified [of req c pf now] assms(1)] obtain r where
    "fr_method req = ''POST''" "(ReadBody, r) \<in> set (take i tr)" "length (bytes_of r) \<le> body_limit c"
    "verified_run pf c now (BodyBytes (bytes_of r)) (header_get (fr_headers req) FLOW_SIGNATURE_HEADER) (RunHandler h event context)"
    by auto
  then show ?thesis by (auto simp: verified_run_def dest: in_set_takeD)
qed

definition sample_platform :: platform where
  "sample_platform = \<lparr>hmac = (\<lambda>k b. replicate 32 (length b)), decode = (\<lambda>b. map char_of b)\<rparr>"

definition sample_client :: "nat webhook_client" where
  "sample_client = on_event ''Issue'' 1 \<lparr>wh_secrets = [[1]], wh_tolerance = TolOff, wh_background = False, wh_maxBodyBytes = Some 20, wh_handlers = []\<rparr>"

definition sample_event :: json where
  "sample_event = JObj [(''type'', JStr ''Issue'')]"

definition sample_delivery :: fetch_request where
  "sample_delivery = \<lparr>fr_method = ''POST'', fr_headers = [(''flow-signature'', concat (replicate 32 ''10''))]\<rparr>"

definition sample_context :: webhook_context where
  "sample_context = \<lparr>wc_deliveryId = None, wc_eventName = None, wc_attempt = None, wc_signatureStatus = None\<rparr>"

definition delivery_run :: "(nat webhook_question \<times> webhook_answer) list" where
  "delivery_run = fst (steady (\<lambda>q. if q = ReadBody then BodyIs (utf8 (stringify sample_event)) else Finished)
     (fetch_handler sample_platform sample_client 0 sample_delivery))"

theorem handlers_get_verified_events_witness:
  "\<exists>r. (ReadBody, r) \<in> set delivery_run \<and>
     authentic sample_platform sample_client 0 (BodyBytes (bytes_of r)) (header_get (fr_headers sample_delivery) FLOW_SIGNATURE_HEADER) sample_event"
proof -
  have "(RunHandler 1 sample_event sample_context, Finished) \<in> set delivery_run" by code_simp
  from handlers_get_verified_events [OF _ this] show ?thesis unfolding delivery_run_def using steady_replay by blast
qed

section \<open>Node's requests are answered once\<close>

fun is_answer :: "'h webhook_question \<Rightarrow> bool" where
  "is_answer (Reply s m) \<longleftrightarrow> True"
| "is_answer NextError \<longleftrightarrow> True"
| "is_answer _ \<longleftrightarrow> False"

definition answers :: "('h webhook_question \<times> webhook_answer) list \<Rightarrow> nat" where
  "answers h = length (filter (\<lambda>x. is_answer (fst x)) h)"

text \<open>Only the registered handlers raise errors, not the server's own functions.\<close>

definition calm :: "('h webhook_question \<times> webhook_answer) list \<Rightarrow> bool" where
  "calm h = list_all (\<lambda>x. snd x = Raised \<longrightarrow> is_run (fst x)) h"

lemma answers_simps [simp]:
  "answers [] = 0" "answers (h @ h') = answers h + answers h'" "answers ((q, a) # h) = (if is_answer q then 1 else 0) + answers h"
  by (simp_all add: answers_def)

lemma calm_simps [simp]:
  "calm []" "calm (h @ h') \<longleftrightarrow> calm h \<and> calm h'" "calm ((q, a) # h) \<longleftrightarrow> (a = Raised \<longrightarrow> is_run q) \<and> calm h"
  by (simp_all add: calm_def)

definition adds :: "nat \<Rightarrow> ('h webhook_question \<times> webhook_answer) list \<Rightarrow> ('h webhook_question \<times> webhook_answer) list \<Rightarrow> unit + 'a \<Rightarrow> bool" where
  "adds n h = (\<lambda>h' res. calm h' \<longrightarrow> answers h' = answers h + n \<and> (\<exists>x. res = Inr x))"

lemma reply_adds: "track (\<lambda>_ _. True) (adds 1 h) (reply s m) h"
  by (auto simp: reply_def adds_def)

lemma fail_adds: "track (\<lambda>_ _. True) (adds 0 h) (fail e) h"
  by (auto simp: fail_def adds_def)

lemma mapM_answers:
  "answers h = n \<Longrightarrow> track (\<lambda>_ _. True) (\<lambda>h' _. answers h' = n) (mapM_p (\<lambda>x. await (RunHandler x e ctx)) xs) h"
proof (induction xs arbitrary: h)
  case (Cons x xs)
  have "track (\<lambda>_ _. True) (\<lambda>h' _. answers h' = n) (mapM_p (\<lambda>x. await (RunHandler x e ctx)) xs) (h @ [(RunHandler x e ctx, r)])" for r
    using Cons.prems by (intro Cons.IH) simp
  from track_mono [OF this] Cons.prems show ?case by (simp add: on_res_iff)
qed simp

lemma dispatch_answers: "track (\<lambda>_ _. True) (\<lambda>h' _. answers h' = answers h) (dispatch c e ctx) h"
  unfolding dispatch_def track_map by (rule track_mono [OF mapM_answers [OF refl]]) (auto simp: on_res_iff)

text \<open>An error of the server's own functions stays in the exchange, and nothing is claimed after it.\<close>

lemma uneasy: "\<not> calm h \<Longrightarrow> track (\<lambda>_ _. True) (adds n h0) p h"
  by (induction p arbitrary: h) (auto simp: adds_def)

lemma adds_bind:
  fixes p :: "('h, 'a) webhook_prog"
  assumes "track (\<lambda>_ _. True) (adds m h) p h" and "\<And>x h'. track (\<lambda>_ _. True) (adds n h') (f x) h'"
  shows "track (\<lambda>_ _. True) (adds (m + n) h) (bind_p p f) h"
  unfolding track_bind
proof (rule track_mono [OF assms(1)])
  fix h' and res :: "unit + 'a" assume r: "adds m h h' res"
  show "on_res (\<lambda>e. adds (m + n) h h' (Inl e)) (\<lambda>x. track (\<lambda>_ _. True) (adds (m + n) h) (f x) h') res"
  proof (cases "calm h'")
    case True
    with r obtain x where x: "res = Inr x" "answers h' = answers h + m" by (auto simp: adds_def)
    have "track (\<lambda>_ _. True) (adds (m + n) h) (f x) h'"
      by (rule track_mono [OF assms(2)]) (use x in \<open>simp_all add: adds_def\<close>)
    with x show ?thesis by simp
  next
    case False
    with uneasy [OF False] show ?thesis by (cases res) (auto simp: adds_def)
  qed
qed simp

lemmas adds_then = adds_bind [where f = "\<lambda>_. q" for q, folded then_p_def]

lemma adds_ret: "track (\<lambda>_ _. True) (adds 0 h) (Ret x) h"
  by (simp add: adds_def)

text \<open>A handler that raises is reported, and the delivery goes on.\<close>

lemma adds_catch:
  assumes "track (\<lambda>_ _. True) (\<lambda>h' _. answers h' = answers h) p h" and "\<And>h'. track (\<lambda>_ _. True) (adds 0 h') q h'"
  shows "track (\<lambda>_ _. True) (adds 0 h) (catch_p p (\<lambda>_. q)) h"
proof -
  have "track (\<lambda>_ _. True) (adds 0 h) q h'" if "answers h' = answers h" for h'
    by (rule track_mono [OF assms(2)]) (use that in \<open>simp_all add: adds_def\<close>)
  then show ?thesis unfolding track_catch
    by (intro track_mono [OF assms(1)]) (simp_all add: on_res_iff adds_def)
qed

lemma adds_guarded:
  assumes "track (\<lambda>_ _. True) (adds n h) p h"
  shows "track (\<lambda>_ _. True) (adds n h) (catch_p p (\<lambda>_. q)) h"
  unfolding track_catch
proof (rule track_mono [OF assms])
  fix h' res assume r: "adds n h h' res"
  show "on_res (\<lambda>e. track (\<lambda>_ _. True) (adds n h) q h') (\<lambda>x. adds n h h' (Inr x)) res"
    using r uneasy [of h' n h q] by (cases "calm h'") (auto simp: on_res_iff adds_def)
qed simp

lemma then_answers:
  "track (\<lambda>_ _. True) (\<lambda>h' _. answers h' = answers h) p h \<Longrightarrow>
    track (\<lambda>_ _. True) (\<lambda>h' _. answers h' = answers h) (then_p p (Ret x)) h"
  unfolding track_then by (erule track_mono) (simp_all add: on_res_iff)

lemma in_background_adds: "track (\<lambda>_ _. True) (adds 0 h) (in_background c event context) h"
  unfolding in_background_def by (intro adds_guarded adds_catch dispatch_answers fail_adds)

lemma node_dispatch_adds: "track (\<lambda>_ _. True) (adds 1 h) (node_dispatch c event context) h"
proof -
  have "track (\<lambda>_ _. True) (adds 0 h') (then_p (fail (Some event)) (Ret False)) h'" for h' :: "('h webhook_question \<times> webhook_answer) list"
    using adds_then [OF fail_adds adds_ret] by simp
  then have "track (\<lambda>_ _. True) (adds (0 + 1) h) (node_dispatch c event context) h"
    unfolding node_dispatch_def by (intro adds_bind adds_catch then_answers dispatch_answers) (simp_all add: reply_adds del: One_nat_def)
  then show ?thesis by simp
qed

lemma node_deliver_adds: "track (\<lambda>_ _. True) (adds 1 h) (node_deliver pf c now req raw) h"
  using adds_then [OF reply_adds in_background_adds, of h]
  by (auto simp: node_deliver_def Let_def node_dispatch_adds reply_adds simp del: track_then One_nat_def split: sum.splits)

lemma node_try_adds: "track (\<lambda>_ _. True) (adds 1 h) (node_try pf c now req body) h"
  using adds_then [OF fail_adds reply_adds, of h]
  by (auto simp: node_try_def node_deliver_adds reply_adds simp del: track_then One_nat_def split: node_body.splits)

lemma node_deliver_verified:
  "track (\<lambda>_. verified_run pf c now raw (headerValue (HeaderRecord (nr_headers req)) FLOW_SIGNATURE_HEADER)) (\<lambda>_ _. True)
    (node_deliver pf c now req raw) h"
proof (cases "constructEvent pf c now raw (headerValue (HeaderRecord (nr_headers req)) FLOW_SIGNATURE_HEADER)")
  case (Inl e)
  then show ?thesis by (simp add: node_deliver_def reply_def verified_run_def)
next
  case (Inr event)
  show ?thesis using Inr verified_part [OF Inr node_dispatch_about] verified_part [OF Inr in_background_about] verified_part [OF Inr reply_about]
    by (auto simp: node_deliver_def Let_def then_p_def simp del: track_bind intro!: bind_any)
qed

definition node_verified :: "platform \<Rightarrow> 'h webhook_client \<Rightarrow> rat \<Rightarrow> node_request \<Rightarrow> 'h webhook_question \<Rightarrow> bool" where
  "node_verified pf c now req q \<longleftrightarrow> (is_run q \<longrightarrow> (\<exists>raw. readNodeBody (body_limit c) req = Some (Body raw) \<and>
     verified_run pf c now raw (headerValue (HeaderRecord (nr_headers req)) FLOW_SIGNATURE_HEADER) q))"

lemma not_run [simp]: "node_verified pf c now req (Reply s m)" "node_verified pf c now req (ReportError e)" "node_verified pf c now req NextError"
  by (simp_all add: node_verified_def)

lemma reply_verified: "track (\<lambda>_. node_verified pf c now req) (\<lambda>_ _. True) (reply s m) h"
  by (simp add: reply_def)

lemma fail_verified: "track (\<lambda>_. node_verified pf c now req) (\<lambda>_ _. True) (fail e) h"
  by (simp add: fail_def)

lemma node_try_verified:
  assumes "body = Unavailable \<or> readNodeBody (body_limit c) req = Some body"
  shows "track (\<lambda>_. node_verified pf c now req) (\<lambda>_ _. True) (node_try pf c now req body) h"
proof -
  have "track (\<lambda>_. node_verified pf c now req) (\<lambda>_ _. True) (node_deliver pf c now req raw) h" if "body = Body raw" for raw
    by (rule track_mono [OF node_deliver_verified]) (use that assms in \<open>auto simp: node_verified_def\<close>)
  then show ?thesis
    by (auto simp: node_try_def then_p_def reply_verified fail_verified simp del: track_bind intro!: bind_any split: node_body.splits)
qed

lemma node_handler_parts:
  assumes "node_handler pf c now req has_next = Some p"
  shows "track (\<lambda>_. node_verified pf c now req) (adds 1 []) p []"
proof -
  from assms obtain body q where body: "body = Unavailable \<or> readNodeBody (body_limit c) req = Some body"
    and p: "p = catch_p (node_try pf c now req body) (\<lambda>_. q)"
    and q: "q = (if has_next then map_p (\<lambda>_. ()) (ask NextError) else then_p (fail None) (reply 500 ''internal error''))"
    by (auto simp: node_handler_def split: if_splits)
  have "track (\<lambda>_. node_verified pf c now req) (\<lambda>_ _. True) q h" for h
    by (auto simp: q then_p_def reply_verified fail_verified simp del: track_bind intro!: bind_any)
  then have v: "track (\<lambda>_. node_verified pf c now req) (\<lambda>_ _. True) p []"
    unfolding p by (intro catch_any node_try_verified body)
  have "track (\<lambda>_ _. True) (adds 1 []) p []" unfolding p by (rule adds_guarded [OF node_try_adds])
  from track_conj [OF v this] show ?thesis by simp
qed

text \<open>
  C21. Node's handler answers a request exactly once when only the registered handlers raise errors, also when one
  of them does, and it runs a handler only with the event its raw body encodes, verified as for a fetch handler.
\<close>

theorem node_answers_once:
  assumes "node_handler pf c now req has_next = Some p" and "replay p tr = Some res" and "calm tr"
  shows "answers tr = 1 \<and> (\<exists>x. res = Inr x) \<and>
    (\<forall>h event context a. (RunHandler h event context, a) \<in> set tr \<longrightarrow> h \<in> set (handlers_for c event) \<and>
       (\<exists>raw. readNodeBody (body_limit c) req = Some (Body raw) \<and>
          authentic pf c now raw (headerValue (HeaderRecord (nr_headers req)) FLOW_SIGNATURE_HEADER) event))"
proof -
  note run = track_replay [OF node_handler_parts [OF assms(1)] assms(2)]
  have "\<forall>x \<in> set tr. node_verified pf c now req (fst x)" using run by (metis append_Nil in_set_conv_nth)
  then have "node_verified pf c now req (RunHandler h event ctx)" if "(RunHandler h event ctx, a) \<in> set tr" for h event ctx a
    using that by force
  moreover have "answers tr = 1 \<and> (\<exists>x. res = Inr x)" using run assms(3) by (simp add: adds_def)
  ultimately show ?thesis by (fastforce simp: node_verified_def verified_run_def)
qed

definition sample_node :: node_request where
  "sample_node = \<lparr>nr_method = Some ''POST'', nr_headers = [(''flow-signature'', HString (concat (replicate 32 ''10'')))],
     nr_body = NoCandidate, nr_rawBody = NoCandidate, nr_readableEnded = False,
     nr_stream = Some [DataEvent (ChunkText (stringify sample_event)), EndEvent]\<rparr>"

text \<open>The registered handler raises; the request still gets its one answer.\<close>

theorem node_answers_once_witness:
  "\<exists>p tr res. node_handler sample_platform sample_client 0 sample_node False = Some p \<and> replay p tr = Some res \<and>
     (RunHandler 1 sample_event sample_context, Raised) \<in> set tr \<and> answers tr = 1"
proof -
  obtain p where p: "node_handler sample_platform sample_client 0 sample_node False = Some p"
    by (cases "body_limit sample_client < length (utf8 (stringify sample_event))")
       (simp_all add: node_handler_def sample_node_def readNodeBody_def)
  let ?tr = "fst (steady (\<lambda>q. if is_run q then Raised else Finished) (the (node_handler sample_platform sample_client 0 sample_node False)))"
  have tr: "calm ?tr" "(RunHandler 1 sample_event sample_context, Raised) \<in> set ?tr" by code_simp+
  obtain res where run: "replay p ?tr = Some res" using p steady_replay by fastforce
  from node_answers_once [OF p run tr(1)] have "answers ?tr = 1" ..
  with p run tr(2) show ?thesis by blast
qed

end
